(* ===== verification/KSU_Prelude.thy ===== *)
theory KSU_Prelude
  imports Main "HOL-Library.Word"
begin

text \<open>
  Shared vocabulary of the development: the machine integer types of the kernel module, the
  errno values it returns, byte buffers and the C string functions the sources call on them,
  and the little-endian layout of integers in a file or a user buffer.

  A C character array is a list of bytes of the declared length. A C string is the part of
  the array before its first NUL byte (\<open>cstr\<close>). Return codes are \<open>int\<close>, negative on error
  as in the sources. The sizes are those of a 64-bit kernel.
\<close>

unbundle bit_operations_syntax

section \<open>Types\<close>

type_synonym u8 = "8 word"
type_synonym u16 = "16 word"
type_synonym u32 = "32 word"
type_synonym u64 = "64 word"
type_synonym bytes = "u8 list"

section \<open>Errno values\<close>

abbreviation EPERM :: int where "EPERM \<equiv> 1"
abbreviation ENOENT :: int where "ENOENT \<equiv> 2"
abbreviation ESRCH :: int where "ESRCH \<equiv> 3"
abbreviation EINTR :: int where "EINTR \<equiv> 4"
abbreviation E2BIG :: int where "E2BIG \<equiv> 7"
abbreviation EAGAIN :: int where "EAGAIN \<equiv> 11"
abbreviation ENOMEM :: int where "ENOMEM \<equiv> 12"
abbreviation EFAULT :: int where "EFAULT \<equiv> 14"
abbreviation EBUSY :: int where "EBUSY \<equiv> 16"
abbreviation EEXIST :: int where "EEXIST \<equiv> 17"
abbreviation EINVAL :: int where "EINVAL \<equiv> 22"
abbreviation ENOTTY :: int where "ENOTTY \<equiv> 25"
abbreviation ENOSPC :: int where "ENOSPC \<equiv> 28"
abbreviation EIO :: int where "EIO \<equiv> 5"
abbreviation EBADF :: int where "EBADF \<equiv> 9"
abbreviation EACCES :: int where "EACCES \<equiv> 13"
abbreviation ERANGE :: int where "ERANGE \<equiv> 34"
abbreviation ENOSYS :: int where "ENOSYS \<equiv> 38"
abbreviation EPIPE :: int where "EPIPE \<equiv> 32"
abbreviation ENAMETOOLONG :: int where "ENAMETOOLONG \<equiv> 36"
abbreviation EMSGSIZE :: int where "EMSGSIZE \<equiv> 90"
abbreviation EOPNOTSUPP :: int where "EOPNOTSUPP \<equiv> 95"

section \<open>C strings\<close>

definition chars :: "string \<Rightarrow> bytes" where
  "chars s = map of_char s"

definition cstr :: "bytes \<Rightarrow> bytes" where
  "cstr b = takeWhile (\<lambda>c. c \<noteq> 0) b"

definition strnlen :: "bytes \<Rightarrow> nat \<Rightarrow> nat" where
  "strnlen b n = length (cstr (take n b))"

definition strcmp0 :: "bytes \<Rightarrow> bytes \<Rightarrow> bool" where
  "strcmp0 a b \<longleftrightarrow> cstr a = cstr b"

definition strncmp0 :: "bytes \<Rightarrow> bytes \<Rightarrow> nat \<Rightarrow> bool" where
  "strncmp0 a b n \<longleftrightarrow> cstr (take n a) = cstr (take n b)"

definition strscpy_pad :: "bytes \<Rightarrow> nat \<Rightarrow> bytes" where
  "strscpy_pad s n =
     (let t = take (n - 1) (cstr s) in t @ replicate (n - length t) 0)"

section \<open>Little-endian integers\<close>

fun le_enc :: "nat \<Rightarrow> nat \<Rightarrow> bytes" where
  "le_enc 0 n = []"
| "le_enc (Suc k) n = of_nat (n mod 256) # le_enc k (n div 256)"

fun le_dec :: "bytes \<Rightarrow> nat" where
  "le_dec [] = 0"
| "le_dec (b # bs) = unat b + 256 * le_dec bs"

definition u32_bytes :: "u32 \<Rightarrow> bytes" where
  "u32_bytes w = le_enc 4 (unat w)"

definition u64_bytes :: "u64 \<Rightarrow> bytes" where
  "u64_bytes w = le_enc 8 (unat w)"

definition bytes_u32 :: "bytes \<Rightarrow> u32" where
  "bytes_u32 b = of_nat (le_dec b)"

definition bytes_u64 :: "bytes \<Rightarrow> u64" where
  "bytes_u64 b = of_nat (le_dec b)"

definition bool_byte :: "bool \<Rightarrow> bytes" where
  "bool_byte b = [if b then 1 else 0]"

definition byte_bool :: "bytes \<Rightarrow> bool" where
  "byte_bool b = list_ex (\<lambda>c. c \<noteq> 0) b"

definition field :: "nat \<Rightarrow> nat \<Rightarrow> bytes \<Rightarrow> bytes" where
  "field off n b = take n (drop off b)"

section \<open>Build configuration\<close>

text \<open>The preprocessor switches of the build that the modelled code tests:
  \<open>CONFIG_KSU_DISABLE_POLICY\<close>, \<open>CONFIG_KSU_DISABLE_MANAGER\<close>, \<open>KSU_MANAGER_PACKAGE\<close> (absent or the
  pinned package name) and \<open>MODULE\<close>.\<close>

record ksu_config =
  cfg_disable_policy :: bool
  cfg_disable_manager :: bool
  cfg_manager_package :: "bytes option"
  cfg_module :: bool

section \<open>Collections\<close>

text \<open>The collections of facts: \<open>ksu_len\<close> holds the lengths of encodings and buffers, \<open>ksu_enc\<close> the
  decode-after-encode equations.\<close>

named_theorems ksu_len "lengths of encodings and fixed-size buffers"
named_theorems ksu_enc "decoding an encoding"

section \<open>Lemmas on C strings\<close>

lemma length_chars [simp]: "length (chars s) = length s"
  by (simp add: chars_def)

lemma cstr_nonzero [simp]: "0 \<notin> set (cstr b)"
  by (auto simp: cstr_def dest: set_takeWhileD)

lemma cstr_id: "0 \<notin> set b \<Longrightarrow> cstr b = b"
  unfolding cstr_def by (subst takeWhile_eq_all_conv) (metis)

lemma cstr_cstr [simp]: "cstr (cstr b) = cstr b"
  by (simp add: cstr_id)

lemma cstr_append_zero [simp]: "0 \<notin> set a \<Longrightarrow> cstr (a @ 0 # b) = a"
  by (auto simp: cstr_def takeWhile_append)

lemma length_cstr_le: "length (cstr b) \<le> length b"
  by (simp add: cstr_def length_takeWhile_le)

lemma strnlen_le: "strnlen b n \<le> n"
  unfolding strnlen_def by (rule order.trans [OF length_cstr_le]) simp

lemma cstr_take_full: "length b \<le> n \<Longrightarrow> cstr (take n b) = cstr b"
  by simp

lemma cstr_snoc_cases: "cstr b = b \<or> (\<exists>r. b = cstr b @ 0 # r)"
proof (induction b)
  case Nil
  then show ?case by (simp add: cstr_def)
next
  case (Cons a b)
  then show ?case by (auto simp: cstr_def)
qed

lemma strcmp0_sym: "strcmp0 a b \<longleftrightarrow> strcmp0 b a"
  by (auto simp: strcmp0_def)

lemma length_strscpy_pad [ksu_len]: "0 < n \<Longrightarrow> length (strscpy_pad s n) = n"
  by (simp add: strscpy_pad_def Let_def)

lemma cstr_strscpy_pad:
  assumes "0 < n"
  shows "cstr (strscpy_pad s n) = take (n - 1) (cstr s)"
proof -
  let ?t = "take (n - 1) (cstr s)"
  have nz: "0 \<notin> set ?t" by (meson cstr_nonzero in_set_takeD)
  have "n - length ?t = Suc (n - length ?t - 1)" using assms by simp
  then have "strscpy_pad s n = ?t @ 0 # replicate (n - length ?t - 1) 0"
    by (metis (no_types, lifting) replicate_Suc strscpy_pad_def)
  with nz show ?thesis by (metis cstr_append_zero)
qed

section \<open>Lemmas on encodings\<close>

lemma unat_bound: "unat (w :: 'a::len word) < 2 ^ LENGTH('a)"
  by (rule unsigned_less)

lemma length_le_enc [simp]: "length (le_enc k n) = k"
  by (induction k arbitrary: n) auto

lemma unat_of_nat_byte: "unat (of_nat (n mod 256) :: u8) = n mod 256"
  by (simp add: unat_of_nat)

lemma uint_u32_of_int: "0 \<le> x \<Longrightarrow> x < 2 ^ 32 \<Longrightarrow> uint (of_int x :: u32) = x"
  by (simp add: uint_word_of_int mod_pos_pos_trivial)

lemma unat_u16_inc:
  assumes "(x :: u16) \<noteq> 65535"
  shows "unat (x + 1) = Suc (unat x)"
proof -
  have "unat x \<noteq> unat (65535 :: u16)" using assms by (simp only: word_unat_eq_iff not_False_eq_True)
  moreover have "unat x < 65536" using unat_bound [of x] by simp
  ultimately have "Suc (unat x) < 65536" by simp
  then show ?thesis by (simp add: unat_word_ariths)
qed

lemma unat_u16_dec: "(x :: u16) \<noteq> 0 \<Longrightarrow> Suc (unat (x - 1)) = unat x"
  by (simp add: unat_minus_one unat_gt_0)

lemma le_dec_enc: "le_dec (le_enc k n) = n mod 256 ^ k"
proof (induction k arbitrary: n)
  case 0
  then show ?case by simp
next
  case (Suc k)
  then show ?case by (simp add: unat_of_nat_byte mod_mult2_eq)
qed

lemma le_dec_bound: "le_dec b < 256 ^ length b"
proof (induction b)
  case Nil
  then show ?case by simp
next
  case (Cons a b)
  have "unat a < 256" using unat_bound [of a] by simp
  moreover from Cons have "le_dec b + 1 \<le> 256 ^ length b" by simp
  then have "256 * (le_dec b + 1) \<le> 256 * 256 ^ length b" by (rule mult_le_mono2)
  ultimately show ?case by simp
qed

lemma le_enc_dec: "length b = k \<Longrightarrow> le_enc k (le_dec b) = b"
proof (induction b arbitrary: k)
  case Nil
  then show ?case by simp
next
  case (Cons a b)
  have a: "unat a < 256" using unat_bound [of a] by simp
  from Cons.prems obtain k' where "k = Suc k'" "length b = k'" by auto
  with Cons.IH [of k'] a show ?case by simp
qed

lemma length_u32_bytes [simp, ksu_len]: "length (u32_bytes w) = 4"
  by (simp add: u32_bytes_def)

lemma length_u64_bytes [simp, ksu_len]: "length (u64_bytes w) = 8"
  by (simp add: u64_bytes_def)

lemma length_bool_byte [simp, ksu_len]: "length (bool_byte b) = 1"
  by (simp add: bool_byte_def)

lemma bytes_u32_of [simp, ksu_enc]: "bytes_u32 (u32_bytes w) = w"
proof -
  have "unat w < 256 ^ 4" using unat_bound [of w] by simp
  then show ?thesis by (simp add: bytes_u32_def u32_bytes_def le_dec_enc)
qed

lemma bytes_u64_of [simp, ksu_enc]: "bytes_u64 (u64_bytes w) = w"
proof -
  have "unat w < 256 ^ 8" using unat_bound [of w] by simp
  then show ?thesis by (simp add: bytes_u64_def u64_bytes_def le_dec_enc)
qed

lemma byte_bool_of [simp, ksu_enc]: "byte_bool (bool_byte b) = b"
  by (simp add: byte_bool_def bool_byte_def)

section \<open>Lemmas on lists\<close>

lemma take_append_exact: "length a = n \<Longrightarrow> take n (a @ b) = a"
  by simp

lemma drop_append_exact: "length a = n \<Longrightarrow> drop n (a @ b) = b"
  by simp

lemma all_le_Suc_split: "(\<forall>k\<le>Suc n. Q k) \<longleftrightarrow> Q 0 \<and> (\<forall>k\<le>n. Q (Suc k))"
  by (metis Suc_le_mono le0 not0_implies_Suc)

lemma ex_nat_split: "(\<exists>n. R n) \<longleftrightarrow> R 0 \<or> (\<exists>n. R (Suc n))"
  by (metis not0_implies_Suc)

lemma None_iff_all: "x = None \<longleftrightarrow> (\<forall>y. x \<noteq> Some y)"
  by (cases x) auto

lemma Some_eq_map_option [simp]: "Some y = map_option f x \<longleftrightarrow> (\<exists>z. x = Some z \<and> y = f z)"
  by (cases x) auto

lemma option_eqI: "(\<And>a. x = Some a \<longleftrightarrow> y = Some a) \<Longrightarrow> x = y"
  by (metis not_None_eq)

lemma option_filter_eqI:
  assumes "\<And>a. x = Some a \<longleftrightarrow> y = Some a \<and> \<not> P a"
  shows "x = (case y of None \<Rightarrow> None | Some a \<Rightarrow> if P a then None else Some a)"
proof (cases x)
  case None
  then have "\<And>a. y = Some a \<Longrightarrow> P a" using assms by blast
  with None show ?thesis by (cases y) simp_all
next
  case (Some b)
  then have "y = Some b" "\<not> P b" using assms by blast+
  with Some show ?thesis by simp
qed

lemma map_of_rev_distinct: "distinct (map fst xs) \<Longrightarrow> map_of (rev xs) = map_of xs"
  by (rule map_of_inject_set [THEN iffD2]) (simp_all add: rev_map [symmetric])

lemma le_enc_numeral: "le_enc (numeral k) n = of_nat (n mod 256) # le_enc (pred_numeral k) (n div 256)"
  by (subst numeral_eq_Suc) (rule le_enc.simps)

lemma takeWhile_sep [simp]: "c \<notin> set a \<Longrightarrow> takeWhile (\<lambda>x. x \<noteq> c) (a @ c # b) = a"
  by (induction a) auto

lemma dropWhile_sep [simp]: "c \<notin> set a \<Longrightarrow> dropWhile (\<lambda>x. x \<noteq> c) (a @ c # b) = c # b"
  by (induction a) auto

lemma takeWhile_nosep: "c \<notin> set a \<Longrightarrow> takeWhile (\<lambda>x. x \<noteq> c) a = a"
  by (auto simp: takeWhile_eq_all_conv)

lemma case_pair_SomeE:
  assumes "case x of None \<Rightarrow> False | Some (a, b) \<Rightarrow> P a b"
  obtains a b where "x = Some (a, b)" "P a b"
  using assms by (auto split: option.splits)

lemma case_SomeE:
  assumes "case x of None \<Rightarrow> False | Some a \<Rightarrow> P a"
  obtains a where "x = Some a" "P a"
  using assms by (auto split: option.splits)

lemma if_FalseE:
  assumes "if c then False else P"
  obtains "\<not> c" "P"
  using assms by (auto split: if_splits)

lemma length_filter_neq:
  "distinct xs \<Longrightarrow> x \<in> set xs \<Longrightarrow> Suc (length (filter (\<lambda>y. y \<noteq> x) xs)) = length xs"
proof (induction xs)
  case Nil
  then show ?case by simp
next
  case (Cons y ys)
  have "x \<notin> set ys \<Longrightarrow> filter (\<lambda>y. y \<noteq> x) ys = ys" by (auto simp: filter_id_conv)
  with Cons show ?case by auto
qed

lemma find_eq_filter_hd: "find P xs = (case filter P xs of [] \<Rightarrow> None | x # _ \<Rightarrow> Some x)"
  by (induction xs) auto

lemma find_SomeD: "find P xs = Some x \<Longrightarrow> x \<in> set xs \<and> P x"
  by (induction xs) (auto split: if_splits)

lemma find_None_all: "find P xs = None \<longleftrightarrow> (\<forall>x\<in>set xs. \<not> P x)"
  by (induction xs) auto

end
