(* ===== verification/KSU_Profile.thy ===== *)
theory KSU_Profile
  imports KSU_Prelude
begin

text \<open>
  The application profile of \<open>uapi/app_profile.h\<close>: the records, their byte layout as the
  kernel writes it to the allowlist file and as userspace passes it, the validity check
  \<open>profile_valid\<close>, the version migration \<open>migrate_profile\<close> and the default profiles of
  \<open>policy/allowlist.c\<close>.

  The union of \<open>struct app_profile\<close> is kept as its storage: both members start with the
  \<open>use_default\<close> byte, and the byte after it is at once \<open>rp_config.template_name[0]\<close> and
  \<open>nrp_config.profile.umount_modules\<close> (\<open>nrp_umount_modules\<close>). Padding bytes are written as zero
  and never read.
\<close>

section \<open>Records\<close>

record root_profile =
  rp_uid :: u32
  rp_gid :: u32
  rp_groups_count :: u32
  rp_groups :: "u32 list"
  rp_cap_effective :: u64
  rp_cap_permitted :: u64
  rp_cap_inheritable :: u64
  rp_selinux_domain :: bytes
  rp_namespaces :: u32
  rp_flags :: u64

record app_profile =
  ap_version :: u32
  ap_key :: bytes
  ap_curr_uid :: u32
  ap_allow_su :: bool
  ap_use_default :: bool
  ap_template_name :: bytes
  ap_profile :: root_profile

abbreviation KSU_APP_PROFILE_VER :: u32 where "KSU_APP_PROFILE_VER \<equiv> 4"
abbreviation KSU_MAX_PACKAGE_NAME :: nat where "KSU_MAX_PACKAGE_NAME \<equiv> 256"
abbreviation KSU_MAX_GROUPS :: nat where "KSU_MAX_GROUPS \<equiv> 32"
abbreviation KSU_SELINUX_DOMAIN :: nat where "KSU_SELINUX_DOMAIN \<equiv> 64"
abbreviation FLAG_KSU_NO_NEW_PRIVS :: u64 where "FLAG_KSU_NO_NEW_PRIVS \<equiv> 1"
abbreviation KSU_NS_INHERITED :: u32 where "KSU_NS_INHERITED \<equiv> 0"
abbreviation KSU_NS_GLOBAL :: u32 where "KSU_NS_GLOBAL \<equiv> 1"
abbreviation KSU_NS_INDIVIDUAL :: u32 where "KSU_NS_INDIVIDUAL \<equiv> 2"
abbreviation KSU_APP_PROFILE_PRESERVE_UID :: u32 where "KSU_APP_PROFILE_PRESERVE_UID \<equiv> 9999"

definition KSU_DEFAULT_SELINUX_DOMAIN :: bytes where
  "KSU_DEFAULT_SELINUX_DOMAIN = chars ''u:r:ksu:s0''"

definition nrp_umount_modules :: "app_profile \<Rightarrow> bool" where
  "nrp_umount_modules a = byte_bool (take 1 (ap_template_name a))"

text \<open>The declared array sizes of the two structures.\<close>

definition root_profile_wf :: "root_profile \<Rightarrow> bool" where
  "root_profile_wf r \<longleftrightarrow> length (rp_groups r) = KSU_MAX_GROUPS \<and>
     length (rp_selinux_domain r) = KSU_SELINUX_DOMAIN"

definition app_profile_wf :: "app_profile \<Rightarrow> bool" where
  "app_profile_wf a \<longleftrightarrow> length (ap_key a) = KSU_MAX_PACKAGE_NAME \<and>
     length (ap_template_name a) = KSU_MAX_PACKAGE_NAME \<and> root_profile_wf (ap_profile a)"

section \<open>Byte layout\<close>

definition root_profile_bytes :: "root_profile \<Rightarrow> bytes" where
  "root_profile_bytes r =
     u32_bytes (rp_uid r) @ u32_bytes (rp_gid r) @ u32_bytes (rp_groups_count r) @
     concat (map u32_bytes (rp_groups r)) @ replicate 4 0 @
     u64_bytes (rp_cap_effective r) @ u64_bytes (rp_cap_permitted r) @
     u64_bytes (rp_cap_inheritable r) @ rp_selinux_domain r @
     u32_bytes (rp_namespaces r) @ replicate 4 0 @ u64_bytes (rp_flags r)"

definition app_profile_bytes :: "app_profile \<Rightarrow> bytes" where
  "app_profile_bytes a =
     u32_bytes (ap_version a) @ ap_key a @ u32_bytes (ap_curr_uid a) @
     bool_byte (ap_allow_su a) @ replicate 7 0 @
     bool_byte (ap_use_default a) @ ap_template_name a @ replicate 7 0 @
     root_profile_bytes (ap_profile a)"

definition root_profile_of :: "bytes \<Rightarrow> root_profile" where
  "root_profile_of b = \<lparr>
     rp_uid = bytes_u32 (field 0 4 b), rp_gid = bytes_u32 (field 4 4 b),
     rp_groups_count = bytes_u32 (field 8 4 b),
     rp_groups = map (\<lambda>i. bytes_u32 (field (12 + 4 * i) 4 b)) [0..<KSU_MAX_GROUPS],
     rp_cap_effective = bytes_u64 (field 144 8 b),
     rp_cap_permitted = bytes_u64 (field 152 8 b),
     rp_cap_inheritable = bytes_u64 (field 160 8 b),
     rp_selinux_domain = field 168 KSU_SELINUX_DOMAIN b,
     rp_namespaces = bytes_u32 (field 232 4 b), rp_flags = bytes_u64 (field 240 8 b)\<rparr>"

definition app_profile_of :: "bytes \<Rightarrow> app_profile" where
  "app_profile_of b = \<lparr>
     ap_version = bytes_u32 (field 0 4 b), ap_key = field 4 KSU_MAX_PACKAGE_NAME b,
     ap_curr_uid = bytes_u32 (field 260 4 b), ap_allow_su = byte_bool (field 264 1 b),
     ap_use_default = byte_bool (field 272 1 b),
     ap_template_name = field 273 KSU_MAX_PACKAGE_NAME b,
     ap_profile = root_profile_of (drop 536 b)\<rparr>"

abbreviation app_profile_size :: nat where "app_profile_size \<equiv> 784"
abbreviation kAppProfileSizePreV4 :: nat where "kAppProfileSizePreV4 \<equiv> 776"

section \<open>Validity, migration, defaults\<close>

definition profile_valid :: "ksu_config \<Rightarrow> app_profile option \<Rightarrow> bool" where
  "profile_valid cfg profile = (case profile of
     None \<Rightarrow> False
   | Some p \<Rightarrow>
       if strnlen (ap_key p) KSU_MAX_PACKAGE_NAME \<ge> KSU_MAX_PACKAGE_NAME then False
       else if ap_version p \<noteq> KSU_APP_PROFILE_VER then False
       else if ap_allow_su p \<and> \<not> cfg_disable_policy cfg then
         (if unat (rp_groups_count (ap_profile p)) > KSU_MAX_GROUPS then False
          else let len = strnlen (rp_selinux_domain (ap_profile p)) KSU_SELINUX_DOMAIN in
            \<not> (len = 0 \<or> len \<ge> KSU_SELINUX_DOMAIN))
       else True)"

definition migrate_v2 :: "app_profile \<Rightarrow> app_profile" where
  "migrate_v2 p =
     (if ap_allow_su p \<and>
         strncmp0 (rp_selinux_domain (ap_profile p)) (chars ''u:r:su:s0'' @ [0]) KSU_SELINUX_DOMAIN
      then p\<lparr>ap_profile := (ap_profile p)
               \<lparr>rp_selinux_domain := strscpy_pad KSU_DEFAULT_SELINUX_DOMAIN KSU_SELINUX_DOMAIN\<rparr>\<rparr>
      else p)"

definition migrate_v3 :: "app_profile \<Rightarrow> app_profile" where
  "migrate_v3 p =
     (if ap_allow_su p
      then p\<lparr>ap_profile := (ap_profile p)\<lparr>rp_flags := FLAG_KSU_NO_NEW_PRIVS\<rparr>\<rparr> else p)"

definition migrate_profile :: "u32 \<Rightarrow> app_profile \<Rightarrow> app_profile" where
  "migrate_profile version p =
     (if version = 2 then migrate_v3 (migrate_v2 p)
      else if version = 3 then migrate_v3 p else p)\<lparr>ap_version := KSU_APP_PROFILE_VER\<rparr>"

definition zero_root_profile :: root_profile where
  "zero_root_profile = \<lparr>rp_uid = 0, rp_gid = 0, rp_groups_count = 0,
     rp_groups = replicate KSU_MAX_GROUPS 0, rp_cap_effective = 0, rp_cap_permitted = 0,
     rp_cap_inheritable = 0, rp_selinux_domain = replicate KSU_SELINUX_DOMAIN 0,
     rp_namespaces = 0, rp_flags = 0\<rparr>"

text \<open>\<open>CAP_FULL_SET\<close> depends on the kernel version and is the parameter \<open>full_cap\<close>.\<close>

definition init_default_root_profile :: "u64 \<Rightarrow> root_profile \<Rightarrow> root_profile" where
  "init_default_root_profile full_cap r =
     r\<lparr>rp_uid := 0, rp_gid := 0, rp_groups_count := 1, rp_groups := (rp_groups r)[0 := 0],
       rp_cap_effective := full_cap, rp_namespaces := KSU_NS_INHERITED,
       rp_selinux_domain :=
         KSU_DEFAULT_SELINUX_DOMAIN @ 0 # drop (Suc (length KSU_DEFAULT_SELINUX_DOMAIN))
           (rp_selinux_domain r),
       rp_flags := 0\<rparr>"

section \<open>The layout round trip\<close>

lemma length_concat_u32 [simp, ksu_len]: "length (concat (map u32_bytes ws)) = 4 * length ws"
  by (induction ws) auto

lemma field_concat_u32:
  "i < length ws \<Longrightarrow> field (4 * i) 4 (concat (map u32_bytes ws) @ r) = u32_bytes (ws ! i)"
proof (induction ws arbitrary: i)
  case Nil
  then show ?case by simp
next
  case (Cons w ws)
  then show ?case by (cases i) (auto simp: field_def)
qed

lemma field_append_ge:
  "length a \<le> off \<Longrightarrow> field off n (a @ b) = field (off - length a) n b"
  by (simp add: field_def)

lemma field_append_eq: "length a = n \<Longrightarrow> field 0 n (a @ b) = a"
  by (simp add: field_def)

lemma field_all: "length a = n \<Longrightarrow> field 0 n a = a"
  by (simp add: field_def)

lemmas field_simps_layout = field_append_ge field_append_eq field_all

lemma length_root_profile_bytes [ksu_len]:
  "root_profile_wf r \<Longrightarrow> length (root_profile_bytes r) = 248"
  by (simp add: root_profile_wf_def root_profile_bytes_def)

lemma length_app_profile_bytes [ksu_len]:
  "app_profile_wf a \<Longrightarrow> length (app_profile_bytes a) = app_profile_size"
  by (simp add: app_profile_wf_def app_profile_bytes_def length_root_profile_bytes)

lemma root_profile_groups_of:
  assumes "length gs = KSU_MAX_GROUPS" "length h = 12"
  shows "map (\<lambda>i. bytes_u32 (field (12 + 4 * i) 4 (h @ concat (map u32_bytes gs) @ r)))
           [0..<KSU_MAX_GROUPS] = gs"
proof (rule nth_equalityI)
  show "length (map (\<lambda>i. bytes_u32 (field (12 + 4 * i) 4 (h @ concat (map u32_bytes gs) @ r)))
           [0..<KSU_MAX_GROUPS]) = length gs"
    using assms by simp
next
  fix i
  assume "i < length (map (\<lambda>i. bytes_u32 (field (12 + 4 * i) 4
            (h @ concat (map u32_bytes gs) @ r))) [0..<KSU_MAX_GROUPS])"
  then have "i < length gs" using assms by simp
  then show "map (\<lambda>i. bytes_u32 (field (12 + 4 * i) 4 (h @ concat (map u32_bytes gs) @ r)))
           [0..<KSU_MAX_GROUPS] ! i = gs ! i"
    using assms by (simp add: field_append_ge field_concat_u32)
qed

lemma root_profile_of_bytes [ksu_enc]:
  assumes "root_profile_wf r"
  shows "root_profile_of (root_profile_bytes r) = r"
proof -
  let ?h = "u32_bytes (rp_uid r) @ u32_bytes (rp_gid r) @ u32_bytes (rp_groups_count r)"
  have gs: "map (\<lambda>i. bytes_u32 (field (12 + 4 * i) 4 (root_profile_bytes r)))
              [0..<KSU_MAX_GROUPS] = rp_groups r"
    using root_profile_groups_of [of "rp_groups r" ?h] assms
    by (simp add: root_profile_bytes_def root_profile_wf_def)
  show ?thesis
    using assms gs unfolding root_profile_of_def root_profile_wf_def
    by (simp add: root_profile_bytes_def field_simps_layout)
qed

lemma app_profile_of_bytes [ksu_enc]:
  assumes "app_profile_wf a"
  shows "app_profile_of (app_profile_bytes a) = a"
proof -
  have d: "drop 536 (app_profile_bytes a) = root_profile_bytes (ap_profile a)"
    using assms by (simp add: app_profile_wf_def app_profile_bytes_def)
  show ?thesis
    using assms d unfolding app_profile_of_def app_profile_wf_def
    by (simp add: app_profile_bytes_def field_simps_layout root_profile_of_bytes)
qed

lemma app_profile_of_wf:
  assumes "app_profile_size \<le> length b"
  shows "app_profile_wf (app_profile_of b)"
  using assms by (simp add: app_profile_wf_def root_profile_wf_def app_profile_of_def
      root_profile_of_def field_def)

section \<open>Migration\<close>

lemma migrate_profile_uid [simp]: "ap_curr_uid (migrate_profile v p) = ap_curr_uid p"
  by (simp add: migrate_profile_def migrate_v2_def migrate_v3_def)

lemma migrate_profile_key [simp]: "ap_key (migrate_profile v p) = ap_key p"
  by (simp add: migrate_profile_def migrate_v2_def migrate_v3_def)

lemma migrate_profile_version [simp]: "ap_version (migrate_profile v p) = KSU_APP_PROFILE_VER"
  by (simp add: migrate_profile_def)

lemma migrate_profile_allow [simp]: "ap_allow_su (migrate_profile v p) = ap_allow_su p"
  by (simp add: migrate_profile_def migrate_v2_def migrate_v3_def)

lemma migrate_profile_current:
  "version = KSU_APP_PROFILE_VER \<Longrightarrow> ap_version p = KSU_APP_PROFILE_VER \<Longrightarrow>
   migrate_profile version p = p"
  by (simp add: migrate_profile_def)

lemma migrate_profile_wf: "app_profile_wf p \<Longrightarrow> app_profile_wf (migrate_profile v p)"
  by (auto simp: app_profile_wf_def root_profile_wf_def migrate_profile_def migrate_v2_def
      migrate_v3_def length_strscpy_pad)

end
