(* ===== verification/KSU_Cred.thy ===== *)
theory KSU_Cred
  imports KSU_Prelude
begin

text \<open>
  Identities: credentials and tasks as far as the module reads and writes them, the SELinux
  context tests and transitions of \<open>selinux/selinux.c\<close>, the manager identity of
  \<open>manager/manager_identity.h\<close>, the uid ranges of \<open>policy/allowlist.h\<close> and the ancestor walk of
  \<open>feature/shell_su_adb_only.c\<close>.

  The SELinux security server is not part of the module. Its two lookups are the record
  \<open>lsm\<close>: \<open>secctx_to_secid\<close> returns an error code and a sid, \<open>secid_to_secctx\<close> the context
  buffer, whose length counts the terminating NUL, or nothing on error.
\<close>

section \<open>Credentials and tasks\<close>

record tsec =
  ts_sid :: u32
  ts_exec_sid :: u32
  ts_create_sid :: u32
  ts_keycreate_sid :: u32
  ts_sockcreate_sid :: u32

record cred =
  cr_uid :: u32
  cr_euid :: u32
  cr_suid :: u32
  cr_fsuid :: u32
  cr_gid :: u32
  cr_egid :: u32
  cr_sgid :: u32
  cr_fsgid :: u32
  cr_securebits :: u32
  cr_cap_effective :: u64
  cr_cap_permitted :: u64
  cr_cap_bset :: u64
  cr_cap_inheritable :: u64
  cr_cap_ambient :: u64
  cr_groups :: "u32 list"
  cr_user :: u32
  cr_tsec :: "tsec option"

record lsm =
  secctx_to_secid :: "bytes \<Rightarrow> int \<times> u32"
  secid_to_secctx :: "u32 \<Rightarrow> bytes option"

record sid_cache =
  cached_su_sid :: u32
  cached_zygote_sid :: u32
  cached_init_sid :: u32
  cached_adbd_sid :: u32
  ksu_file_sid :: u32

section \<open>SELinux contexts\<close>

definition KERNEL_SU_CONTEXT :: bytes where "KERNEL_SU_CONTEXT = chars ''u:r:ksu:s0''"
definition KSU_FILE_CONTEXT :: bytes where "KSU_FILE_CONTEXT = chars ''u:object_r:ksu_file:s0''"
definition ZYGOTE_CONTEXT :: bytes where "ZYGOTE_CONTEXT = chars ''u:r:zygote:s0''"
definition INIT_CONTEXT :: bytes where "INIT_CONTEXT = chars ''u:r:init:s0''"
definition ADBD_CONTEXT :: bytes where "ADBD_CONTEXT = chars ''u:r:adbd:s0''"

definition transive_to_domain :: "lsm \<Rightarrow> bytes \<Rightarrow> cred \<Rightarrow> bool \<Rightarrow> int \<times> cred" where
  "transive_to_domain l domain c clear_exec_sid = (case cr_tsec c of
     None \<Rightarrow> (-1, c)
   | Some t \<Rightarrow>
       (case secctx_to_secid l (cstr domain) of (error, sid) \<Rightarrow>
          if error = 0 then
            let t1 = t\<lparr>ts_sid := sid, ts_create_sid := 0, ts_keycreate_sid := 0,
                       ts_sockcreate_sid := 0\<rparr>;
                t2 = (if clear_exec_sid then t1\<lparr>ts_exec_sid := 0\<rparr> else t1)
            in (error, c\<lparr>cr_tsec := Some t2\<rparr>)
          else (error, c)))"

definition setup_selinux :: "lsm \<Rightarrow> bytes \<Rightarrow> cred \<Rightarrow> cred" where
  "setup_selinux l domain c = snd (transive_to_domain l domain c False)"

definition setup_ksu_cred :: "lsm \<Rightarrow> cred \<Rightarrow> cred" where
  "setup_ksu_cred l ksu_cred = snd (transive_to_domain l KERNEL_SU_CONTEXT ksu_cred False)"

definition sid_of :: "lsm \<Rightarrow> bytes \<Rightarrow> u32" where
  "sid_of l ctx = (case secctx_to_secid l ctx of (err, sid) \<Rightarrow> if err \<noteq> 0 then 0 else sid)"

definition cache_sid :: "lsm \<Rightarrow> sid_cache \<Rightarrow> sid_cache" where
  "cache_sid l c = c\<lparr>cached_su_sid := sid_of l KERNEL_SU_CONTEXT,
     cached_zygote_sid := sid_of l ZYGOTE_CONTEXT,
     cached_init_sid := sid_of l INIT_CONTEXT,
     cached_adbd_sid := sid_of l ADBD_CONTEXT,
     ksu_file_sid := sid_of l KSU_FILE_CONTEXT\<rparr>"

definition is_sid_match :: "lsm \<Rightarrow> cred option \<Rightarrow> u32 \<Rightarrow> bytes \<Rightarrow> bool" where
  "is_sid_match l cred cached_sid fallback_context = (case cred of
     None \<Rightarrow> False
   | Some c \<Rightarrow>
       (case cr_tsec c of
          None \<Rightarrow> False
        | Some t \<Rightarrow>
            if cached_sid \<noteq> 0 then ts_sid t = cached_sid
            else (case secid_to_secctx l (ts_sid t) of
                    None \<Rightarrow> False
                  | Some ctx \<Rightarrow> strncmp0 (fallback_context @ [0]) ctx (length ctx))))"

definition is_task_ksu_domain :: "lsm \<Rightarrow> sid_cache \<Rightarrow> cred option \<Rightarrow> bool" where
  "is_task_ksu_domain l sc c = is_sid_match l c (cached_su_sid sc) KERNEL_SU_CONTEXT"

definition is_zygote :: "lsm \<Rightarrow> sid_cache \<Rightarrow> cred option \<Rightarrow> bool" where
  "is_zygote l sc c = is_sid_match l c (cached_zygote_sid sc) ZYGOTE_CONTEXT"

definition is_init :: "lsm \<Rightarrow> sid_cache \<Rightarrow> cred option \<Rightarrow> bool" where
  "is_init l sc c = is_sid_match l c (cached_init_sid sc) INIT_CONTEXT"

definition is_adbd :: "lsm \<Rightarrow> sid_cache \<Rightarrow> cred option \<Rightarrow> bool" where
  "is_adbd l sc c = is_sid_match l c (cached_adbd_sid sc) ADBD_CONTEXT"

text \<open>\<open>escape_to_root_for_adb_root\<close>: \<open>prepare_creds\<close> returns a copy of the task's credentials or
  nothing; the result is the committed credentials, or nothing where the task keeps its own.\<close>

definition escape_to_root_for_adb_root :: "lsm \<Rightarrow> cred option \<Rightarrow> cred option" where
  "escape_to_root_for_adb_root l prepared = (case prepared of
     None \<Rightarrow> None
   | Some c \<Rightarrow>
       (case transive_to_domain l KERNEL_SU_CONTEXT c True of (error, c') \<Rightarrow>
          if error \<noteq> 0 then None else Some c'))"

definition escape_to_root_for_init :: "lsm \<Rightarrow> cred option \<Rightarrow> cred option" where
  "escape_to_root_for_init l prepared = (case prepared of
     None \<Rightarrow> None
   | Some c \<Rightarrow> Some (setup_selinux l KERNEL_SU_CONTEXT c))"

section \<open>The manager identity and uid ranges\<close>

abbreviation KSU_INVALID_APPID :: u32 where "KSU_INVALID_APPID \<equiv> - 1"
abbreviation PER_USER_RANGE :: u32 where "PER_USER_RANGE \<equiv> 100000"
abbreviation WEBVIEW_ZYGOTE_UID :: u32 where "WEBVIEW_ZYGOTE_UID \<equiv> 1053"
abbreviation SHELL_UID :: u32 where "SHELL_UID \<equiv> 2000"
abbreviation SYSTEM_UID :: u32 where "SYSTEM_UID \<equiv> 1000"

definition ksu_is_manager_appid_valid :: "ksu_config \<Rightarrow> u32 \<Rightarrow> bool" where
  "ksu_is_manager_appid_valid cfg appid = (cfg_disable_manager cfg \<or> appid \<noteq> KSU_INVALID_APPID)"

definition is_uid_manager :: "ksu_config \<Rightarrow> u32 \<Rightarrow> u32 \<Rightarrow> bool" where
  "is_uid_manager cfg appid uid =
     (if cfg_disable_manager cfg then uid = 0 else appid = uid mod PER_USER_RANGE)"

definition ksu_get_manager_appid :: "ksu_config \<Rightarrow> u32 \<Rightarrow> u32" where
  "ksu_get_manager_appid cfg appid = (if cfg_disable_manager cfg then 0 else appid)"

definition ksu_set_manager_appid :: "ksu_config \<Rightarrow> u32 \<Rightarrow> u32 \<Rightarrow> u32" where
  "ksu_set_manager_appid cfg appid new = (if cfg_disable_manager cfg then appid else new)"

definition ksu_invalidate_manager_uid :: "ksu_config \<Rightarrow> u32 \<Rightarrow> u32" where
  "ksu_invalidate_manager_uid cfg appid =
     (if cfg_disable_manager cfg then appid else KSU_INVALID_APPID)"

definition is_appuid :: "u32 \<Rightarrow> bool" where
  "is_appuid uid = (let appid = uid mod PER_USER_RANGE in appid \<ge> 10000 \<and> appid \<le> 19999)"

definition is_isolated_process :: "u32 \<Rightarrow> bool" where
  "is_isolated_process uid = (let appid = uid mod PER_USER_RANGE in appid \<ge> 99000 \<and> appid \<le> 99999)"

section \<open>Tasks and the ancestor walk\<close>

record task =
  tk_pid :: int
  tk_tgid :: int
  tk_real_parent :: nat
  tk_cred :: cred
  tk_mm :: bool
  tk_tracepoint :: bool
  tk_disable_escape :: bool
  tk_seccomp_mode :: nat
  tk_seccomp_filter :: "nat set option"

text \<open>The process table maps the address of a task to the task; \<open>real_parent\<close> is never NULL.\<close>

type_synonym proc_table = "nat \<Rightarrow> task"

abbreviation MAX_ANCESTOR_DEPTH :: nat where "MAX_ANCESTOR_DEPTH \<equiv> 128"

function ancestor_walk :: "proc_table \<Rightarrow> (cred \<Rightarrow> bool) \<Rightarrow> nat \<Rightarrow> nat \<Rightarrow> bool" where
  "ancestor_walk ts trusted t depth =
     (if tk_pid (ts t) > 1 \<and> depth < MAX_ANCESTOR_DEPTH then
        (if trusted (tk_cred (ts t)) then True
         else ancestor_walk ts trusted (tk_real_parent (ts t)) (Suc depth))
      else False)"
  by pat_completeness auto
termination
  by (relation "measure (\<lambda>(ts, trusted, t, depth). MAX_ANCESTOR_DEPTH - depth)") auto

declare ancestor_walk.simps [simp del]

definition has_trusted_ancestor :: "lsm \<Rightarrow> sid_cache \<Rightarrow> proc_table \<Rightarrow> nat \<Rightarrow> bool" where
  "has_trusted_ancestor l sc ts current =
     ancestor_walk ts (\<lambda>c. is_adbd l sc (Some c) \<or> is_task_ksu_domain l sc (Some c)) current 0"

definition ksu_shell_su_allowed_for_current ::
  "bool \<Rightarrow> lsm \<Rightarrow> sid_cache \<Rightarrow> proc_table \<Rightarrow> nat \<Rightarrow> bool" where
  "ksu_shell_su_allowed_for_current adb_only l sc ts current =
     (if \<not> adb_only then True else has_trusted_ancestor l sc ts current)"

primrec ancestor :: "proc_table \<Rightarrow> nat \<Rightarrow> nat \<Rightarrow> nat" where
  "ancestor ts 0 t = t"
| "ancestor ts (Suc n) t = ancestor ts n (tk_real_parent (ts t))"

section \<open>Lemmas\<close>

lemma word_mod_lt_range: "(uid :: u32) mod PER_USER_RANGE < PER_USER_RANGE"
  by (rule word_mod_less_divisor) simp

lemma manager_invalid_none:
  "\<not> cfg_disable_manager cfg \<Longrightarrow> \<not> is_uid_manager cfg KSU_INVALID_APPID uid"
proof -
  have "\<not> KSU_INVALID_APPID < PER_USER_RANGE" by simp
  then have "KSU_INVALID_APPID \<noteq> uid mod PER_USER_RANGE" by (metis word_mod_lt_range)
  then show "\<not> cfg_disable_manager cfg \<Longrightarrow> \<not> is_uid_manager cfg KSU_INVALID_APPID uid"
    by (simp add: is_uid_manager_def)
qed

lemma is_uid_manager_same_app:
  "\<not> cfg_disable_manager cfg \<Longrightarrow> uid mod PER_USER_RANGE = uid' mod PER_USER_RANGE \<Longrightarrow>
   is_uid_manager cfg appid uid = is_uid_manager cfg appid uid'"
  by (simp add: is_uid_manager_def)

text \<open>The walk finds a trusted credential exactly when one of the first
  \<open>MAX_ANCESTOR_DEPTH - depth\<close> tasks of the ancestor chain has one and no task up to it is init.\<close>

lemma ancestor_walk_iff:
  "ancestor_walk ts P t depth \<longleftrightarrow>
   (\<exists>n. depth + n < MAX_ANCESTOR_DEPTH \<and> P (tk_cred (ts (ancestor ts n t))) \<and>
        (\<forall>k\<le>n. tk_pid (ts (ancestor ts k t)) > 1))"
proof (induction ts P t depth rule: ancestor_walk.induct)
  case (1 ts P t depth)
  show ?case
  proof (cases "tk_pid (ts t) > 1 \<and> depth < MAX_ANCESTOR_DEPTH \<and> \<not> P (tk_cred (ts t))")
    case True
    then have "ancestor_walk ts P t depth =
        ancestor_walk ts P (tk_real_parent (ts t)) (Suc depth)"
      by (simp add: ancestor_walk.simps [of ts P t])
    also have "\<dots> \<longleftrightarrow> (\<exists>n. depth + Suc n < MAX_ANCESTOR_DEPTH \<and>
        P (tk_cred (ts (ancestor ts (Suc n) t))) \<and>
        (\<forall>k\<le>Suc n. tk_pid (ts (ancestor ts k t)) > 1))"
      using 1 True by (simp add: all_le_Suc_split)
    finally show ?thesis
      using True by (subst ex_nat_split) simp
  next
    case False
    then show ?thesis
      by (subst ancestor_walk.simps) (force dest: spec [of _ 0])
  qed
qed

section \<open>Cached and uncached context tests\<close>

text \<open>What the tests rely on from the security server for a context: the context has a sid, that sid
  is not the null sid, a sid's context is NUL-terminated text, and only this sid has this context.\<close>

definition lsm_knows :: "lsm \<Rightarrow> bytes \<Rightarrow> u32 \<Rightarrow> bool" where
  "lsm_knows l ctx sid \<longleftrightarrow> secctx_to_secid l ctx = (0, sid) \<and> sid \<noteq> 0 \<and>
     (\<forall>s c. secid_to_secctx l s = Some c \<longrightarrow> (\<exists>t. c = t @ [0] \<and> 0 \<notin> set t)) \<and>
     (\<forall>s. secid_to_secctx l s = Some (ctx @ [0]) \<longleftrightarrow> s = sid)"

lemma strncmp0_terminated:
  assumes "0 \<notin> set a" "0 \<notin> set t"
  shows "strncmp0 (a @ [0]) (t @ [0]) (length (t @ [0])) \<longleftrightarrow> a = t"
proof
  assume "strncmp0 (a @ [0]) (t @ [0]) (length (t @ [0]))"
  then have eq: "cstr (take (Suc (length t)) (a @ [0])) = t"
    using assms by (simp add: strncmp0_def)
  show "a = t"
  proof (cases "length a \<le> length t")
    case True
    then show ?thesis using eq assms by simp
  next
    case False
    then have tk: "take (Suc (length t)) (a @ [0]) = take (Suc (length t)) a" by simp
    have "0 \<notin> set (take (Suc (length t)) a)" using assms(1) by (meson in_set_takeD)
    then have "take (Suc (length t)) a = t" using eq unfolding tk by (simp add: cstr_id)
    then have "length (take (Suc (length t)) a) = length t" by simp
    with False show ?thesis by simp
  qed
qed (simp add: strncmp0_def)

text \<open>The test of a credential's SELinux domain gives the same answer from the cached sid as by
  asking the security server for the context string.\<close>

theorem sid_match_cached:
  assumes "lsm_knows l ctx sid" "0 \<notin> set ctx"
  shows "is_sid_match l c (sid_of l ctx) ctx = is_sid_match l c 0 ctx"
proof -
  have "(case secid_to_secctx l s of None \<Rightarrow> False
          | Some t \<Rightarrow> strncmp0 (ctx @ [0]) t (length t)) \<longleftrightarrow> s = sid" for s
  proof (cases "secid_to_secctx l s")
    case None
    have "secid_to_secctx l s = Some (ctx @ [0]) \<longleftrightarrow> s = sid" using assms(1) by (simp add: lsm_knows_def)
    with None show ?thesis by simp
  next
    case (Some x)
    then obtain t where t: "x = t @ [0]" "0 \<notin> set t" using assms(1) by (auto simp: lsm_knows_def)
    have "secid_to_secctx l s = Some (ctx @ [0]) \<longleftrightarrow> s = sid" using assms(1) by (simp add: lsm_knows_def)
    then have "s = sid \<longleftrightarrow> x = ctx @ [0]" using Some by simp
    then show ?thesis using Some t strncmp0_terminated [OF assms(2) t(2)] by auto
  qed
  then show ?thesis using assms(1)
    by (auto simp: is_sid_match_def lsm_knows_def sid_of_def split: option.split)
qed

definition lsm0 :: lsm where
  "lsm0 = \<lparr>secctx_to_secid = (\<lambda>c. if c = KERNEL_SU_CONTEXT then (0, 7) else (- EINVAL, 0)),
     secid_to_secctx = (\<lambda>s. if s = 7 then Some (KERNEL_SU_CONTEXT @ [0]) else None)\<rparr>"

theorem sid_match_cached_witness:
  "lsm_knows lsm0 KERNEL_SU_CONTEXT 7 \<and> 0 \<notin> set KERNEL_SU_CONTEXT \<and>
   is_sid_match lsm0 None (sid_of lsm0 KERNEL_SU_CONTEXT) KERNEL_SU_CONTEXT =
     is_sid_match lsm0 None 0 KERNEL_SU_CONTEXT"
proof -
  have "0 \<notin> set KERNEL_SU_CONTEXT" by (simp add: KERNEL_SU_CONTEXT_def chars_def)
  moreover from this have "lsm_knows lsm0 KERNEL_SU_CONTEXT 7" by (simp add: lsm_knows_def lsm0_def)
  ultimately show ?thesis using sid_match_cached by blast
qed

end
