(* ===== verification/KSU_Allowlist.thy ===== *)
theory KSU_Allowlist
  imports KSU_Profile KSU_Cred
begin

text \<open>
  The allowlist of \<open>policy/allowlist.c\<close>: the RCU hash table of per-uid profiles, its reference
  counts, the default profiles, the queries the rest of the module asks and the allowlist file.

  \<^item> A node (\<open>struct perm_data\<close>) lives at an address of \<open>al_heap\<close>; the table holds addresses, so
    that a node taken out of the table while a reader holds a reference stays in the heap.
    \<open>kzalloc\<close> is a parameter from the heap to a fresh address or nothing.
  \<^item> The table has 256 buckets in iteration order. The kernel's \<open>hash_min\<close> is the parameter
    \<open>hf\<close>, which is below 256.
  \<^item> The allowlist mutex makes each operation atomic, so an operation is a function of the state.
    \<open>goto retry\<close> in the readers is an endless loop where the reference count is zero: these
    are \<open>option\<close> values and \<open>None\<close> is not returning.
  \<^item> \<open>kernel_write\<close> is the parameter \<open>wr\<close>, the number of bytes the k-th call writes;
    \<open>kernel_read\<close> returns the bytes of the file that are there.
\<close>

section \<open>State\<close>

record perm_data =
  pd_ref :: nat
  pd_profile :: app_profile

type_synonym perm_heap = "nat \<Rightarrow> perm_data option"
type_synonym kzalloc_fn = "perm_heap \<Rightarrow> nat option"

record allow_state =
  al_heap :: perm_heap
  al_table :: "nat list list"
  al_count :: u16
  al_default_root :: root_profile
  al_default_umount :: bool

abbreviation ALLOW_LIST_SIZE :: nat where "ALLOW_LIST_SIZE \<equiv> 256"
abbreviation U16_MAX :: u16 where "U16_MAX \<equiv> 65535"

definition al_nodes :: "allow_state \<Rightarrow> nat list" where
  "al_nodes s = concat (al_table s)"

definition node_is :: "perm_heap \<Rightarrow> (app_profile \<Rightarrow> bool) \<Rightarrow> nat \<Rightarrow> bool" where
  "node_is h P p = (case h p of None \<Rightarrow> False | Some d \<Rightarrow> P (pd_profile d))"

definition find_possible :: "(u32 \<Rightarrow> nat) \<Rightarrow> allow_state \<Rightarrow> u32 \<Rightarrow> (app_profile \<Rightarrow> bool) \<Rightarrow> nat option" where
  "find_possible hf s uid P = find (node_is (al_heap s) P) (al_table s ! hf uid)"

section \<open>Initialisation\<close>

definition zero_allow_state :: allow_state where
  "zero_allow_state = \<lparr>al_heap = (\<lambda>_. None), al_table = replicate ALLOW_LIST_SIZE [],
     al_count = 0, al_default_root = zero_root_profile, al_default_umount = False\<rparr>"

definition init_default_profiles :: "u64 \<Rightarrow> allow_state \<Rightarrow> allow_state" where
  "init_default_profiles full_cap s =
     s\<lparr>al_default_root := init_default_root_profile full_cap (al_default_root s),
       al_default_umount := True\<rparr>"

definition ksu_allowlist_init :: "u64 \<Rightarrow> allow_state \<Rightarrow> allow_state" where
  "ksu_allowlist_init full_cap s = init_default_profiles full_cap s"

section \<open>Reference counts\<close>

definition kref_get_unless_zero :: "perm_heap \<Rightarrow> nat \<Rightarrow> perm_heap option" where
  "kref_get_unless_zero h p = (case h p of
     None \<Rightarrow> None
   | Some d \<Rightarrow> if pd_ref d = 0 then None else Some (h(p \<mapsto> d\<lparr>pd_ref := Suc (pd_ref d)\<rparr>)))"

definition put_perm_data :: "perm_heap \<Rightarrow> nat \<Rightarrow> perm_heap" where
  "put_perm_data h p = (case h p of
     None \<Rightarrow> h
   | Some d \<Rightarrow> if pd_ref d \<le> 1 then h(p := None) else h(p \<mapsto> d\<lparr>pd_ref := pd_ref d - 1\<rparr>))"

section \<open>Lookup\<close>

partial_function (option) ksu_get_app_profile ::
  "(u32 \<Rightarrow> nat) \<Rightarrow> allow_state \<Rightarrow> u32 \<Rightarrow> (nat option \<times> allow_state) option" where
  "ksu_get_app_profile hf s uid =
     (case find_possible hf s uid (\<lambda>a. uid = ap_curr_uid a) of
        None \<Rightarrow> Some (None, s)
      | Some p \<Rightarrow>
          (case kref_get_unless_zero (al_heap s) p of
             None \<Rightarrow> ksu_get_app_profile hf s uid
           | Some h \<Rightarrow> Some (Some p, s\<lparr>al_heap := h\<rparr>)))"

definition ksu_put_app_profile :: "allow_state \<Rightarrow> nat \<Rightarrow> allow_state" where
  "ksu_put_app_profile s p = s\<lparr>al_heap := put_perm_data (al_heap s) p\<rparr>"

section \<open>Setting a profile\<close>

definition policy_normalise :: "ksu_config \<Rightarrow> app_profile \<Rightarrow> app_profile" where
  "policy_normalise cfg p =
     (if cfg_disable_policy cfg then
        (if ap_allow_su p
         then p\<lparr>ap_use_default := True, ap_template_name := replicate KSU_MAX_PACKAGE_NAME 0,
                ap_profile := zero_root_profile\<rparr>
         else p\<lparr>ap_use_default := True, ap_template_name := (ap_template_name p)[0 := 0]\<rparr>)
      else p)"

definition set_default_umount :: "app_profile \<Rightarrow> allow_state \<Rightarrow> allow_state" where
  "set_default_umount p s =
     (if ap_curr_uid p = KSU_APP_PROFILE_PRESERVE_UID
      then s\<lparr>al_default_umount := nrp_umount_modules p\<rparr> else s)"

definition replace_node :: "(u32 \<Rightarrow> nat) \<Rightarrow> allow_state \<Rightarrow> app_profile \<Rightarrow> nat \<Rightarrow> nat \<Rightarrow> allow_state" where
  "replace_node hf s p old np =
     (let b = hf (ap_curr_uid p);
          h = (al_heap s)(np \<mapsto> \<lparr>pd_ref = 1, pd_profile = p\<rparr>)
      in s\<lparr>al_table := (al_table s)[b := map (\<lambda>q. if q = old then np else q) (al_table s ! b)],
           al_heap := put_perm_data h old\<rparr>)"

definition add_node :: "(u32 \<Rightarrow> nat) \<Rightarrow> allow_state \<Rightarrow> app_profile \<Rightarrow> nat \<Rightarrow> allow_state" where
  "add_node hf s p np =
     (let b = hf (ap_curr_uid p)
      in s\<lparr>al_table := (al_table s)[b := np # al_table s ! b],
           al_heap := (al_heap s)(np \<mapsto> \<lparr>pd_ref = 1, pd_profile = p\<rparr>),
           al_count := al_count s + 1\<rparr>)"

definition ksu_set_app_profile ::
  "ksu_config \<Rightarrow> (u32 \<Rightarrow> nat) \<Rightarrow> kzalloc_fn \<Rightarrow> allow_state \<Rightarrow> app_profile \<Rightarrow> int \<times> allow_state" where
  "ksu_set_app_profile cfg hf kzalloc s profile0 =
     (if \<not> profile_valid cfg (Some profile0) then (- EINVAL, s)
      else
        let profile = policy_normalise cfg profile0 in
        if ap_curr_uid profile = KSU_APP_PROFILE_PRESERVE_UID \<and>
           \<not> strcmp0 (ap_key profile) (chars ''$'')
        then (- EINVAL, s)
        else
          (case find_possible hf s (ap_curr_uid profile)
                  (\<lambda>a. ap_curr_uid profile = ap_curr_uid a) of
             Some p \<Rightarrow>
               (case kzalloc (al_heap s) of
                  None \<Rightarrow> (- ENOMEM, s)
                | Some np \<Rightarrow> (0, set_default_umount profile (replace_node hf s profile p np)))
           | None \<Rightarrow>
               if al_count s = U16_MAX then (- E2BIG, s)
               else
                 (case kzalloc (al_heap s) of
                    None \<Rightarrow> (- ENOMEM, s)
                  | Some np \<Rightarrow> (0, set_default_umount profile (add_node hf s profile np)))))"

section \<open>Authorisation queries\<close>

definition forbid_system_uid :: "u32 \<Rightarrow> bool" where
  "forbid_system_uid uid \<longleftrightarrow> uid < SHELL_UID \<and> uid \<noteq> SYSTEM_UID"

definition ksu_is_allow_uid ::
  "ksu_config \<Rightarrow> u32 \<Rightarrow> bool \<Rightarrow> (u32 \<Rightarrow> nat) \<Rightarrow> allow_state \<Rightarrow> u32 \<Rightarrow> bool" where
  "ksu_is_allow_uid cfg appid allow_shell hf s uid =
     (if forbid_system_uid uid then False
      else if is_uid_manager cfg appid uid then True
      else if allow_shell \<and> uid = SHELL_UID then True
      else (find_possible hf s uid (\<lambda>a. uid = ap_curr_uid a \<and> ap_allow_su a) \<noteq> None))"

definition ksu_is_uid_granted_root ::
  "ksu_config \<Rightarrow> u32 \<Rightarrow> bool \<Rightarrow> (u32 \<Rightarrow> nat) \<Rightarrow> allow_state \<Rightarrow> lsm \<Rightarrow> sid_cache \<Rightarrow> cred \<Rightarrow> u32 \<Rightarrow> bool" where
  "ksu_is_uid_granted_root cfg appid allow_shell hf s l sc current_cred uid =
     (if uid = 0 then is_task_ksu_domain l sc (Some current_cred)
      else ksu_is_allow_uid cfg appid allow_shell hf s uid)"

definition ksu_is_allow_uid_for_current ::
  "ksu_config \<Rightarrow> u32 \<Rightarrow> bool \<Rightarrow> (u32 \<Rightarrow> nat) \<Rightarrow> allow_state \<Rightarrow> lsm \<Rightarrow> sid_cache \<Rightarrow> bool \<Rightarrow>
   proc_table \<Rightarrow> nat \<Rightarrow> u32 \<Rightarrow> bool" where
  "ksu_is_allow_uid_for_current cfg appid allow_shell hf s l sc adb_only ts current uid =
     (if uid = SHELL_UID \<and> \<not> ksu_shell_su_allowed_for_current adb_only l sc ts current then False
      else ksu_is_uid_granted_root cfg appid allow_shell hf s l sc (tk_cred (ts current)) uid)"

definition ksu_uid_should_umount ::
  "ksu_config \<Rightarrow> u32 \<Rightarrow> bool \<Rightarrow> (u32 \<Rightarrow> nat) \<Rightarrow> allow_state \<Rightarrow> u32 \<Rightarrow> (bool \<times> allow_state) option" where
  "ksu_uid_should_umount cfg appid allow_shell hf s uid =
     (if ksu_is_manager_appid_valid cfg appid \<and>
         ksu_get_manager_appid cfg appid = uid mod PER_USER_RANGE then Some (False, s)
      else if cfg_disable_policy cfg then
        Some (\<not> ksu_is_allow_uid cfg appid allow_shell hf s uid, s)
      else
        (case ksu_get_app_profile hf s uid of
           None \<Rightarrow> None
         | Some (profile, s1) \<Rightarrow>
             (case profile of
                None \<Rightarrow> Some (al_default_umount s1, s1)
              | Some p \<Rightarrow>
                  (case al_heap s1 p of
                     None \<Rightarrow> None
                   | Some d \<Rightarrow>
                       let a = pd_profile d;
                           res = (if ap_allow_su a then False
                                  else if ap_use_default a then al_default_umount s1
                                  else nrp_umount_modules a)
                       in Some (res, ksu_put_app_profile s1 p)))))"

datatype root_ref = Default_root | Node_root nat

partial_function (option) get_root_profile_retry ::
  "(u32 \<Rightarrow> nat) \<Rightarrow> allow_state \<Rightarrow> u32 \<Rightarrow> (root_ref \<times> allow_state) option" where
  "get_root_profile_retry hf s uid =
     (case find_possible hf s uid (\<lambda>a. uid = ap_curr_uid a \<and> ap_allow_su a) of
        None \<Rightarrow> Some (Default_root, s)
      | Some p \<Rightarrow>
          if node_is (al_heap s) ap_use_default p then Some (Default_root, s)
          else
            (case kref_get_unless_zero (al_heap s) p of
               None \<Rightarrow> get_root_profile_retry hf s uid
             | Some h \<Rightarrow> Some (Node_root p, s\<lparr>al_heap := h\<rparr>)))"

definition ksu_get_root_profile ::
  "ksu_config \<Rightarrow> u32 \<Rightarrow> bool \<Rightarrow> (u32 \<Rightarrow> nat) \<Rightarrow> allow_state \<Rightarrow> u32 \<Rightarrow> (root_ref \<times> allow_state) option" where
  "ksu_get_root_profile cfg appid allow_shell hf s uid =
     (if cfg_disable_policy cfg then Some (Default_root, s)
      else if is_uid_manager cfg appid uid then Some (Default_root, s)
      else if allow_shell \<and> uid = SHELL_UID then Some (Default_root, s)
      else get_root_profile_retry hf s uid)"

definition ksu_put_root_profile :: "allow_state \<Rightarrow> root_ref \<Rightarrow> allow_state" where
  "ksu_put_root_profile s r = (case r of
     Default_root \<Rightarrow> s
   | Node_root p \<Rightarrow> s\<lparr>al_heap := put_perm_data (al_heap s) p\<rparr>)"

definition root_profile_at :: "allow_state \<Rightarrow> root_ref \<Rightarrow> root_profile option" where
  "root_profile_at s r = (case r of
     Default_root \<Rightarrow> Some (al_default_root s)
   | Node_root p \<Rightarrow> map_option (\<lambda>d. ap_profile (pd_profile d)) (al_heap s p))"

fun get_allow_list_loop ::
  "ksu_config \<Rightarrow> u32 \<Rightarrow> perm_heap \<Rightarrow> u16 \<Rightarrow> bool \<Rightarrow> nat list \<Rightarrow> u32 list \<times> u16 \<times> u16 \<Rightarrow>
   u32 list \<times> u16 \<times> u16" where
  "get_allow_list_loop cfg appid h len allow [] acc = acc"
| "get_allow_list_loop cfg appid h len allow (p # ps) (arr, j, i) =
     (case h p of
        None \<Rightarrow> get_allow_list_loop cfg appid h len allow ps (arr, j, i)
      | Some d \<Rightarrow>
          let a = pd_profile d in
          if ap_allow_su a = allow \<and> \<not> is_uid_manager cfg appid (ap_curr_uid a) then
            (if j < len
             then get_allow_list_loop cfg appid h len allow ps (arr @ [ap_curr_uid a], j + 1, i + 1)
             else get_allow_list_loop cfg appid h len allow ps (arr, j, i + 1))
          else get_allow_list_loop cfg appid h len allow ps (arr, j, i))"

text \<open>The array written, \<open>*out_length\<close> and \<open>*out_total\<close>.\<close>

definition ksu_get_allow_list ::
  "ksu_config \<Rightarrow> u32 \<Rightarrow> allow_state \<Rightarrow> u16 \<Rightarrow> bool \<Rightarrow> u32 list \<times> u16 \<times> u16" where
  "ksu_get_allow_list cfg appid s len allow =
     get_allow_list_loop cfg appid (al_heap s) len allow (al_nodes s) ([], 0, 0)"

section \<open>The allowlist file\<close>

abbreviation FILE_MAGIC :: u32 where "FILE_MAGIC \<equiv> 0x7f4b5355"
abbreviation FILE_FORMAT_VERSION :: u32 where "FILE_FORMAT_VERSION \<equiv> 4"

fun write_profiles :: "(nat \<Rightarrow> nat) \<Rightarrow> perm_heap \<Rightarrow> nat \<Rightarrow> nat list \<Rightarrow> bytes" where
  "write_profiles wr h k [] = []"
| "write_profiles wr h k (p # ps) = (case h p of
     None \<Rightarrow> write_profiles wr h k ps
   | Some d \<Rightarrow> take (wr k) (app_profile_bytes (pd_profile d)) @ write_profiles wr h (Suc k) ps)"

text \<open>The file left by \<open>do_persistent_allow_list\<close>, or \<open>None\<close> where it cannot be opened.\<close>

definition do_persistent_allow_list :: "bool \<Rightarrow> (nat \<Rightarrow> nat) \<Rightarrow> allow_state \<Rightarrow> bytes option" where
  "do_persistent_allow_list open_ok wr s =
     (if \<not> open_ok then None
      else if wr 0 \<noteq> 4 then Some (take (wr 0) (u32_bytes FILE_MAGIC))
      else if wr 1 \<noteq> 4 then Some (u32_bytes FILE_MAGIC @ take (wr 1) (u32_bytes FILE_FORMAT_VERSION))
      else Some (u32_bytes FILE_MAGIC @ u32_bytes FILE_FORMAT_VERSION @
                 write_profiles wr (al_heap s) 2 (al_nodes s)))"

function load_profiles ::
  "ksu_config \<Rightarrow> (u32 \<Rightarrow> nat) \<Rightarrow> kzalloc_fn \<Rightarrow> (nat \<Rightarrow> bytes) \<Rightarrow> u32 \<Rightarrow> bytes \<Rightarrow> allow_state \<Rightarrow> allow_state" where
  "load_profiles cfg hf kzalloc stack version rest s =
     (let size = (if version < KSU_APP_PROFILE_VER then kAppProfileSizePreV4 else app_profile_size) in
      if length (take size rest) \<noteq> size then s
      else
        let profile = app_profile_of (take size rest @ drop size (stack (length rest)));
            profile' = migrate_profile version profile
        in load_profiles cfg hf kzalloc stack version (drop size rest)
             (snd (ksu_set_app_profile cfg hf kzalloc s profile')))"
  by pat_completeness auto
termination
  by (relation "measure (\<lambda>(cfg, hf, kzalloc, stack, version, rest, s). length rest)")
     (auto split: if_splits)

declare load_profiles.simps [simp del]

text \<open>The new state and whether \<open>ksu_persistent_allow_list\<close> is called. \<open>stack\<close> is the content of
  the uninitialised local profile, of which the first \<open>size\<close> bytes are overwritten.\<close>

definition ksu_load_allow_list ::
  "ksu_config \<Rightarrow> (u32 \<Rightarrow> nat) \<Rightarrow> kzalloc_fn \<Rightarrow> (nat \<Rightarrow> bytes) \<Rightarrow> bytes option \<Rightarrow> allow_state \<Rightarrow>
   allow_state \<times> bool" where
  "ksu_load_allow_list cfg hf kzalloc stack file s =
     (if cfg_disable_policy cfg then (s, False)
      else
        (case file of
           None \<Rightarrow> (s, False)
         | Some f \<Rightarrow>
             if length (take 4 f) \<noteq> 4 \<or> bytes_u32 (take 4 f) \<noteq> FILE_MAGIC then (s, False)
             else if length (field 4 4 f) \<noteq> 4 then (s, False)
             else
               let version = bytes_u32 (field 4 4 f) in
               if version < 2 \<or> version > KSU_APP_PROFILE_VER then (s, False)
               else (load_profiles cfg hf kzalloc stack version (drop 8 f) s,
                     version < KSU_APP_PROFILE_VER)))"

section \<open>Pruning and exit\<close>

definition delete_node :: "allow_state \<Rightarrow> nat \<Rightarrow> allow_state" where
  "delete_node s p =
     s\<lparr>al_table := map (filter (\<lambda>q. q \<noteq> p)) (al_table s), al_heap := put_perm_data (al_heap s) p\<rparr>"

fun prune_loop :: "(u32 \<Rightarrow> bytes \<Rightarrow> bool) \<Rightarrow> nat list \<Rightarrow> allow_state \<times> bool \<Rightarrow> allow_state \<times> bool" where
  "prune_loop is_uid_valid [] acc = acc"
| "prune_loop is_uid_valid (p # ps) (s, modified) =
     (case al_heap s p of
        None \<Rightarrow> prune_loop is_uid_valid ps (s, modified)
      | Some d \<Rightarrow>
          let uid = ap_curr_uid (pd_profile d);
              package = ap_key (pd_profile d);
              is_preserved_uid = (uid = KSU_APP_PROFILE_PRESERVE_UID \<or> uid = WEBVIEW_ZYGOTE_UID)
          in if \<not> is_preserved_uid \<and> \<not> is_uid_valid uid package
             then prune_loop is_uid_valid ps
                    ((delete_node s p)\<lparr>al_count := al_count s - 1\<rparr>, True)
             else prune_loop is_uid_valid ps (s, modified))"

text \<open>The new state and whether \<open>ksu_persistent_allow_list\<close> is called.\<close>

definition ksu_prune_allowlist ::
  "bool \<Rightarrow> (u32 \<Rightarrow> bytes \<Rightarrow> bool) \<Rightarrow> allow_state \<Rightarrow> allow_state \<times> bool" where
  "ksu_prune_allowlist boot_completed is_uid_valid s =
     (if \<not> boot_completed then (s, False)
      else prune_loop is_uid_valid (al_nodes s) (s, False))"

definition ksu_allowlist_exit :: "allow_state \<Rightarrow> allow_state" where
  "ksu_allowlist_exit s = fold (\<lambda>p s. delete_node s p) (al_nodes s) s"

section \<open>Abstraction and invariant\<close>

definition al_abs :: "(u32 \<Rightarrow> nat) \<Rightarrow> allow_state \<Rightarrow> u32 \<Rightarrow> app_profile option" where
  "al_abs hf s uid = (case find_possible hf s uid (\<lambda>a. uid = ap_curr_uid a) of
     None \<Rightarrow> None
   | Some p \<Rightarrow> map_option pd_profile (al_heap s p))"

definition node_ok :: "ksu_config \<Rightarrow> (u32 \<Rightarrow> nat) \<Rightarrow> perm_heap \<Rightarrow> nat \<Rightarrow> nat \<Rightarrow> bool" where
  "node_ok cfg hf h b p = (case h p of
     None \<Rightarrow> False
   | Some d \<Rightarrow> 0 < pd_ref d \<and> hf (ap_curr_uid (pd_profile d)) = b \<and>
       profile_valid cfg (Some (pd_profile d)) \<and> app_profile_wf (pd_profile d) \<and>
       (ap_curr_uid (pd_profile d) = KSU_APP_PROFILE_PRESERVE_UID \<longrightarrow>
          strcmp0 (ap_key (pd_profile d)) (chars ''$'')))"

definition node_uid :: "perm_heap \<Rightarrow> nat \<Rightarrow> u32 option" where
  "node_uid h p = map_option (\<lambda>d. ap_curr_uid (pd_profile d)) (h p)"

definition allow_inv :: "ksu_config \<Rightarrow> (u32 \<Rightarrow> nat) \<Rightarrow> allow_state \<Rightarrow> bool" where
  "allow_inv cfg hf s \<longleftrightarrow>
     length (al_table s) = ALLOW_LIST_SIZE \<and>
     (\<forall>b<ALLOW_LIST_SIZE. \<forall>p\<in>set (al_table s ! b). node_ok cfg hf (al_heap s) b p) \<and>
     distinct (map (node_uid (al_heap s)) (al_nodes s)) \<and>
     unat (al_count s) = length (al_nodes s)"

text \<open>A profile that may be stored, as \<open>node_ok\<close> wants it of a node.\<close>

definition storable :: "ksu_config \<Rightarrow> app_profile \<Rightarrow> bool" where
  "storable cfg p \<longleftrightarrow> profile_valid cfg (Some p) \<and> app_profile_wf p \<and>
     (ap_curr_uid p = KSU_APP_PROFILE_PRESERVE_UID \<longrightarrow> strcmp0 (ap_key p) (chars ''$''))"

text \<open>What the allowlist relies on from the kernel: a bucket index in range, and fresh memory
  from the allocator.\<close>

definition kernel_ok :: "(u32 \<Rightarrow> nat) \<Rightarrow> kzalloc_fn \<Rightarrow> bool" where
  "kernel_ok hf kzalloc \<longleftrightarrow> (\<forall>u. hf u < ALLOW_LIST_SIZE) \<and>
     (\<forall>h p. kzalloc h = Some p \<longrightarrow> h p = None)"

section \<open>Lemmas: nodes and buckets\<close>

lemma kernel_ok_hash: "kernel_ok hf kz \<Longrightarrow> hf u < ALLOW_LIST_SIZE"
  by (simp add: kernel_ok_def)

lemma kernel_ok_fresh: "kernel_ok hf kz \<Longrightarrow> kz h = Some p \<Longrightarrow> h p = None"
  by (simp add: kernel_ok_def)

lemma node_is_iff: "node_is h P p \<longleftrightarrow> (\<exists>d. h p = Some d \<and> P (pd_profile d))"
  by (auto simp: node_is_def split: option.splits)

lemma node_okE:
  assumes "node_ok cfg hf h b p"
  obtains d where "h p = Some d" "0 < pd_ref d" "hf (ap_curr_uid (pd_profile d)) = b"
    "profile_valid cfg (Some (pd_profile d))" "app_profile_wf (pd_profile d)"
    "ap_curr_uid (pd_profile d) = KSU_APP_PROFILE_PRESERVE_UID \<Longrightarrow>
       strcmp0 (ap_key (pd_profile d)) (chars ''$'')"
  using assms by (auto simp: node_ok_def split: option.splits)

lemma nodes_split:
  assumes "b < length (al_table s)"
  obtains A C where "al_nodes s = A @ al_table s ! b @ C"
    "\<And>xs. concat ((al_table s)[b := xs]) = A @ xs @ C"
proof
  show "al_nodes s = concat (take b (al_table s)) @ al_table s ! b @ concat (drop (Suc b) (al_table s))"
    unfolding al_nodes_def
    by (subst id_take_nth_drop [OF assms]) simp
  show "concat ((al_table s)[b := xs]) =
      concat (take b (al_table s)) @ xs @ concat (drop (Suc b) (al_table s))" for xs
    by (simp add: upd_conv_take_nth_drop [OF assms])
qed

lemma in_nodes_iff:
  "p \<in> set (al_nodes s) \<longleftrightarrow> (\<exists>b<length (al_table s). p \<in> set (al_table s ! b))"
  unfolding al_nodes_def by (auto simp: set_concat in_set_conv_nth) (metis nth_mem)+

lemma inv_node:
  assumes "allow_inv cfg hf s" "p \<in> set (al_nodes s)"
  obtains b where "b < ALLOW_LIST_SIZE" "p \<in> set (al_table s ! b)" "node_ok cfg hf (al_heap s) b p"
  using assms by (auto simp: allow_inv_def in_nodes_iff)

lemma inv_distinct: "allow_inv cfg hf s \<Longrightarrow> distinct (al_nodes s)"
  by (simp add: allow_inv_def distinct_map)

lemma inv_same_uid:
  assumes "allow_inv cfg hf s" "p \<in> set (al_nodes s)" "q \<in> set (al_nodes s)"
    "node_uid (al_heap s) p = node_uid (al_heap s) q"
  shows "p = q"
  using assms by (auto simp: allow_inv_def distinct_map inj_on_def)

lemma inv_node_bucket:
  assumes "allow_inv cfg hf s" "p \<in> set (al_nodes s)" "node_uid (al_heap s) p = Some uid"
  shows "hf uid < ALLOW_LIST_SIZE" and "p \<in> set (al_table s ! hf uid)"
proof -
  obtain b where b: "b < ALLOW_LIST_SIZE" "p \<in> set (al_table s ! b)"
    "node_ok cfg hf (al_heap s) b p" using assms(1,2) by (rule inv_node)
  moreover from b(3) assms(3) have "hf uid = b"
    by (auto simp: node_uid_def elim: node_okE)
  ultimately show "hf uid < ALLOW_LIST_SIZE" "p \<in> set (al_table s ! hf uid)" by auto
qed

text \<open>The bucket search finds exactly the node of the uid.\<close>

lemma find_possible_iff:
  assumes inv: "allow_inv cfg hf s" and hf: "hf uid < ALLOW_LIST_SIZE"
  shows "find_possible hf s uid (\<lambda>a. uid = ap_curr_uid a \<and> Q a) = Some p \<longleftrightarrow>
    p \<in> set (al_nodes s) \<and>
    (\<exists>d. al_heap s p = Some d \<and> ap_curr_uid (pd_profile d) = uid \<and> Q (pd_profile d))"
    (is "?l \<longleftrightarrow> ?r")
proof
  let ?P = "node_is (al_heap s) (\<lambda>a. uid = ap_curr_uid a \<and> Q a)"
  have mem: "q \<in> set (al_table s ! hf uid) \<Longrightarrow> q \<in> set (al_nodes s)" for q
    using inv hf by (auto simp: in_nodes_iff allow_inv_def)
  show "?l \<Longrightarrow> ?r"
    by (auto simp: find_possible_def node_is_iff dest!: find_SomeD intro: mem)
  assume r: ?r
  then have "node_uid (al_heap s) p = Some uid" by (auto simp: node_uid_def)
  with inv r have pb: "p \<in> set (al_table s ! hf uid)" by (blast intro: inv_node_bucket)
  have "\<exists>q. find ?P (al_table s ! hf uid) = Some q"
    using r pb by (auto simp: node_is_iff find_None_all simp flip: not_None_eq)
  then obtain q where q: "find ?P (al_table s ! hf uid) = Some q" by blast
  then have "q \<in> set (al_nodes s)" "node_uid (al_heap s) q = Some uid"
    by (auto simp: node_is_iff node_uid_def dest!: find_SomeD intro: mem)
  with inv r have "q = p" by (auto simp: node_uid_def intro: inv_same_uid)
  with q show ?l by (simp add: find_possible_def)
qed

lemmas find_uid_iff = find_possible_iff [where Q = "\<lambda>_. True", simplified]

lemma find_possible_None_iff:
  assumes inv: "allow_inv cfg hf s" and hf: "hf uid < ALLOW_LIST_SIZE"
  shows "find_possible hf s uid (\<lambda>a. uid = ap_curr_uid a \<and> Q a) = None \<longleftrightarrow>
    (\<forall>p\<in>set (al_nodes s). \<forall>d. al_heap s p = Some d \<longrightarrow>
       ap_curr_uid (pd_profile d) = uid \<longrightarrow> \<not> Q (pd_profile d))"
  by (subst None_iff_all) (auto simp: find_possible_iff [OF assms])

lemmas find_uid_None_iff = find_possible_None_iff [where Q = "\<lambda>_. True", simplified]

lemma al_abs_iff:
  assumes inv: "allow_inv cfg hf s" and hf: "hf uid < ALLOW_LIST_SIZE"
  shows "al_abs hf s uid = Some a \<longleftrightarrow>
    (\<exists>p\<in>set (al_nodes s). \<exists>d. al_heap s p = Some d \<and> pd_profile d = a \<and> ap_curr_uid a = uid)"
proof (cases "find_possible hf s uid (\<lambda>a. uid = ap_curr_uid a)")
  case None
  then show ?thesis using find_uid_None_iff [OF assms] by (auto simp: al_abs_def)
next
  case (Some p)
  then obtain d where d: "p \<in> set (al_nodes s)" "al_heap s p = Some d"
    "ap_curr_uid (pd_profile d) = uid"
    using find_uid_iff [OF assms] by auto
  show ?thesis
  proof
    assume "al_abs hf s uid = Some a"
    with Some d show "\<exists>p\<in>set (al_nodes s). \<exists>d. al_heap s p = Some d \<and> pd_profile d = a \<and>
      ap_curr_uid a = uid"
      by (auto simp: al_abs_def)
  next
    assume "\<exists>p\<in>set (al_nodes s). \<exists>d. al_heap s p = Some d \<and> pd_profile d = a \<and> ap_curr_uid a = uid"
    then obtain q e where q: "q \<in> set (al_nodes s)" "al_heap s q = Some e" "pd_profile e = a"
      "ap_curr_uid a = uid" by blast
    with d inv have "q = p" by (auto simp: node_uid_def intro: inv_same_uid)
    with q d Some show "al_abs hf s uid = Some a" by (simp add: al_abs_def)
  qed
qed

lemma al_abs_None_iff:
  assumes "allow_inv cfg hf s" "hf uid < ALLOW_LIST_SIZE"
  shows "al_abs hf s uid = None \<longleftrightarrow>
    (\<forall>p\<in>set (al_nodes s). \<forall>d. al_heap s p = Some d \<longrightarrow> ap_curr_uid (pd_profile d) \<noteq> uid)"
  by (subst None_iff_all) (auto simp: al_abs_iff [OF assms])

section \<open>Lemmas: setting a profile\<close>

lemma normalise_uid [simp]: "ap_curr_uid (policy_normalise cfg p) = ap_curr_uid p"
  by (simp add: policy_normalise_def)

lemma normalise_key [simp]: "ap_key (policy_normalise cfg p) = ap_key p"
  by (simp add: policy_normalise_def)

lemma normalise_allow [simp]: "ap_allow_su (policy_normalise cfg p) = ap_allow_su p"
  by (simp add: policy_normalise_def)

lemma normalise_id [simp]: "\<not> cfg_disable_policy cfg \<Longrightarrow> policy_normalise cfg p = p"
  by (simp add: policy_normalise_def)

lemma normalise_valid:
  "profile_valid cfg (Some p) \<Longrightarrow> profile_valid cfg (Some (policy_normalise cfg p))"
  by (auto simp: profile_valid_def policy_normalise_def split: if_splits)

lemma normalise_wf: "app_profile_wf p \<Longrightarrow> app_profile_wf (policy_normalise cfg p)"
  by (simp add: app_profile_wf_def root_profile_wf_def policy_normalise_def zero_root_profile_def)

lemma put_perm_data_other: "q \<noteq> p \<Longrightarrow> put_perm_data h p q = h q"
  by (auto simp: put_perm_data_def split: option.splits)

lemma set_default_umount_simps [simp]:
  "al_heap (set_default_umount p s) = al_heap s"
  "al_table (set_default_umount p s) = al_table s"
  "al_count (set_default_umount p s) = al_count s"
  "al_default_root (set_default_umount p s) = al_default_root s"
  by (auto simp: set_default_umount_def)

lemma al_nodes_cong: "al_table s = al_table t \<Longrightarrow> al_nodes s = al_nodes t"
  by (simp add: al_nodes_def)

lemma allow_inv_cong:
  "al_table s = al_table t \<Longrightarrow> al_heap s = al_heap t \<Longrightarrow> al_count s = al_count t \<Longrightarrow>
   allow_inv cfg hf s = allow_inv cfg hf t"
  by (simp add: allow_inv_def al_nodes_def)

lemma al_abs_cong:
  "al_table s = al_table t \<Longrightarrow> al_heap s = al_heap t \<Longrightarrow> al_abs hf s = al_abs hf t"
  by (rule ext) (simp add: al_abs_def find_possible_def split: option.split)

lemma set_default_umount_inv [simp]:
  "allow_inv cfg hf (set_default_umount p s) = allow_inv cfg hf s"
  by (rule allow_inv_cong) simp_all

lemma set_default_umount_abs [simp]: "al_abs hf (set_default_umount p s) = al_abs hf s"
  by (rule al_abs_cong) simp_all

lemma node_ok_new:
  "storable cfg p \<Longrightarrow> hf (ap_curr_uid p) = b \<Longrightarrow>
   node_ok cfg hf (h(np \<mapsto> \<lparr>pd_ref = 1, pd_profile = p\<rparr>)) b np"
  by (simp add: node_ok_def storable_def)

lemma node_ok_heap_cong: "h q = h' q \<Longrightarrow> node_ok cfg hf h b q = node_ok cfg hf h' b q"
  by (simp add: node_ok_def)

lemma node_uid_heap_cong: "h q = h' q \<Longrightarrow> node_uid h q = node_uid h' q"
  by (simp add: node_uid_def)

lemma fresh_not_node: "allow_inv cfg hf s \<Longrightarrow> al_heap s np = None \<Longrightarrow> np \<notin> set (al_nodes s)"
  by (metis inv_node node_okE option.distinct(1))

lemma add_node_nodes:
  assumes "hf (ap_curr_uid p) < length (al_table s)"
  obtains A C where "al_nodes s = A @ C" "al_nodes (add_node hf s p np) = A @ np # C"
proof -
  let ?b = "hf (ap_curr_uid p)"
  obtain A C where "al_nodes s = A @ al_table s ! ?b @ C"
    "\<And>xs. concat ((al_table s)[?b := xs]) = A @ xs @ C"
    using nodes_split [OF assms] by blast
  then have "al_nodes s = A @ (al_table s ! ?b @ C)"
    "al_nodes (add_node hf s p np) = A @ np # (al_table s ! ?b @ C)"
    by (simp_all add: add_node_def Let_def al_nodes_def)
  then show ?thesis by (rule that)
qed

lemma add_node_inv:
  assumes inv: "allow_inv cfg hf s" and hf: "hf (ap_curr_uid p) < ALLOW_LIST_SIZE"
    and fresh: "al_heap s np = None" and st: "storable cfg p"
    and new: "\<forall>q\<in>set (al_nodes s). node_uid (al_heap s) q \<noteq> Some (ap_curr_uid p)"
    and room: "al_count s \<noteq> U16_MAX"
  shows "allow_inv cfg hf (add_node hf s p np)"
proof -
  let ?b = "hf (ap_curr_uid p)" and ?s = "add_node hf s p np"
  let ?h = "(al_heap s)(np \<mapsto> \<lparr>pd_ref = 1, pd_profile = p\<rparr>)"
  have len: "length (al_table s) = ALLOW_LIST_SIZE" using inv by (simp add: allow_inv_def)
  obtain A C where n: "al_nodes s = A @ C" "al_nodes ?s = A @ np # C"
    using add_node_nodes hf len by metis
  have np: "np \<notin> set (A @ C)" using fresh_not_node [OF inv fresh] n by simp
  have heap: "al_heap ?s = ?h" and tab: "al_table ?s = (al_table s)[?b := np # al_table s ! ?b]"
    by (simp_all add: add_node_def Let_def)
  have uids: "map (node_uid ?h) (A @ C) = map (node_uid (al_heap s)) (A @ C)"
    using np by (auto simp: node_uid_def)
  have ok: "node_ok cfg hf ?h b q" if "b < ALLOW_LIST_SIZE" "q \<in> set (al_table ?s ! b)" for b q
  proof (cases "q = np")
    case True
    have "np \<notin> set (al_table s ! b)" 
      using fresh_not_node [OF inv fresh] that(1) len by (auto simp: in_nodes_iff)
    with True that tab have "b = ?b" by (cases "b = ?b") auto
    with True st show ?thesis by (simp only: node_ok_new)
  next
    case False
    with that tab len have "q \<in> set (al_table s ! b)" by (cases "b = ?b") auto
    with inv that(1) have "node_ok cfg hf (al_heap s) b q" by (simp add: allow_inv_def)
    with False show ?thesis by (subst node_ok_heap_cong [of _ _ "al_heap s"]) simp_all
  qed
  have dist: "distinct (map (node_uid ?h) (al_nodes ?s))"
  proof -
    have "distinct (map (node_uid (al_heap s)) (A @ C))"
      using inv n by (simp only: allow_inv_def)
    then have "distinct (map (node_uid ?h) (A @ C))" by (simp only: uids)
    moreover have "node_uid ?h np \<notin> set (map (node_uid ?h) (A @ C))"
    proof -
      have "node_uid ?h np = Some (ap_curr_uid p)" by (simp add: node_uid_def)
      moreover have "Some (ap_curr_uid p) \<notin> set (map (node_uid (al_heap s)) (A @ C))"
        using new n by (auto simp del: map_append)
      ultimately show ?thesis by (simp only: uids not_False_eq_True)
    qed
    ultimately show ?thesis unfolding n by simp
  qed
  have "unat (al_count s + 1) = Suc (unat (al_count s))"
    using room by (rule unat_u16_inc)
  then have "unat (al_count ?s) = length (al_nodes ?s)"
    using inv n by (simp add: allow_inv_def add_node_def Let_def)
  with ok dist len heap tab show ?thesis unfolding allow_inv_def by simp
qed

lemma replace_node_nodes:
  assumes inv: "allow_inv cfg hf s" and old: "old \<in> set (al_table s ! hf (ap_curr_uid p))"
    and hf: "hf (ap_curr_uid p) < ALLOW_LIST_SIZE"
  shows "al_nodes (replace_node hf s p old np) = map (\<lambda>q. if q = old then np else q) (al_nodes s)"
proof -
  let ?b = "hf (ap_curr_uid p)" and ?f = "\<lambda>q. if q = old then np else q"
  have "?b < length (al_table s)" using inv hf by (simp add: allow_inv_def)
  then obtain A C where n: "al_nodes s = A @ al_table s ! ?b @ C"
    "\<And>xs. concat ((al_table s)[?b := xs]) = A @ xs @ C"
    using nodes_split by blast
  have "old \<notin> set A" "old \<notin> set C" using inv_distinct [OF inv] old n(1) by auto
  then have "map ?f A = A" "map ?f C = C" by (auto intro: map_idI)
  then show ?thesis by (simp add: n replace_node_def Let_def al_nodes_def [of "_ \<lparr>al_table := _, al_heap := _\<rparr>"])
qed

lemma replace_node_heap:
  "al_heap s np = None \<Longrightarrow> al_heap s old = Some d \<Longrightarrow> q \<noteq> old \<Longrightarrow>
   al_heap (replace_node hf s p old np) q =
     (if q = np then Some \<lparr>pd_ref = 1, pd_profile = p\<rparr> else al_heap s q)"
  by (auto simp: replace_node_def Let_def put_perm_data_other)

lemma replace_node_inv:
  assumes inv: "allow_inv cfg hf s" and hf: "hf (ap_curr_uid p) < ALLOW_LIST_SIZE"
    and fresh: "al_heap s np = None" and st: "storable cfg p"
    and old: "old \<in> set (al_nodes s)" "al_heap s old = Some d"
      "ap_curr_uid (pd_profile d) = ap_curr_uid p"
  shows "allow_inv cfg hf (replace_node hf s p old np)"
proof -
  let ?b = "hf (ap_curr_uid p)" and ?s = "replace_node hf s p old np"
  let ?f = "\<lambda>q. if q = old then np else q"
  have len: "length (al_table s) = ALLOW_LIST_SIZE" using inv by (simp add: allow_inv_def)
  have ob: "old \<in> set (al_table s ! ?b)"
    using inv old by (auto simp: node_uid_def intro: inv_node_bucket)
  note n = replace_node_nodes [OF inv ob hf]
  have np: "np \<notin> set (al_nodes s)" using inv fresh by (rule fresh_not_node)
  have neq: "np \<noteq> old" using fresh old by auto
  note heap = replace_node_heap [where hf = hf and p = p, OF fresh old(2)]
  have tab: "al_table ?s = (al_table s)[?b := map ?f (al_table s ! ?b)]"
    by (simp add: replace_node_def Let_def)
  have uids: "map (node_uid (al_heap ?s)) (al_nodes ?s) = map (node_uid (al_heap s)) (al_nodes s)"
    using np neq old by (auto simp: n node_uid_def heap)
  have ok: "node_ok cfg hf (al_heap ?s) b q" if "b < ALLOW_LIST_SIZE" "q \<in> set (al_table ?s ! b)" for b q
  proof (cases "q = np")
    case True
    have "np \<notin> set (al_table s ! b)" using np that(1) len by (auto simp: in_nodes_iff)
    with True that tab have "b = ?b" by (cases "b = ?b") auto
    with True st heap [of np] neq show ?thesis by (simp add: node_ok_def storable_def)
  next
    case False
    with that tab len have "q \<in> set (al_table s ! b)" by (cases "b = ?b") (auto split: if_splits)
    with inv that(1) have ok: "node_ok cfg hf (al_heap s) b q" by (simp add: allow_inv_def)
    have "q \<noteq> old"
    proof
      assume "q = old"
      with ok old have "b = ?b" by (auto elim: node_okE)
      with \<open>q = old\<close> that tab len neq show False by auto
    qed
    with ok False show ?thesis by (subst node_ok_heap_cong [of _ _ "al_heap s"]) (simp_all add: heap)
  qed
  have "length (al_table ?s) = ALLOW_LIST_SIZE" "unat (al_count ?s) = length (al_nodes ?s)"
    using inv n by (auto simp: allow_inv_def tab replace_node_def Let_def)
  with ok uids inv show ?thesis unfolding allow_inv_def by simp
qed

text \<open>The profiles of the table in iteration order.\<close>

definition al_profs :: "allow_state \<Rightarrow> app_profile option list" where
  "al_profs s = map (\<lambda>q. map_option pd_profile (al_heap s q)) (al_nodes s)"

lemma al_abs_profs:
  assumes "allow_inv cfg hf s" "hf u < ALLOW_LIST_SIZE"
  shows "al_abs hf s u = Some a \<longleftrightarrow> Some a \<in> set (al_profs s) \<and> ap_curr_uid a = u"
  unfolding al_abs_iff [OF assms] by (auto simp: al_profs_def image_iff)

lemma add_node_abs:
  assumes inv: "allow_inv cfg hf s" and hf: "\<And>u. hf u < ALLOW_LIST_SIZE"
    and fresh: "al_heap s np = None" and st: "storable cfg p"
    and new: "al_abs hf s (ap_curr_uid p) = None"
    and inv': "allow_inv cfg hf (add_node hf s p np)"
  shows "al_abs hf (add_node hf s p np) = (al_abs hf s)(ap_curr_uid p \<mapsto> p)"
proof
  fix u
  let ?s = "add_node hf s p np"
  have "hf (ap_curr_uid p) < length (al_table s)" using inv hf by (simp add: allow_inv_def)
  then obtain A C where n: "al_nodes s = A @ C" "al_nodes ?s = A @ np # C"
    using add_node_nodes by metis
  have np: "np \<notin> set (A @ C)" using fresh_not_node [OF inv fresh] n by simp
  have "set (al_profs ?s) = insert (Some p) (set (al_profs s))"
    unfolding al_profs_def n using np by (auto simp: add_node_def Let_def)
  then have "al_abs hf ?s u = Some a \<longleftrightarrow> ((al_abs hf s)(ap_curr_uid p \<mapsto> p)) u = Some a" for a
    using new by (auto simp: al_abs_profs [OF inv' hf] al_abs_profs [OF inv hf] None_iff_all)
  then show "al_abs hf ?s u = ((al_abs hf s)(ap_curr_uid p \<mapsto> p)) u"
    by (rule option_eqI)
qed

lemma replace_node_abs:
  assumes inv: "allow_inv cfg hf s" and hf: "\<And>u. hf u < ALLOW_LIST_SIZE"
    and fresh: "al_heap s np = None" and st: "storable cfg p"
    and old: "old \<in> set (al_nodes s)" "al_heap s old = Some d"
      "ap_curr_uid (pd_profile d) = ap_curr_uid p"
  shows "al_abs hf (replace_node hf s p old np) = (al_abs hf s)(ap_curr_uid p \<mapsto> p)"
proof
  fix u
  let ?s = "replace_node hf s p old np"
  let ?f = "\<lambda>q. if q = old then np else q"
  note inv' = replace_node_inv [OF inv hf fresh st old]
  have ob: "old \<in> set (al_table s ! hf (ap_curr_uid p))"
    using inv old by (auto simp: node_uid_def intro: inv_node_bucket)
  have np: "np \<notin> set (al_nodes s)" using inv fresh by (rule fresh_not_node)
  have neq: "np \<noteq> old" using fresh old by auto
  note heap = replace_node_heap [where hf = hf and p = p, OF fresh old(2)]
  have "al_profs ?s = map (\<lambda>q. if q = old then Some p else map_option pd_profile (al_heap s q)) (al_nodes s)"
    using np neq by (auto simp: al_profs_def replace_node_nodes [OF inv ob hf] heap)
  moreover have "q = old \<longleftrightarrow> ap_curr_uid (pd_profile e) = ap_curr_uid p"
    if "q \<in> set (al_nodes s)" "al_heap s q = Some e" for q e
    using inv_same_uid [OF inv that(1) old(1)] that old by (auto simp: node_uid_def)
  ultimately have "al_abs hf ?s u = Some a \<longleftrightarrow> ((al_abs hf s)(ap_curr_uid p \<mapsto> p)) u = Some a" for a
    using old(1)
    by (auto simp: al_abs_profs [OF inv' hf] al_abs_iff [OF inv hf] image_iff split: if_splits)
  then show "al_abs hf ?s u = ((al_abs hf s)(ap_curr_uid p \<mapsto> p)) u"
    by (rule option_eqI)
qed

text \<open>What \<open>ksu_set_app_profile\<close> does, branch by branch, over the abstract map.\<close>

definition set_code :: "ksu_config \<Rightarrow> (u32 \<Rightarrow> nat) \<Rightarrow> kzalloc_fn \<Rightarrow> allow_state \<Rightarrow> app_profile \<Rightarrow> int" where
  "set_code cfg hf kz s p =
     (if \<not> profile_valid cfg (Some p) \<or>
         ap_curr_uid p = KSU_APP_PROFILE_PRESERVE_UID \<and> \<not> strcmp0 (ap_key p) (chars ''$'')
      then - EINVAL
      else if al_abs hf s (ap_curr_uid p) = None \<and> al_count s = U16_MAX then - E2BIG
      else if kz (al_heap s) = None then - ENOMEM else 0)"

lemma find_abs_None:
  "allow_inv cfg hf s \<Longrightarrow> hf u < ALLOW_LIST_SIZE \<Longrightarrow>
   find_possible hf s u (\<lambda>a. u = ap_curr_uid a) = None \<longleftrightarrow> al_abs hf s u = None"
  using find_uid_None_iff al_abs_None_iff by metis

lemma set_fst:
  assumes "allow_inv cfg hf s" "\<And>u. hf u < ALLOW_LIST_SIZE"
  shows "fst (ksu_set_app_profile cfg hf kz s p) = set_code cfg hf kz s p"
  using find_abs_None [OF assms, of "ap_curr_uid p"]
  by (auto simp: ksu_set_app_profile_def set_code_def Let_def split: option.split)

lemma set_fail: "fst (ksu_set_app_profile cfg hf kz s p) \<noteq> 0 \<Longrightarrow> snd (ksu_set_app_profile cfg hf kz s p) = s"
  by (auto simp: ksu_set_app_profile_def Let_def split: option.splits if_splits)

lemma set_storable:
  "fst (ksu_set_app_profile cfg hf kz s p) = 0 \<Longrightarrow> app_profile_wf p \<Longrightarrow>
   storable cfg (policy_normalise cfg p)"
  by (auto simp: ksu_set_app_profile_def storable_def normalise_valid normalise_wf Let_def
      split: option.splits if_splits)

lemma set_inv_abs:
  assumes k: "kernel_ok hf kz" and inv: "allow_inv cfg hf s" and wf: "app_profile_wf p"
    and ok: "fst (ksu_set_app_profile cfg hf kz s p) = 0"
  shows "allow_inv cfg hf (snd (ksu_set_app_profile cfg hf kz s p)) \<and>
    al_abs hf (snd (ksu_set_app_profile cfg hf kz s p)) =
      (al_abs hf s)(ap_curr_uid p \<mapsto> policy_normalise cfg p)"
proof -
  let ?p = "policy_normalise cfg p"
  have hf: "\<And>u. hf u < ALLOW_LIST_SIZE" using k by (rule kernel_ok_hash)
  note st = set_storable [OF ok wf]
  show ?thesis
  proof (cases "find_possible hf s (ap_curr_uid p) (\<lambda>a. ap_curr_uid p = ap_curr_uid a)")
    case (Some old)
    then obtain d where d: "old \<in> set (al_nodes s)" "al_heap s old = Some d"
      "ap_curr_uid (pd_profile d) = ap_curr_uid ?p"
      using find_uid_iff [OF inv hf] by auto
    from ok Some obtain np where np: "kz (al_heap s) = Some np"
      "snd (ksu_set_app_profile cfg hf kz s p) = set_default_umount ?p (replace_node hf s ?p old np)"
      by (auto simp: ksu_set_app_profile_def Let_def split: option.splits if_splits)
    note fresh = kernel_ok_fresh [OF k np(1)]
    show ?thesis
      using replace_node_inv [OF inv hf fresh st d] replace_node_abs [OF inv hf fresh st d]
      by (simp add: np)
  next
    case None
    from ok None obtain np where np: "kz (al_heap s) = Some np" "al_count s \<noteq> U16_MAX"
      "snd (ksu_set_app_profile cfg hf kz s p) = set_default_umount ?p (add_node hf s ?p np)"
      by (auto simp: ksu_set_app_profile_def Let_def split: option.splits if_splits)
    note fresh = kernel_ok_fresh [OF k np(1)]
    have none: "al_abs hf s (ap_curr_uid ?p) = None" using None find_abs_None [OF inv hf] by simp
    then have "\<forall>q\<in>set (al_nodes s). node_uid (al_heap s) q \<noteq> Some (ap_curr_uid ?p)"
      using al_abs_None_iff [OF inv hf] by (auto simp: node_uid_def)
    note inv' = add_node_inv [OF inv hf fresh st this np(2)]
    show ?thesis using inv' add_node_abs [OF inv hf fresh st none inv'] by (simp add: np)
  qed
qed

section \<open>Lemmas: readers\<close>

text \<open>Under the invariant a node of the table has a positive count, so no reader retries.\<close>

lemma node_get:
  assumes "allow_inv cfg hf s" "p \<in> set (al_nodes s)"
  obtains d where "al_heap s p = Some d" "0 < pd_ref d"
    "kref_get_unless_zero (al_heap s) p = Some ((al_heap s)(p \<mapsto> d\<lparr>pd_ref := Suc (pd_ref d)\<rparr>))"
proof -
  obtain b where "node_ok cfg hf (al_heap s) b p" using assms by (rule inv_node)
  then obtain d where "al_heap s p = Some d" "0 < pd_ref d" by (rule node_okE)
  then show ?thesis using that by (simp add: kref_get_unless_zero_def)
qed

lemma put_get_id:
  assumes "h p = Some d" "0 < pd_ref d"
  shows "put_perm_data (h(p \<mapsto> d\<lparr>pd_ref := Suc (pd_ref d)\<rparr>)) p = h"
  using assms by (auto simp: put_perm_data_def)

lemma get_profile_None:
  "find_possible hf s uid (\<lambda>a. uid = ap_curr_uid a) = None \<Longrightarrow> ksu_get_app_profile hf s uid = Some (None, s)"
  by (subst ksu_get_app_profile.simps) simp

lemma get_profile_Some:
  assumes "find_possible hf s uid (\<lambda>a. uid = ap_curr_uid a) = Some p"
    "kref_get_unless_zero (al_heap s) p = Some h"
  shows "ksu_get_app_profile hf s uid = Some (Some p, s\<lparr>al_heap := h\<rparr>)"
  using assms by (subst ksu_get_app_profile.simps) simp

lemma get_app_profile_cases:
  assumes inv: "allow_inv cfg hf s" and hf: "hf uid < ALLOW_LIST_SIZE"
  obtains (none) "al_abs hf s uid = None" "ksu_get_app_profile hf s uid = Some (None, s)"
  | (some) p d where "al_abs hf s uid = Some (pd_profile d)" "al_heap s p = Some d" "0 < pd_ref d"
      "ksu_get_app_profile hf s uid =
        Some (Some p, s\<lparr>al_heap := (al_heap s)(p \<mapsto> d\<lparr>pd_ref := Suc (pd_ref d)\<rparr>)\<rparr>)"
proof (cases "find_possible hf s uid (\<lambda>a. uid = ap_curr_uid a)")
  case None
  then show ?thesis using none by (simp add: get_profile_None al_abs_def)
next
  case (Some p)
  then have "p \<in> set (al_nodes s)" using find_uid_iff [OF inv hf] by auto
  with inv obtain d where d: "al_heap s p = Some d" "0 < pd_ref d"
    "kref_get_unless_zero (al_heap s) p = Some ((al_heap s)(p \<mapsto> d\<lparr>pd_ref := Suc (pd_ref d)\<rparr>))"
    by (rule node_get)
  with Some show ?thesis
    using some [of d p] by (simp add: get_profile_Some al_abs_def)
qed

lemma find_allowed_iff:
  assumes "allow_inv cfg hf s" "hf uid < ALLOW_LIST_SIZE"
  shows "find_possible hf s uid (\<lambda>a. uid = ap_curr_uid a \<and> ap_allow_su a) \<noteq> None \<longleftrightarrow>
    (\<exists>a. al_abs hf s uid = Some a \<and> ap_allow_su a)"
  unfolding find_possible_None_iff [OF assms] al_abs_iff [OF assms] by blast

section \<open>Lemmas: pruning\<close>

text \<open>The profiles pruning drops.\<close>

definition prunable :: "(u32 \<Rightarrow> bytes \<Rightarrow> bool) \<Rightarrow> app_profile \<Rightarrow> bool" where
  "prunable valid a \<longleftrightarrow> ap_curr_uid a \<noteq> KSU_APP_PROFILE_PRESERVE_UID \<and>
     ap_curr_uid a \<noteq> WEBVIEW_ZYGOTE_UID \<and> \<not> valid (ap_curr_uid a) (ap_key a)"

lemma delete_node_nodes: "al_nodes (delete_node s p) = filter (\<lambda>q. q \<noteq> p) (al_nodes s)"
  by (simp add: al_nodes_def delete_node_def filter_concat)

lemma delete_node_heap: "q \<noteq> p \<Longrightarrow> al_heap (delete_node s p) q = al_heap s q"
  by (simp add: delete_node_def put_perm_data_other)

lemma delete_node_inv:
  assumes inv: "allow_inv cfg hf s" and p: "p \<in> set (al_nodes s)"
  shows "allow_inv cfg hf ((delete_node s p)\<lparr>al_count := al_count s - 1\<rparr>)"
proof -
  let ?s = "delete_node s p" and ?n = "filter (\<lambda>q. q \<noteq> p) (al_nodes s)"
  have len: "length (al_table s) = ALLOW_LIST_SIZE" using inv by (simp add: allow_inv_def)
  have "node_ok cfg hf (al_heap ?s) b q" if "b < ALLOW_LIST_SIZE" "q \<in> set (al_table ?s ! b)" for b q
  proof -
    have "q \<noteq> p" "q \<in> set (al_table s ! b)" using that len by (auto simp: delete_node_def)
    then show ?thesis
      using inv that(1) node_ok_heap_cong [of "al_heap ?s" q "al_heap s"]
      by (simp add: allow_inv_def delete_node_heap)
  qed
  moreover have "distinct (map (node_uid (al_heap ?s)) ?n)"
  proof -
    have "map (node_uid (al_heap ?s)) ?n = map (node_uid (al_heap s)) ?n"
      by (auto simp: node_uid_def delete_node_heap)
    moreover have "distinct (map (node_uid (al_heap s)) ?n)"
      using inv by (simp add: allow_inv_def distinct_map_filter)
    ultimately show ?thesis by (simp only:)
  qed
  moreover have "unat (al_count s - 1) = length ?n"
  proof -
    have "Suc (length ?n) = length (al_nodes s)"
      using inv_distinct [OF inv] p by (rule length_filter_neq)
    then show ?thesis using inv unat_u16_dec [of "al_count s"] p
      by (cases "al_count s = 0") (auto simp: allow_inv_def)
  qed
  moreover have "al_nodes (?s\<lparr>al_count := c\<rparr>) = ?n" for c
    using delete_node_nodes [of s p] by (simp add: al_nodes_def)
  moreover have "length (al_table ?s) = ALLOW_LIST_SIZE" using len by (simp add: delete_node_def)
  ultimately show ?thesis by (simp add: allow_inv_def)
qed

definition dead_node :: "(u32 \<Rightarrow> bytes \<Rightarrow> bool) \<Rightarrow> perm_heap \<Rightarrow> nat \<Rightarrow> bool" where
  "dead_node valid h q \<longleftrightarrow> node_is h (prunable valid) q"

lemma dead_node_cong: "h q = h' q \<Longrightarrow> dead_node valid h q = dead_node valid h' q"
  by (simp add: dead_node_def node_is_def)

lemma prune_loop_step:
  assumes "allow_inv cfg hf s" "p \<in> set (al_nodes s)"
  shows "prune_loop valid (p # ps) (s, m) =
    (if dead_node valid (al_heap s) p
     then prune_loop valid ps ((delete_node s p)\<lparr>al_count := al_count s - 1\<rparr>, True)
     else prune_loop valid ps (s, m))"
proof -
  obtain d where "al_heap s p = Some d" using assms by (rule node_get)
  then show ?thesis by (auto simp: dead_node_def node_is_def prunable_def Let_def)
qed

lemma prune_loop_spec:
  assumes "allow_inv cfg hf s" "set ps \<subseteq> set (al_nodes s)" "distinct ps"
    "prune_loop valid ps (s, m) = (s', m')"
  shows "allow_inv cfg hf s' \<and>
    al_nodes s' = filter (\<lambda>q. \<not> (q \<in> set ps \<and> dead_node valid (al_heap s) q)) (al_nodes s) \<and>
    (\<forall>q\<in>set (al_nodes s'). al_heap s' q = al_heap s q) \<and>
    m' = (m \<or> (\<exists>q\<in>set ps. dead_node valid (al_heap s) q))"
  using assms
proof (induction ps arbitrary: s m)
  case Nil
  then show ?case by simp
next
  case (Cons p ps)
  let ?t = "(delete_node s p)\<lparr>al_count := al_count s - 1\<rparr>"
  have p: "p \<in> set (al_nodes s)" "p \<notin> set ps" using Cons.prems by auto
  note step = prune_loop_step [OF Cons.prems(1) p(1), of valid ps m]
  show ?case
  proof (cases "dead_node valid (al_heap s) p")
    case True
    have nodes: "al_nodes ?t = filter (\<lambda>q. q \<noteq> p) (al_nodes s)"
      using delete_node_nodes [of s p] by (simp add: al_nodes_def)
    have heap: "al_heap ?t q = al_heap s q" if "q \<noteq> p" for q using that by (simp add: delete_node_heap)
    have dead: "dead_node valid (al_heap ?t) q = dead_node valid (al_heap s) q" if "q \<noteq> p" for q
      using that by (intro dead_node_cong heap)
    have "set ps \<subseteq> set (al_nodes ?t)" using Cons.prems p(2) nodes by auto
    moreover have "prune_loop valid ps (?t, True) = (s', m')" using step True Cons.prems by simp
    ultimately have IH: "allow_inv cfg hf s'"
      "al_nodes s' = filter (\<lambda>q. \<not> (q \<in> set ps \<and> dead_node valid (al_heap ?t) q)) (al_nodes ?t)"
      "\<forall>q\<in>set (al_nodes s'). al_heap s' q = al_heap ?t q" "m'"
      using Cons.IH [OF delete_node_inv [OF Cons.prems(1) p(1)], of True] Cons.prems(3) by simp_all
    have n: "al_nodes s' = filter (\<lambda>q. \<not> (q \<in> set (p # ps) \<and> dead_node valid (al_heap s) q)) (al_nodes s)"
      unfolding IH(2) nodes filter_filter using True dead p(2) by (intro filter_cong refl) (auto, metis)
    moreover have "\<forall>q\<in>set (al_nodes s'). al_heap s' q = al_heap s q"
    proof
      fix q
      assume q: "q \<in> set (al_nodes s')"
      with n True have "q \<noteq> p" by auto
      with IH(3) q heap show "al_heap s' q = al_heap s q" by simp
    qed
    ultimately show ?thesis using IH(1,4) True by simp
  next
    case False
    then have "filter (\<lambda>q. \<not> (q \<in> set ps \<and> dead_node valid (al_heap s) q)) (al_nodes s) =
        filter (\<lambda>q. \<not> (q \<in> set (p # ps) \<and> dead_node valid (al_heap s) q)) (al_nodes s)"
      by (intro filter_cong) auto
    then show ?thesis using Cons.IH [OF Cons.prems(1), of m] step False Cons.prems by simp
  qed
qed

lemma prune_spec:
  assumes inv: "allow_inv cfg hf s" and hf: "\<And>u. hf u < ALLOW_LIST_SIZE"
    and pr: "ksu_prune_allowlist True valid s = (s', m)"
  shows "allow_inv cfg hf s' \<and>
    al_abs hf s' u = (case al_abs hf s u of None \<Rightarrow> None
      | Some a \<Rightarrow> if prunable valid a then None else Some a) \<and>
    (m \<longleftrightarrow> (\<exists>u a. al_abs hf s u = Some a \<and> prunable valid a))"
proof -
  have "prune_loop valid (al_nodes s) (s, False) = (s', m)"
    using pr by (simp add: ksu_prune_allowlist_def)
  note loop = prune_loop_spec [OF inv subset_refl inv_distinct [OF inv] this]
  have "filter (\<lambda>q. \<not> (q \<in> set (al_nodes s) \<and> dead_node valid (al_heap s) q)) (al_nodes s) =
      filter (\<lambda>q. \<not> dead_node valid (al_heap s) q) (al_nodes s)"
    by (intro filter_cong) auto
  with loop have L: "allow_inv cfg hf s'"
    "al_nodes s' = filter (\<lambda>q. \<not> dead_node valid (al_heap s) q) (al_nodes s)"
    "\<forall>q\<in>set (al_nodes s'). al_heap s' q = al_heap s q"
    "m = (\<exists>q\<in>set (al_nodes s). dead_node valid (al_heap s) q)"
    by (blast, metis, blast, blast)
  have dead: "dead_node valid (al_heap s) q \<longleftrightarrow>
      (\<exists>a. map_option pd_profile (al_heap s q) = Some a \<and> prunable valid a)" for q
    by (auto simp: dead_node_def node_is_iff)
  have "al_profs s' = map (\<lambda>q. map_option pd_profile (al_heap s q)) (al_nodes s')"
    using L(3) by (simp add: al_profs_def)
  then have "set (al_profs s') = {x \<in> set (al_profs s). \<not> (\<exists>a. x = Some a \<and> prunable valid a)}"
    unfolding L(2) al_profs_def [of s] by (auto simp: dead)
  then have "al_abs hf s' u = Some a \<longleftrightarrow> al_abs hf s u = Some a \<and> \<not> prunable valid a" for a
    by (auto simp: al_abs_profs [OF L(1) hf] al_abs_profs [OF inv hf])
  then have "al_abs hf s' u = (case al_abs hf s u of None \<Rightarrow> None
      | Some a \<Rightarrow> if prunable valid a then None else Some a)"
    by (rule option_filter_eqI)
  moreover have "m \<longleftrightarrow> (\<exists>u a. al_abs hf s u = Some a \<and> prunable valid a)"
    unfolding L(4) dead_node_def node_is_iff al_abs_iff [OF inv hf] by blast
  ultimately show ?thesis using L(1) by blast
qed

end
