(* ===== verification/KSU_AllowStore.thy ===== *)
theory KSU_AllowStore
  imports KSU_Allowlist
begin

text \<open>
  The contract of the allowlist as a store of profiles, and what follows from it for its clients:
  loading and saving the allowlist file (\<open>ksu_load_allow_list\<close>, \<open>do_persistent_allow_list\<close>), the
  authorisation queries, the umount decision, the list handed to the manager, pruning and exit.

  The locale \<open>profile_store\<close> says what one \<open>store\<close> does to the abstract map from uids to
  profiles; \<open>bounded_store\<close> adds when a store succeeds. Both are interpreted on
  \<open>ksu_set_app_profile\<close>.
\<close>

section \<open>The contract of a profile store\<close>

locale profile_store =
  fixes inv :: "'s \<Rightarrow> bool"
    and lookup :: "'s \<Rightarrow> u32 \<Rightarrow> app_profile option"
    and store :: "'s \<Rightarrow> app_profile \<Rightarrow> int \<times> 's"
    and norm :: "app_profile \<Rightarrow> app_profile"
    and adm :: "app_profile \<Rightarrow> bool"
  assumes store_inv: "inv s \<Longrightarrow> adm p \<Longrightarrow> inv (snd (store s p))"
    and store_ok: "inv s \<Longrightarrow> adm p \<Longrightarrow> fst (store s p) = 0 \<Longrightarrow>
      lookup (snd (store s p)) = (lookup s)(ap_curr_uid p \<mapsto> norm p)"
    and store_fail: "inv s \<Longrightarrow> fst (store s p) \<noteq> 0 \<Longrightarrow> snd (store s p) = s"
begin

lemma stores_inv:
  "inv s \<Longrightarrow> list_all adm ps \<Longrightarrow> inv (fold (\<lambda>p s. snd (store s p)) ps s)"
  by (induction ps arbitrary: s) (auto intro: store_inv)

lemma store_lookup_cases:
  assumes "inv s" "adm p" "lookup (snd (store s p)) u = Some a"
  shows "lookup s u = Some a \<or> u = ap_curr_uid p \<and> a = norm p"
  using assms store_ok [OF assms(1,2)] store_fail [OF assms(1), of p]
  by (cases "fst (store s p) = 0") (auto split: if_splits)

text \<open>No profile appears that was neither there nor stored.\<close>

lemma stores_provenance:
  "inv s \<Longrightarrow> list_all adm ps \<Longrightarrow> lookup (fold (\<lambda>p s. snd (store s p)) ps s) u = Some a \<Longrightarrow>
   lookup s u = Some a \<or> (\<exists>p\<in>set ps. ap_curr_uid p = u \<and> a = norm p)"
proof (induction ps arbitrary: s)
  case Nil
  then show ?case by simp
next
  case (Cons p ps)
  then have "lookup (snd (store s p)) u = Some a \<or> (\<exists>p\<in>set ps. ap_curr_uid p = u \<and> a = norm p)"
    by (auto intro: store_inv)
  then show ?case using store_lookup_cases [of s p u a] Cons.prems by auto
qed

end

locale bounded_store = profile_store +
  fixes room :: "'a \<Rightarrow> nat"
  assumes store_room: "inv s \<Longrightarrow> adm p \<Longrightarrow> 0 < room s \<Longrightarrow>
      fst (store s p) = 0 \<and> room s \<le> Suc (room (snd (store s p)))"
begin

text \<open>Storing a list that fits overrides the map with the list, later entries first.\<close>

lemma stores_all:
  "inv s \<Longrightarrow> list_all adm ps \<Longrightarrow> length ps \<le> room s \<Longrightarrow>
   lookup (fold (\<lambda>p s. snd (store s p)) ps s) =
     lookup s ++ map_of (rev (map (\<lambda>p. (ap_curr_uid p, norm p)) ps))"
proof (induction ps arbitrary: s)
  case Nil
  then show ?case by simp
next
  case (Cons p ps)
  have ok: "fst (store s p) = 0" "room s \<le> Suc (room (snd (store s p)))"
    using store_room [of s p] Cons.prems by auto
  then have "length ps \<le> room (snd (store s p))" using Cons.prems by simp
  then have "lookup (fold (\<lambda>p s. snd (store s p)) ps (snd (store s p))) =
      lookup (snd (store s p)) ++ map_of (rev (map (\<lambda>p. (ap_curr_uid p, norm p)) ps))"
    using Cons.prems by (intro Cons.IH) (auto intro: store_inv)
  then show ?case using store_ok [of s p] ok Cons.prems by (simp add: map_add_upd_left)
qed

end

section \<open>The allowlist is such a store\<close>

lemma set_inv:
  assumes "kernel_ok hf kz" "allow_inv cfg hf s" "app_profile_wf p"
  shows "allow_inv cfg hf (snd (ksu_set_app_profile cfg hf kz s p))"
  using set_inv_abs [OF assms] set_fail [of cfg hf kz s p] assms
  by (cases "fst (ksu_set_app_profile cfg hf kz s p) = 0") auto

interpretation al: profile_store
  "\<lambda>s. kernel_ok hf kz \<and> allow_inv cfg hf s" "al_abs hf" "ksu_set_app_profile cfg hf kz"
  "policy_normalise cfg" app_profile_wf
  for cfg hf kz
proof unfold_locales
  show "snd (ksu_set_app_profile cfg hf kz s p) = s"
    if "fst (ksu_set_app_profile cfg hf kz s p) \<noteq> 0" for s p
    using that by (rule set_fail)
qed (auto simp: set_inv set_inv_abs)

lemma set_finite:
  "finite (dom (al_heap s)) \<Longrightarrow> finite (dom (al_heap (snd (ksu_set_app_profile cfg hf kz s p))))"
proof -
  have put: "finite (dom h) \<Longrightarrow> finite (dom (put_perm_data h q))" for h q
    by (rule finite_subset [of _ "dom h"]) (auto simp: put_perm_data_def split: option.splits if_splits)
  show "finite (dom (al_heap s)) \<Longrightarrow> finite (dom (al_heap (snd (ksu_set_app_profile cfg hf kz s p))))"
    by (auto simp: ksu_set_app_profile_def Let_def replace_node_def add_node_def intro!: put
        split: option.splits)
qed

lemma set_room:
  "unat (al_count (snd (ksu_set_app_profile cfg hf kz s p))) \<le> Suc (unat (al_count s))"
  by (auto simp: ksu_set_app_profile_def Let_def replace_node_def add_node_def unat_u16_inc
      split: option.splits)

text \<open>An allocator that fails on no finite heap.\<close>

definition kz_total :: "kzalloc_fn \<Rightarrow> bool" where
  "kz_total kz \<longleftrightarrow> (\<forall>h. finite (dom h) \<longrightarrow> kz h \<noteq> None)"

lemma storable_wf: "storable cfg p \<Longrightarrow> app_profile_wf p"
  by (simp add: storable_def)

interpretation alb: bounded_store
  "\<lambda>s. kernel_ok hf kz \<and> allow_inv cfg hf s \<and> kz_total kz \<and> finite (dom (al_heap s))"
  "al_abs hf" "ksu_set_app_profile cfg hf kz" "policy_normalise cfg" "storable cfg"
  "\<lambda>s. 65535 - unat (al_count s)"
  for cfg hf kz
proof unfold_locales
  show "snd (ksu_set_app_profile cfg hf kz s p) = s"
    if "fst (ksu_set_app_profile cfg hf kz s p) \<noteq> 0" for s p
    using that by (rule set_fail)
next
  fix s p
  assume inv: "kernel_ok hf kz \<and> allow_inv cfg hf s \<and> kz_total kz \<and> finite (dom (al_heap s))"
    and st: "storable cfg p" and room: "0 < 65535 - unat (al_count s)"
  have "al_count s \<noteq> U16_MAX" using room by auto
  moreover have "kz (al_heap s) \<noteq> None" using inv by (simp add: kz_total_def)
  ultimately have "set_code cfg hf kz s p = 0" using st by (auto simp: set_code_def storable_def)
  then show "fst (ksu_set_app_profile cfg hf kz s p) = 0 \<and>
      65535 - unat (al_count s) \<le> Suc (65535 - unat (al_count (snd (ksu_set_app_profile cfg hf kz s p))))"
    using set_fst [of cfg hf s kz p] inv set_room [of cfg hf kz s p] kernel_ok_hash [of hf kz] by auto
qed (auto simp: set_inv set_inv_abs set_finite storable_wf)

section \<open>Loading and saving\<close>

text \<open>The profiles a file's body holds, as the loader reads them.\<close>

function file_profiles :: "(nat \<Rightarrow> bytes) \<Rightarrow> u32 \<Rightarrow> bytes \<Rightarrow> app_profile list" where
  "file_profiles stack version rest =
     (let size = (if version < KSU_APP_PROFILE_VER then kAppProfileSizePreV4 else app_profile_size) in
      if length rest < size then []
      else migrate_profile version (app_profile_of (take size rest @ drop size (stack (length rest)))) #
           file_profiles stack version (drop size rest))"
  by pat_completeness auto
termination
  by (relation "measure (\<lambda>(stack, version, rest). length rest)") (auto split: if_splits)

declare file_profiles.simps [simp del]

lemma load_profiles_fold:
  "load_profiles cfg hf kz stack version rest s =
   fold (\<lambda>p s. snd (ksu_set_app_profile cfg hf kz s p)) (file_profiles stack version rest) s"
proof (induction stack version rest arbitrary: s rule: file_profiles.induct)
  case (1 stack version rest)
  show ?case
    using 1 by (subst load_profiles.simps, subst file_profiles.simps) (auto simp: Let_def min_def)
qed

lemma file_profiles_wf:
  "(\<And>n. length (stack n) = app_profile_size) \<Longrightarrow> list_all app_profile_wf (file_profiles stack version rest)"
proof (induction stack version rest rule: file_profiles.induct)
  case (1 stack version rest)
  show ?case
    using 1 by (subst file_profiles.simps)
      (auto simp: Let_def intro!: migrate_profile_wf app_profile_of_wf)
qed

lemma file_profiles_step:
  assumes "length b = app_profile_size" "\<And>n. length (stack n) = app_profile_size"
  shows "file_profiles stack KSU_APP_PROFILE_VER (b @ rest) =
    migrate_profile KSU_APP_PROFILE_VER (app_profile_of b) # file_profiles stack KSU_APP_PROFILE_VER rest"
  using assms by (subst file_profiles.simps) (simp add: Let_def)

lemma file_profiles_bytes:
  assumes stack: "\<And>n. length (stack n) = app_profile_size"
  shows "list_all app_profile_wf ps \<Longrightarrow> list_all (\<lambda>p. ap_version p = KSU_APP_PROFILE_VER) ps \<Longrightarrow>
    file_profiles stack KSU_APP_PROFILE_VER (concat (map app_profile_bytes ps)) = ps"
proof (induction ps)
  case Nil
  then show ?case by (subst file_profiles.simps) simp
next
  case (Cons p ps)
  then have "length (app_profile_bytes p) = app_profile_size" "app_profile_of (app_profile_bytes p) = p"
    by (simp_all add: length_app_profile_bytes app_profile_of_bytes)
  with Cons show ?case by (simp add: file_profiles_step stack migrate_profile_current)
qed

text \<open>A writer whose every call writes all it was given.\<close>

definition full_writes :: "nat \<Rightarrow> nat" where
  "full_writes k = (if k < 2 then 4 else app_profile_size)"

lemma write_profiles_full:
  assumes "\<forall>p\<in>set ns. \<exists>d. h p = Some d \<and> app_profile_wf (pd_profile d)" "2 \<le> k"
  shows "write_profiles full_writes h k ns =
    concat (map app_profile_bytes (map (\<lambda>p. pd_profile (the (h p))) ns))"
  using assms
  by (induction ns arbitrary: k) (auto simp: full_writes_def length_app_profile_bytes)

lemma inv_storable:
  assumes "allow_inv cfg hf s" "p \<in> set (al_nodes s)"
  shows "\<exists>d. al_heap s p = Some d \<and> storable cfg (pd_profile d)"
proof -
  obtain b where "node_ok cfg hf (al_heap s) b p" using assms by (rule inv_node)
  then show ?thesis by (auto simp: storable_def elim!: node_okE)
qed

definition al_list :: "allow_state \<Rightarrow> app_profile list" where
  "al_list s = map (\<lambda>p. pd_profile (the (al_heap s p))) (al_nodes s)"

lemma al_list_facts:
  assumes inv: "allow_inv cfg hf s"
  shows "list_all (storable cfg) (al_list s)" "distinct (map ap_curr_uid (al_list s))"
    "length (al_list s) = unat (al_count s)" "al_profs s = map Some (al_list s)"
proof -
  note d = inv_storable [OF inv]
  show "list_all (storable cfg) (al_list s)"
    using d by (fastforce simp: al_list_def list_all_iff)
  show pr: "al_profs s = map Some (al_list s)"
    using d by (fastforce simp: al_list_def al_profs_def)
  have "map (node_uid (al_heap s)) (al_nodes s) = map Some (map ap_curr_uid (al_list s))"
    using d by (fastforce simp: al_list_def node_uid_def)
  moreover have "distinct (map (node_uid (al_heap s)) (al_nodes s))"
    using inv by (simp only: allow_inv_def)
  ultimately have "distinct (map Some (map ap_curr_uid (al_list s)))" by (simp only:)
  then show "distinct (map ap_curr_uid (al_list s))" unfolding distinct_map [of Some] by simp
  show "length (al_list s) = unat (al_count s)" using inv by (simp add: al_list_def allow_inv_def)
qed

lemma al_abs_list:
  assumes "allow_inv cfg hf s" "\<And>u. hf u < ALLOW_LIST_SIZE"
  shows "al_abs hf s = map_of (map (\<lambda>a. (ap_curr_uid a, a)) (al_list s))"
proof
  fix u
  have "distinct (map fst (map (\<lambda>a. (ap_curr_uid a, a)) (al_list s)))"
    using al_list_facts(2) [OF assms(1)] by (simp add: comp_def)
  note m = map_of_eq_Some_iff [OF this]
  show "al_abs hf s u = map_of (map (\<lambda>a. (ap_curr_uid a, a)) (al_list s)) u"
    by (rule option_eqI) (auto simp add: m al_abs_profs [OF assms] al_list_facts(4) [OF assms(1)])
qed

lemma persist_full:
  assumes "allow_inv cfg hf s"
  shows "do_persistent_allow_list True full_writes s =
    Some (u32_bytes FILE_MAGIC @ u32_bytes FILE_FORMAT_VERSION @ concat (map app_profile_bytes (al_list s)))"
proof -
  have "\<forall>p\<in>set (al_nodes s). \<exists>d. al_heap s p = Some d \<and> app_profile_wf (pd_profile d)"
    using inv_storable [OF assms] storable_wf by blast
  then have "write_profiles full_writes (al_heap s) 2 (al_nodes s) = concat (map app_profile_bytes (al_list s))"
    by (simp add: write_profiles_full al_list_def)
  then show ?thesis by (simp add: do_persistent_allow_list_def full_writes_def)
qed

section \<open>The list for the manager\<close>

definition selected :: "ksu_config \<Rightarrow> u32 \<Rightarrow> bool \<Rightarrow> app_profile \<Rightarrow> bool" where
  "selected cfg appid allow a \<longleftrightarrow> ap_allow_su a = allow \<and> \<not> is_uid_manager cfg appid (ap_curr_uid a)"

lemma of_nat_u16_inc: "(of_nat n :: u16) + 1 = of_nat (Suc n)"
  by simp

lemma u16_less_of_nat:
  assumes "j \<le> unat (len :: u16)"
  shows "of_nat j < len \<longleftrightarrow> j < unat len"
proof -
  have "j < 2 ^ LENGTH(16)" using assms unat_bound [of len] by simp
  then have "unat (of_nat j :: u16) = j" by (simp add: unat_of_nat)
  then show ?thesis by (simp add: word_less_nat_alt)
qed

lemma get_allow_list_loop_spec:
  assumes "\<forall>p\<in>set ns. h p \<noteq> None" "length arr \<le> unat len"
  shows "get_allow_list_loop cfg appid h len allow ns (arr, of_nat (length arr), of_nat i) =
    (let sel = map ap_curr_uid (filter (selected cfg appid allow) (map (\<lambda>p. pd_profile (the (h p))) ns))
     in (arr @ take (unat len - length arr) sel, of_nat (min (unat len) (length arr + length sel)),
         of_nat (i + length sel)))"
  using assms
proof (induction ns arbitrary: arr i)
  case Nil
  then show ?case by (simp add: min_def)
next
  case (Cons p ns)
  obtain d where d: "h p = Some d" using Cons.prems by auto
  show ?case
  proof (cases "selected cfg appid allow (pd_profile d)")
    case False
    then have step: "get_allow_list_loop cfg appid h len allow (p # ns) (arr, of_nat (length arr), of_nat i) =
        get_allow_list_loop cfg appid h len allow ns (arr, of_nat (length arr), of_nat i)"
      by (auto simp: d selected_def Let_def)
    show ?thesis unfolding step using Cons False d by (simp add: Let_def)
  next
    case sel: True
    let ?u = "ap_curr_uid (pd_profile d)"
    show ?thesis
    proof (cases "length arr < unat len")
      case True
      then have step: "get_allow_list_loop cfg appid h len allow (p # ns) (arr, of_nat (length arr), of_nat i) =
          get_allow_list_loop cfg appid h len allow ns
            (arr @ [?u], of_nat (length (arr @ [?u])), of_nat (Suc i))"
        using sel by (simp add: d selected_def Let_def u16_less_of_nat add.commute)
      show ?thesis unfolding step using Cons.IH [of "arr @ [?u]" "Suc i"] Cons.prems True sel d
        by (simp add: Let_def take_Cons')
    next
      case False
      then have step: "get_allow_list_loop cfg appid h len allow (p # ns) (arr, of_nat (length arr), of_nat i) =
          get_allow_list_loop cfg appid h len allow ns (arr, of_nat (length arr), of_nat (Suc i))"
        using sel Cons.prems by (simp add: d selected_def Let_def u16_less_of_nat add.commute)
      show ?thesis unfolding step using Cons.IH [of arr "Suc i"] Cons.prems False sel d
        by (simp add: Let_def min_def)
    qed
  qed
qed

section \<open>Exit\<close>

lemma put_perm_data_at: "put_perm_data h p p = put_perm_data (\<lambda>_. h p) p p"
  by (auto simp: put_perm_data_def split: option.split)

lemma exit_fold:
  "distinct ns \<Longrightarrow>
   al_nodes (fold (\<lambda>p s. delete_node s p) ns s) = filter (\<lambda>q. q \<notin> set ns) (al_nodes s) \<and>
   al_heap (fold (\<lambda>p s. delete_node s p) ns s) q =
     (if q \<in> set ns then put_perm_data (al_heap s) q q else al_heap s q)"
proof (induction ns arbitrary: s)
  case Nil
  then show ?case by simp
next
  case (Cons p ns)
  then have IH: "al_nodes (fold (\<lambda>p s. delete_node s p) ns (delete_node s p)) =
      filter (\<lambda>q. q \<notin> set ns) (al_nodes (delete_node s p))"
    "al_heap (fold (\<lambda>p s. delete_node s p) ns (delete_node s p)) q =
      (if q \<in> set ns then put_perm_data (al_heap (delete_node s p)) q q else al_heap (delete_node s p) q)"
    by simp_all
  have "q \<in> set ns \<Longrightarrow> q \<noteq> p" using Cons.prems by auto
  then have "q \<in> set ns \<Longrightarrow> put_perm_data (al_heap (delete_node s p)) q q = put_perm_data (al_heap s) q q"
    using put_perm_data_at [of "al_heap (delete_node s p)" q] put_perm_data_at [of "al_heap s" q]
    by (simp add: delete_node_heap)
  moreover have "al_heap (delete_node s p) p = put_perm_data (al_heap s) p p"
    by (simp add: delete_node_def)
  ultimately show ?case using Cons.prems delete_node_heap [of q p s]
    by (auto simp: IH delete_node_nodes intro!: filter_cong)
qed

section \<open>The root profile\<close>

lemma get_root_profile_retry_spec:
  assumes "allow_inv cfg hf s" "hf uid < ALLOW_LIST_SIZE"
  shows "\<exists>r s'. get_root_profile_retry hf s uid = Some (r, s') \<and>
    ksu_put_root_profile s' r = s \<and> root_profile_at s' r = Some (case al_abs hf s uid of
      Some a \<Rightarrow> if ap_allow_su a \<and> \<not> ap_use_default a then ap_profile a else al_default_root s
    | None \<Rightarrow> al_default_root s)"
proof (cases "find_possible hf s uid (\<lambda>a. uid = ap_curr_uid a \<and> ap_allow_su a)")
  case None
  then have "get_root_profile_retry hf s uid = Some (Default_root, s)"
    by (subst get_root_profile_retry.simps) simp
  moreover have "\<And>a. al_abs hf s uid = Some a \<Longrightarrow> \<not> ap_allow_su a"
    using find_allowed_iff [OF assms] None by auto
  ultimately show ?thesis
    by (auto simp: ksu_put_root_profile_def root_profile_at_def split: option.split)
next
  case (Some p)
  then have p: "p \<in> set (al_nodes s)" and
    "\<exists>d. al_heap s p = Some d \<and> ap_curr_uid (pd_profile d) = uid \<and> ap_allow_su (pd_profile d)"
    using find_possible_iff [OF assms, of ap_allow_su p] by auto
  moreover obtain d where d: "al_heap s p = Some d" "0 < pd_ref d" "kref_get_unless_zero (al_heap s) p =
    Some ((al_heap s)(p \<mapsto> d\<lparr>pd_ref := Suc (pd_ref d)\<rparr>))" using assms(1) p by (rule node_get)
  ultimately have abs: "al_abs hf s uid = Some (pd_profile d)" "ap_allow_su (pd_profile d)"
    using al_abs_iff [OF assms] p by auto
  show ?thesis
    using Some d put_get_id [of "al_heap s" p d]
    by (subst get_root_profile_retry.simps)
      (auto simp: abs node_is_def ksu_put_root_profile_def root_profile_at_def)
qed

text \<open>The profile a uid is granted, over the abstract map.\<close>

definition granted_profile ::
  "ksu_config \<Rightarrow> u32 \<Rightarrow> bool \<Rightarrow> (u32 \<Rightarrow> nat) \<Rightarrow> allow_state \<Rightarrow> u32 \<Rightarrow> root_profile" where
  "granted_profile cfg appid allow_shell hf s uid = (case al_abs hf s uid of
      Some a \<Rightarrow> if ap_allow_su a \<and> \<not> ap_use_default a \<and> \<not> cfg_disable_policy cfg \<and>
                  \<not> is_uid_manager cfg appid uid \<and> \<not> (allow_shell \<and> uid = SHELL_UID)
                then ap_profile a else al_default_root s
    | None \<Rightarrow> al_default_root s)"

lemma get_root_profile_granted:
  assumes "allow_inv cfg hf s" "hf uid < ALLOW_LIST_SIZE"
  shows "\<exists>r s'. ksu_get_root_profile cfg appid allow_shell hf s uid = Some (r, s') \<and>
    ksu_put_root_profile s' r = s \<and>
    root_profile_at s' r = Some (granted_profile cfg appid allow_shell hf s uid)"
proof (cases "cfg_disable_policy cfg \<or> is_uid_manager cfg appid uid \<or> allow_shell \<and> uid = SHELL_UID")
  case True
  then show ?thesis
    by (auto simp: granted_profile_def ksu_get_root_profile_def ksu_put_root_profile_def root_profile_at_def
        split: option.split)
next
  case False
  then have "ksu_get_root_profile cfg appid allow_shell hf s uid = get_root_profile_retry hf s uid"
    by (auto simp: ksu_get_root_profile_def)
  with get_root_profile_retry_spec [OF assms] False show ?thesis
    by (simp add: granted_profile_def cong: option.case_cong)
qed

section \<open>A small concrete allowlist\<close>

definition cfg0 :: ksu_config where
  "cfg0 = \<lparr>cfg_disable_policy = False, cfg_disable_manager = False, cfg_manager_package = None,
     cfg_module = True\<rparr>"

definition hf0 :: "u32 \<Rightarrow> nat" where "hf0 u = unat (u mod 256)"
definition kz0 :: kzalloc_fn where "kz0 h = find (\<lambda>p. h p = None) [0..<4]"

definition kz_least :: kzalloc_fn where
  "kz_least h = (if finite (dom h) then Some (LEAST p. h p = None) else None)"

definition prof0 :: app_profile where
  "prof0 = \<lparr>ap_version = 4, ap_key = chars ''app'' @ 0 # replicate 252 0, ap_curr_uid = 10123,
     ap_allow_su = True, ap_use_default = False, ap_template_name = replicate 256 0,
     ap_profile = init_default_root_profile 0xff zero_root_profile\<rparr>"

definition st0 :: allow_state where "st0 = ksu_allowlist_init 0xff zero_allow_state"

definition st1 :: allow_state where "st1 = snd (ksu_set_app_profile cfg0 hf0 kz0 st0 prof0)"

lemma hf0_bound: "hf0 u < ALLOW_LIST_SIZE"
proof -
  have "u mod 256 < 256" by (rule word_mod_less_divisor) simp
  then show ?thesis by (simp add: hf0_def word_less_nat_alt)
qed

lemma kernel_ok0: "kernel_ok hf0 kz0"
  by (auto simp: kernel_ok_def hf0_bound kz0_def dest: find_SomeD)

lemma least_fresh: "finite (dom (h :: perm_heap)) \<Longrightarrow> h (LEAST p. h p = None) = None"
proof -
  assume "finite (dom h)"
  then obtain p where "p \<notin> dom h" by (metis ex_new_if_finite infinite_UNIV_nat)
  then show ?thesis by (intro LeastI [of "\<lambda>p. h p = None"]) auto
qed

lemma kernel_ok_least: "kernel_ok hf0 kz_least" "kz_total kz_least"
  by (auto simp: kernel_ok_def kz_total_def hf0_bound kz_least_def least_fresh split: if_splits)

lemma init_inv: "allow_inv cfg hf (ksu_allowlist_init cap zero_allow_state)"
proof -
  have "concat (replicate n []) = []" for n by (induction n) auto
  then show ?thesis
    by (simp add: allow_inv_def al_nodes_def ksu_allowlist_init_def init_default_profiles_def
        zero_allow_state_def)
qed

lemma prof0_wf: "app_profile_wf prof0"
  by (simp add: prof0_def app_profile_wf_def root_profile_wf_def init_default_root_profile_def
      zero_root_profile_def chars_def KSU_DEFAULT_SELINUX_DOMAIN_def)

lemma prof0_valid: "profile_valid cfg0 (Some prof0)"
  by (simp add: profile_valid_def prof0_def strnlen_def init_default_root_profile_def
      zero_root_profile_def chars_def cfg0_def cstr_def KSU_DEFAULT_SELINUX_DOMAIN_def)

lemma al_abs_empty: "al_nodes s = [] \<Longrightarrow> allow_inv cfg hf s \<Longrightarrow> hf u < ALLOW_LIST_SIZE \<Longrightarrow> al_abs hf s u = None"
  by (simp add: al_abs_None_iff)

lemma st0_nodes: "al_nodes st0 = []"
proof -
  have "concat (replicate n []) = []" for n by (induction n) auto
  then show ?thesis
    by (simp add: al_nodes_def st0_def ksu_allowlist_init_def init_default_profiles_def
        zero_allow_state_def)
qed

lemma st0_inv: "allow_inv cfg hf st0"
  unfolding st0_def by (rule init_inv)

lemma st1_ok: "fst (ksu_set_app_profile cfg0 hf0 kz0 st0 prof0) = 0"
proof -
  have "set_code cfg0 hf0 kz0 st0 prof0 = 0"
    using prof0_valid
    by (simp add: set_code_def prof0_def kz0_def upt_rec st0_def ksu_allowlist_init_def
        init_default_profiles_def zero_allow_state_def)
  then show ?thesis using set_fst [OF st0_inv hf0_bound] by simp
qed

lemma st1_inv: "allow_inv cfg0 hf0 st1"
  unfolding st1_def by (rule set_inv [OF kernel_ok0 st0_inv prof0_wf])

lemma st1_abs: "al_abs hf0 st1 = [10123 \<mapsto> prof0]"
proof -
  have "al_abs hf0 st0 = Map.empty"
    by (rule ext) (rule al_abs_empty [OF st0_nodes st0_inv hf0_bound])
  then show ?thesis
    using set_inv_abs [OF kernel_ok0 st0_inv prof0_wf st1_ok]
    by (simp add: st1_def cfg0_def prof0_def)
qed

section \<open>Properties\<close>

text \<open>(C1) \<open>ksu_set_app_profile\<close> refines an update of the abstract map from uids to profiles: its
  return code is the documented one on every branch, it keeps the invariant of the hash table, on
  success the map changes at the profile's uid only and to the normalised profile, and on an error
  the state is unchanged.\<close>

theorem set_app_profile_refines:
  assumes "kernel_ok hf kz" "allow_inv cfg hf s" "app_profile_wf p"
  shows "case ksu_set_app_profile cfg hf kz s p of (r, s') \<Rightarrow>
    r = set_code cfg hf kz s p \<and> allow_inv cfg hf s' \<and>
    (if r = 0 then al_abs hf s' = (al_abs hf s)(ap_curr_uid p \<mapsto> policy_normalise cfg p) else s' = s)"
  using set_fst [OF assms(2) kernel_ok_hash [OF assms(1)], of kz p] set_inv [OF assms]
    set_inv_abs [OF assms] set_fail [of cfg hf kz s p]
  by (auto split: prod.split)

theorem set_app_profile_refines_witness:
  "kernel_ok hf0 kz0 \<and> allow_inv cfg0 hf0 st0 \<and> app_profile_wf prof0 \<and>
   fst (ksu_set_app_profile cfg0 hf0 kz0 st0 prof0) = 0 \<and>
   al_abs hf0 (snd (ksu_set_app_profile cfg0 hf0 kz0 st0 prof0)) 10123 = Some prof0"
proof -
  have "fst (ksu_set_app_profile cfg0 hf0 kz0 st0 prof0) = 0 \<and>
      al_abs hf0 (snd (ksu_set_app_profile cfg0 hf0 kz0 st0 prof0)) =
        (al_abs hf0 st0)(ap_curr_uid prof0 \<mapsto> policy_normalise cfg0 prof0)"
    using set_app_profile_refines [OF kernel_ok0 st0_inv [of cfg0] prof0_wf] st1_ok
    by (cases "ksu_set_app_profile cfg0 hf0 kz0 st0 prof0") simp
  then show ?thesis using kernel_ok0 st0_inv prof0_wf by (simp add: cfg0_def prof0_def)
qed

text \<open>(C2) A uid is allowed root exactly when it is not a forbidden system uid and is the manager's,
  the shell's while shell is allowed, or has a stored profile that allows su.\<close>

theorem is_allow_uid_iff:
  assumes "allow_inv cfg hf s" "hf uid < ALLOW_LIST_SIZE"
  shows "ksu_is_allow_uid cfg appid allow_shell hf s uid \<longleftrightarrow>
    \<not> (uid < SHELL_UID \<and> uid \<noteq> SYSTEM_UID) \<and>
    (is_uid_manager cfg appid uid \<or> allow_shell \<and> uid = SHELL_UID \<or>
     (\<exists>a. al_abs hf s uid = Some a \<and> ap_allow_su a))"
  using find_allowed_iff [OF assms] by (auto simp: ksu_is_allow_uid_def forbid_system_uid_def)

theorem is_allow_uid_iff_witness:
  "allow_inv cfg0 hf0 st1 \<and> hf0 10123 < ALLOW_LIST_SIZE \<and> ksu_is_allow_uid cfg0 (- 1) False hf0 st1 10123"
  using is_allow_uid_iff [OF st1_inv hf0_bound, of "- 1" False 10123]
  by (simp add: st1_inv hf0_bound st1_abs prof0_def)

text \<open>(C3) Loading an allowlist file, whatever its bytes, keeps the invariant, and every profile stored
  afterwards was stored before or is one of the records of the file, migrated to the current version:
  a damaged file grants nothing it does not hold.\<close>

theorem load_allow_list_sound:
  assumes "kernel_ok hf kz" "allow_inv cfg hf s" "\<And>n. length (stack n) = app_profile_size"
  shows "allow_inv cfg hf (fst (ksu_load_allow_list cfg hf kz stack file s)) \<and>
    (al_abs hf (fst (ksu_load_allow_list cfg hf kz stack file s)) u = Some a \<longrightarrow>
       al_abs hf s u = Some a \<or>
       (\<exists>f. file = Some f \<and> ap_curr_uid a = u \<and>
          a \<in> set (file_profiles stack (bytes_u32 (field 4 4 f)) (drop 8 f))))"
proof -
  have wf: "list_all app_profile_wf (file_profiles stack v rest)" for v rest
    using assms(3) by (rule file_profiles_wf)
  have inv: "kernel_ok hf kz \<and> allow_inv cfg hf s" using assms by blast
  show ?thesis
    using al.stores_inv [OF inv wf] al.stores_provenance [OF inv wf, of _ _ u a] inv
    by (auto simp: ksu_load_allow_list_def load_profiles_fold Let_def split: option.split)
qed

theorem load_allow_list_sound_witness:
  "kernel_ok hf0 kz0 \<and> allow_inv cfg0 hf0 st1 \<and>
   allow_inv cfg0 hf0 (fst (ksu_load_allow_list cfg0 hf0 kz0 (\<lambda>_. replicate 784 0) (Some [0x55]) st1))"
  using load_allow_list_sound [OF kernel_ok0 st1_inv, of "\<lambda>_. replicate 784 0" "Some [0x55]"]
    kernel_ok0 st1_inv by simp

text \<open>(C4) Saving the allowlist with complete writes and loading the file into an empty table gives
  back the same map from uids to profiles.\<close>

theorem persist_load_roundtrip:
  assumes "kernel_ok hf kz" "kz_total kz" "\<not> cfg_disable_policy cfg"
    and "allow_inv cfg hf s" "allow_inv cfg hf t" "al_nodes t = []" "finite (dom (al_heap t))"
    and "\<And>n. length (stack n) = app_profile_size"
  shows "al_abs hf (fst (ksu_load_allow_list cfg hf kz stack
           (do_persistent_allow_list True full_writes s) t)) = al_abs hf s"
proof -
  note hf = kernel_ok_hash [OF assms(1)]
  note L = al_list_facts [OF assms(4)]
  have wf: "list_all app_profile_wf (al_list s)"
    "list_all (\<lambda>p. ap_version p = KSU_APP_PROFILE_VER) (al_list s)"
    using L(1) by (auto simp: list_all_iff storable_def profile_valid_def split: if_splits)
  have empty: "al_abs hf t = Map.empty" "unat (al_count t) = 0"
    using al_abs_empty [OF assms(6,5) hf] assms(5,6) by (auto simp: allow_inv_def)
  have "length (al_list s) \<le> 65535 - unat (al_count t)"
    using unat_bound [of "al_count s"] by (simp add: L(3) empty)
  then have "al_abs hf (fold (\<lambda>p s. snd (ksu_set_app_profile cfg hf kz s p)) (al_list s) t) =
      map_of (rev (map (\<lambda>p. (ap_curr_uid p, p)) (al_list s)))"
    using alb.stores_all [of hf kz cfg t "al_list s"] assms L(1) by (simp add: empty)
  also have "\<dots> = map_of (map (\<lambda>p. (ap_curr_uid p, p)) (al_list s))"
    using L(2) by (intro map_of_rev_distinct) (simp add: comp_def)
  also have "\<dots> = al_abs hf s" by (rule al_abs_list [OF assms(4) hf, symmetric])
  finally show ?thesis
    using assms(3) file_profiles_bytes [OF assms(8) wf]
    by (simp add: persist_full [OF assms(4)] ksu_load_allow_list_def load_profiles_fold field_def)
qed

theorem persist_load_roundtrip_witness:
  "kernel_ok hf0 kz_least \<and> kz_total kz_least \<and> allow_inv cfg0 hf0 st1 \<and> allow_inv cfg0 hf0 st0 \<and>
   al_nodes st0 = [] \<and> finite (dom (al_heap st0)) \<and>
   al_abs hf0 (fst (ksu_load_allow_list cfg0 hf0 kz_least (\<lambda>_. replicate 784 0)
     (do_persistent_allow_list True full_writes st1) st0)) = [10123 \<mapsto> prof0]"
proof -
  have fin: "finite (dom (al_heap st0))"
    by (simp add: st0_def ksu_allowlist_init_def init_default_profiles_def zero_allow_state_def dom_def)
  have "\<not> cfg_disable_policy cfg0" by (simp add: cfg0_def)
  from persist_load_roundtrip [OF kernel_ok_least this st1_inv st0_inv st0_nodes fin,
      of "\<lambda>_. replicate 784 0"]
  show ?thesis using kernel_ok_least st1_inv st0_inv st0_nodes fin by (simp add: st1_abs)
qed

lemma should_umount_eq:
  assumes "allow_inv cfg hf s" "hf uid < ALLOW_LIST_SIZE" "\<not> cfg_disable_policy cfg"
  shows "ksu_uid_should_umount cfg appid allow_shell hf s uid = Some
    (if ksu_is_manager_appid_valid cfg appid \<and> ksu_get_manager_appid cfg appid = uid mod PER_USER_RANGE
     then False
     else (case al_abs hf s uid of
             None \<Rightarrow> al_default_umount s
           | Some a \<Rightarrow> \<not> ap_allow_su a \<and>
               (if ap_use_default a then al_default_umount s else nrp_umount_modules a)), s)"
  using assms(1,2)
proof (cases rule: get_app_profile_cases)
  case none
  then show ?thesis using assms(3) by (simp add: ksu_uid_should_umount_def)
next
  case (some p d)
  then show ?thesis
    using assms(3) put_get_id [of "al_heap s" p d]
    by (simp add: ksu_uid_should_umount_def ksu_put_app_profile_def Let_def)
qed

text \<open>\<open>ksu_uid_should_umount\<close> always returns, leaves the allowlist and every reference count
  as they were, and answers from the stored profile: never for the manager or an allowed app, by the
  profile's own switch or the default otherwise.\<close>

theorem uid_should_umount_spec:
  assumes "allow_inv cfg hf s" "hf uid < ALLOW_LIST_SIZE" "\<not> cfg_disable_policy cfg"
  shows "ksu_uid_should_umount cfg appid allow_shell hf s uid = Some
    (if ksu_is_manager_appid_valid cfg appid \<and> ksu_get_manager_appid cfg appid = uid mod PER_USER_RANGE
     then False
     else (case al_abs hf s uid of
             None \<Rightarrow> al_default_umount s
           | Some a \<Rightarrow> \<not> ap_allow_su a \<and>
               (if ap_use_default a then al_default_umount s else nrp_umount_modules a)), s)"
  using assms by (rule should_umount_eq)

theorem uid_should_umount_spec_witness:
  "allow_inv cfg0 hf0 st1 \<and> hf0 10123 < ALLOW_LIST_SIZE \<and> \<not> cfg_disable_policy cfg0 \<and>
   ksu_uid_should_umount cfg0 (- 1) False hf0 st1 10123 = Some (False, st1)"
proof -
  have "\<not> cfg_disable_policy cfg0" by (simp add: cfg0_def)
  from uid_should_umount_spec [OF st1_inv hf0_bound this, of "- 1" False 10123]
  show ?thesis using st1_inv hf0_bound by (simp add: st1_abs prof0_def cfg0_def)
qed

text \<open>(C8) \<open>ksu_get_root_profile\<close> always returns. The profile is the stored one exactly when the
  policy is enabled, the uid is neither the manager's nor an allowed shell, and its stored profile
  allows su and is not marked default; it is the default profile otherwise. Putting it back restores
  the state.\<close>

theorem get_root_profile_spec:
  assumes "allow_inv cfg hf s" "hf uid < ALLOW_LIST_SIZE"
  shows "\<exists>r s'. ksu_get_root_profile cfg appid allow_shell hf s uid = Some (r, s') \<and>
    ksu_put_root_profile s' r = s \<and>
    root_profile_at s' r = Some (case al_abs hf s uid of
      Some a \<Rightarrow> if ap_allow_su a \<and> \<not> ap_use_default a \<and> \<not> cfg_disable_policy cfg \<and>
                  \<not> is_uid_manager cfg appid uid \<and> \<not> (allow_shell \<and> uid = SHELL_UID)
                then ap_profile a else al_default_root s
    | None \<Rightarrow> al_default_root s)"
  using get_root_profile_granted [OF assms] by (simp only: granted_profile_def)

theorem get_root_profile_spec_witness:
  "allow_inv cfg0 hf0 st1 \<and> hf0 10123 < ALLOW_LIST_SIZE \<and>
   (\<exists>r s'. ksu_get_root_profile cfg0 (- 1) False hf0 st1 10123 = Some (r, s') \<and>
     ksu_put_root_profile s' r = st1 \<and> root_profile_at s' r = Some (ap_profile prof0))"
  using get_root_profile_spec [OF st1_inv hf0_bound, of "- 1" False 10123]
    manager_invalid_none [of cfg0 10123] st1_inv hf0_bound
  by (simp add: st1_abs) (simp add: cfg0_def prof0_def)

text \<open>The list handed to the manager is the first \<open>len\<close> uids, in table order, of the
  profiles with the requested answer other than the manager's own; the two counters are exact, and
  no more than \<open>len\<close> entries are written.\<close>

theorem get_allow_list_spec:
  assumes "allow_inv cfg hf s"
  shows "ksu_get_allow_list cfg appid s len allow =
    (let sel = map ap_curr_uid (filter (selected cfg appid allow) (al_list s)) in
     (take (unat len) sel, of_nat (min (unat len) (length sel)), of_nat (length sel))) \<and>
    length (filter (selected cfg appid allow) (al_list s)) \<le> 65535"
proof -
  have "\<forall>p\<in>set (al_nodes s). al_heap s p \<noteq> None" using inv_storable [OF assms] by fastforce
  then have "ksu_get_allow_list cfg appid s len allow =
    (let sel = map ap_curr_uid (filter (selected cfg appid allow) (al_list s)) in
     (take (unat len) sel, of_nat (min (unat len) (length sel)), of_nat (length sel)))"
    using get_allow_list_loop_spec [of "al_nodes s" "al_heap s" "[]" len cfg appid allow 0]
    by (simp add: ksu_get_allow_list_def al_list_def)
  moreover have "length (filter (selected cfg appid allow) (al_list s)) \<le> 65535"
    using length_filter_le [of "selected cfg appid allow" "al_list s"] al_list_facts(3) [OF assms]
      unat_bound [of "al_count s"] by simp
  ultimately show ?thesis by blast
qed

theorem get_allow_list_spec_witness:
  "allow_inv cfg0 hf0 st0 \<and> ksu_get_allow_list cfg0 (- 1) st0 8 True = ([], 0, 0)"
  using get_allow_list_spec [OF st0_inv, of cfg0 "- 1" 8 True] st0_inv
  by (simp add: al_list_def st0_nodes)

text \<open>(C7) Pruning after boot removes exactly the profiles whose uid and package are no longer
  installed, except the default profile's and the webview zygote's, keeps the invariant, and asks for
  the list to be saved exactly when it removed one.\<close>

theorem prune_allowlist_spec:
  assumes "allow_inv cfg hf s" "\<And>u. hf u < ALLOW_LIST_SIZE"
  shows "allow_inv cfg hf (fst (ksu_prune_allowlist True valid s)) \<and>
    al_abs hf (fst (ksu_prune_allowlist True valid s)) =
      (\<lambda>u. case al_abs hf s u of None \<Rightarrow> None | Some a \<Rightarrow>
         if u \<noteq> KSU_APP_PROFILE_PRESERVE_UID \<and> u \<noteq> WEBVIEW_ZYGOTE_UID \<and> \<not> valid u (ap_key a)
         then None else Some a) \<and>
    (snd (ksu_prune_allowlist True valid s) \<longleftrightarrow> (\<exists>u a. al_abs hf s u = Some a \<and> prunable valid a))"
proof -
  obtain s' m where pr: "ksu_prune_allowlist True valid s = (s', m)" by fastforce
  have "al_abs hf s' u = (case al_abs hf s u of None \<Rightarrow> None | Some a \<Rightarrow>
      if u \<noteq> KSU_APP_PROFILE_PRESERVE_UID \<and> u \<noteq> WEBVIEW_ZYGOTE_UID \<and> \<not> valid u (ap_key a)
      then None else Some a)" for u
  proof -
    have "ap_curr_uid a = u" if "al_abs hf s u = Some a" for a
      using that al_abs_iff [OF assms] by blast
    then show ?thesis
      using prune_spec [OF assms pr, of u] by (auto simp: prunable_def split: option.split)
  qed
  then show ?thesis using prune_spec [OF assms pr] pr by auto
qed

theorem prune_allowlist_spec_witness:
  "allow_inv cfg0 hf0 st1 \<and> al_abs hf0 (fst (ksu_prune_allowlist True (\<lambda>_ _. False) st1)) = Map.empty"
  using prune_allowlist_spec [OF st1_inv hf0_bound, of "\<lambda>_ _. False"] st1_inv
  by (simp add: st1_abs fun_eq_iff)

text \<open>(C9) Exit empties the table and drops the table's reference of every node: a node nobody else
  holds is freed, one that a reader still holds loses one reference and is not freed.\<close>

theorem allowlist_exit_spec:
  assumes "allow_inv cfg hf s" "p \<in> set (al_nodes s)"
  shows "al_nodes (ksu_allowlist_exit s) = [] \<and>
    (\<exists>d. al_heap s p = Some d \<and> al_heap (ksu_allowlist_exit s) p =
       (if pd_ref d = 1 then None else Some (d\<lparr>pd_ref := pd_ref d - 1\<rparr>)))"
proof -
  obtain d where d: "al_heap s p = Some d" "0 < pd_ref d" using assms by (rule node_get)
  have "put_perm_data (al_heap s) p p = (if pd_ref d = 1 then None else Some (d\<lparr>pd_ref := pd_ref d - 1\<rparr>))"
    using d by (auto simp: put_perm_data_def)
  then show ?thesis
    using exit_fold [OF inv_distinct [OF assms(1)], of s p] assms(2) d by (simp add: ksu_allowlist_exit_def)
qed

theorem allowlist_exit_spec_witness:
  "allow_inv cfg0 hf0 st1 \<and> (\<exists>p. p \<in> set (al_nodes st1) \<and> al_nodes (ksu_allowlist_exit st1) = [])"
proof -
  have "al_abs hf0 st1 10123 = Some prof0" by (simp add: st1_abs)
  then obtain p where "p \<in> set (al_nodes st1)" using al_abs_iff [OF st1_inv hf0_bound] by blast
  with allowlist_exit_spec [OF st1_inv this] st1_inv show ?thesis by blast
qed

text \<open>With the adb-only switch on, a shell process is allowed root exactly when the shell uid is
  allowed and one of its nearest 128 ancestors, itself included and none of them init or beyond, is
  adbd or already in the su domain.\<close>

theorem shell_su_adb_only:
  "ksu_is_allow_uid_for_current cfg appid allow_shell hf s l sc True ts current SHELL_UID \<longleftrightarrow>
   ksu_is_allow_uid cfg appid allow_shell hf s SHELL_UID \<and>
   (\<exists>n<MAX_ANCESTOR_DEPTH.
      (is_adbd l sc (Some (tk_cred (ts (ancestor ts n current)))) \<or>
       is_task_ksu_domain l sc (Some (tk_cred (ts (ancestor ts n current))))) \<and>
      (\<forall>k\<le>n. tk_pid (ts (ancestor ts k current)) > 1))"
  by (auto simp: ksu_is_allow_uid_for_current_def ksu_shell_su_allowed_for_current_def
      has_trusted_ancestor_def ancestor_walk_iff ksu_is_uid_granted_root_def)

definition task0 :: task where
  "task0 = \<lparr>tk_pid = 1, tk_tgid = 1, tk_real_parent = 0,
     tk_cred = \<lparr>cr_uid = 0, cr_euid = 0, cr_suid = 0, cr_fsuid = 0, cr_gid = 0, cr_egid = 0,
       cr_sgid = 0, cr_fsgid = 0, cr_securebits = 0, cr_cap_effective = 0, cr_cap_permitted = 0,
       cr_cap_bset = 0, cr_cap_inheritable = 0, cr_cap_ambient = 0, cr_groups = [], cr_user = 0,
       cr_tsec = None\<rparr>,
     tk_mm = True, tk_tracepoint = False, tk_disable_escape = False, tk_seccomp_mode = 0,
     tk_seccomp_filter = None\<rparr>"

theorem shell_su_adb_only_witness:
  "\<not> ksu_is_allow_uid_for_current cfg0 (- 1) True hf0 st1 lsm0
       \<lparr>cached_su_sid = 7, cached_zygote_sid = 0, cached_init_sid = 0, cached_adbd_sid = 0, ksu_file_sid = 0\<rparr>
       True (\<lambda>_. task0) 5 SHELL_UID"
  by (simp add: shell_su_adb_only is_adbd_def is_task_ksu_domain_def is_sid_match_def) (simp add: task0_def)

end
