(* ===== verification/KSU_EventQueue.thy ===== *)
theory KSU_EventQueue
  imports KSU_Prelude
begin

text \<open>
  The event queue of \<open>infra/event_queue.c\<close>: a bounded FIFO of records with many writers and one
  reader, which counts what it had to drop and reports it in a record of its own.

  Every stretch of code under the spinlock is one definition on the queue record. The reader drops
  the spinlock while it copies to user space, so a read is two critical sections with the writers'
  steps in between: \<open>read_drop_begin\<close> and \<open>read_drop_commit\<close> or \<open>read_drop_restore\<close>,
  \<open>read_node_begin\<close> and \<open>read_node_commit\<close>. The whole \<open>read\<close> takes the outcome of each copy and what
  the writers did meanwhile as arguments; the relation \<open>eq_step\<close> interleaves the sections freely.
  Waking waiters has no state.
\<close>

section \<open>State\<close>

record ev_hdr =
  eh_type :: u16
  eh_flags :: u16
  eh_len :: u32
  eh_seq :: u64
  eh_ts :: u64

type_synonym ev_node = "ev_hdr \<times> bytes"

record dropped_info =
  di_dropped :: u64
  di_first_seq :: u64
  di_last_seq :: u64

record equeue =
  q_pending :: "ev_node list"
  q_queued :: u32
  q_max_queued :: u32
  q_max_payload_len :: u32
  q_next_seq :: u64
  q_dropped_total :: u64
  q_dropped_pending :: u64
  q_dropped_first_seq :: u64
  q_dropped_last_seq :: u64
  q_dropped_inflight :: u64
  q_dropped_inflight_first_seq :: u64
  q_dropped_inflight_last_seq :: u64
  q_closed :: bool

abbreviation KSU_EVENT_RECORD_FLAG_INTERNAL :: u16 where "KSU_EVENT_RECORD_FLAG_INTERNAL \<equiv> 1"
abbreviation KSU_EVENT_QUEUE_TYPE_DROPPED :: u16 where "KSU_EVENT_QUEUE_TYPE_DROPPED \<equiv> 0xFFFF"
abbreviation hdr_size :: nat where "hdr_size \<equiv> 24"
abbreviation info_size :: nat where "info_size \<equiv> 24"

definition ksu_event_queue_record_size :: "u32 \<Rightarrow> nat" where
  "ksu_event_queue_record_size payload_len = hdr_size + unat payload_len"

definition ksu_event_queue_note_drop_locked :: "u64 \<Rightarrow> equeue \<Rightarrow> equeue" where
  "ksu_event_queue_note_drop_locked seq q =
     (let q1 = q\<lparr>q_dropped_total := q_dropped_total q + 1\<rparr>;
          q2 = (if q_dropped_pending q1 = 0 then q1\<lparr>q_dropped_first_seq := seq\<rparr> else q1)
      in q2\<lparr>q_dropped_pending := q_dropped_pending q2 + 1, q_dropped_last_seq := seq\<rparr>)"

definition ksu_event_queue_has_data_locked :: "equeue \<Rightarrow> bool" where
  "ksu_event_queue_has_data_locked q \<longleftrightarrow>
     q_dropped_pending q \<noteq> 0 \<or> q_dropped_inflight q \<noteq> 0 \<or> q_pending q \<noteq> []"

definition ksu_event_queue_mark_closed :: "equeue \<Rightarrow> equeue" where
  "ksu_event_queue_mark_closed q = q\<lparr>q_closed := True\<rparr>"

definition ksu_event_queue_init :: "u32 \<Rightarrow> u32 \<Rightarrow> equeue" where
  "ksu_event_queue_init max_queued max_payload_len =
     \<lparr>q_pending = [], q_queued = 0, q_max_queued = max_queued, q_max_payload_len = max_payload_len,
      q_next_seq = 1, q_dropped_total = 0, q_dropped_pending = 0, q_dropped_first_seq = 0,
      q_dropped_last_seq = 0, q_dropped_inflight = 0, q_dropped_inflight_first_seq = 0,
      q_dropped_inflight_last_seq = 0, q_closed = False\<rparr>"

definition ksu_event_queue_destroy :: "equeue \<Rightarrow> equeue" where
  "ksu_event_queue_destroy q =
     (ksu_event_queue_mark_closed q)\<lparr>q_pending := [], q_queued := 0, q_dropped_pending := 0,
        q_dropped_first_seq := 0, q_dropped_last_seq := 0, q_dropped_inflight := 0,
        q_dropped_inflight_first_seq := 0, q_dropped_inflight_last_seq := 0\<rparr>"

section \<open>Writers\<close>

text \<open>\<open>alloc\<close> is whether \<open>kmalloc\<close> returned memory, \<open>now\<close> the value of \<open>ktime_get_ns\<close>.\<close>

definition ksu_event_queue_push ::
  "bool \<Rightarrow> u64 \<Rightarrow> u16 \<Rightarrow> u16 \<Rightarrow> bytes option \<Rightarrow> u32 \<Rightarrow> equeue \<Rightarrow> int \<times> equeue" where
  "ksu_event_queue_push alloc now type flags payload len q =
     (if len > q_max_payload_len q then (- EMSGSIZE, q)
      else if len \<noteq> 0 \<and> payload = None then (- EINVAL, q)
      else if q_closed q then (- EPIPE, q)
      else
        let seq = q_next_seq q;
            q1 = q\<lparr>q_next_seq := q_next_seq q + 1\<rparr>
        in if \<not> alloc \<or> (q_max_queued q1 \<noteq> 0 \<and> q_queued q1 \<ge> q_max_queued q1)
           then ((if alloc then - ENOSPC else - ENOMEM), ksu_event_queue_note_drop_locked seq q1)
           else (0, q1\<lparr>q_pending := q_pending q1 @
                        [(\<lparr>eh_type = type, eh_flags = flags, eh_len = len, eh_seq = seq, eh_ts = now\<rparr>,
                          if len = 0 then [] else take (unat len) (the payload))],
                       q_queued := q_queued q1 + 1\<rparr>))"

definition ksu_event_queue_drop :: "equeue \<Rightarrow> equeue" where
  "ksu_event_queue_drop q =
     (if q_closed q then q
      else ksu_event_queue_note_drop_locked (q_next_seq q) (q\<lparr>q_next_seq := q_next_seq q + 1\<rparr>))"

definition ksu_event_queue_close :: "equeue \<Rightarrow> equeue" where
  "ksu_event_queue_close q = ksu_event_queue_mark_closed q"

definition ksu_event_queue_has_data :: "equeue \<Rightarrow> bool" where
  "ksu_event_queue_has_data q = ksu_event_queue_has_data_locked q"

text \<open>The poll mask as whether it has \<open>POLLIN | POLLRDNORM\<close> and whether it has \<open>POLLHUP\<close>.\<close>

definition ksu_event_queue_poll :: "equeue \<Rightarrow> bool \<times> bool" where
  "ksu_event_queue_poll q = (ksu_event_queue_has_data_locked q, q_closed q)"

section \<open>The reader\<close>

text \<open>Waiting: \<open>qs k\<close> is the queue as the k-th round of the loop finds it, \<open>wait k\<close> what the k-th
  \<open>wait_event_interruptible\<close> returns.\<close>

partial_function (option) ksu_event_queue_wait_ready ::
  "bool \<Rightarrow> (nat \<Rightarrow> equeue) \<Rightarrow> (nat \<Rightarrow> int) \<Rightarrow> nat \<Rightarrow> int option" where
  "ksu_event_queue_wait_ready nonblock qs wait k =
     (if ksu_event_queue_has_data (qs k) then Some 0
      else if q_closed (qs k) then Some 0
      else if nonblock then Some (- EAGAIN)
      else if wait k \<noteq> 0 then Some (wait k)
      else ksu_event_queue_wait_ready nonblock qs wait (Suc k))"

definition read_drop_begin ::
  "u64 \<Rightarrow> nat \<Rightarrow> equeue \<Rightarrow> (int + ev_hdr \<times> dropped_info) \<times> equeue" where
  "read_drop_begin now count q =
     (if q_dropped_pending q = 0 then (Inl 0, q)
      else if count < ksu_event_queue_record_size 24 then (Inl (- EMSGSIZE), q)
      else
        (Inr (\<lparr>eh_type = KSU_EVENT_QUEUE_TYPE_DROPPED, eh_flags = KSU_EVENT_RECORD_FLAG_INTERNAL,
               eh_len = 24, eh_seq = q_dropped_first_seq q, eh_ts = now\<rparr>,
              \<lparr>di_dropped = q_dropped_pending q, di_first_seq = q_dropped_first_seq q,
               di_last_seq = q_dropped_last_seq q\<rparr>),
         q\<lparr>q_dropped_inflight := q_dropped_pending q,
           q_dropped_inflight_first_seq := q_dropped_first_seq q,
           q_dropped_inflight_last_seq := q_dropped_last_seq q,
           q_dropped_pending := 0, q_dropped_first_seq := 0, q_dropped_last_seq := 0\<rparr>))"

definition clear_inflight :: "equeue \<Rightarrow> equeue" where
  "clear_inflight q = q\<lparr>q_dropped_inflight := 0, q_dropped_inflight_first_seq := 0,
     q_dropped_inflight_last_seq := 0\<rparr>"

definition read_drop_commit :: "equeue \<Rightarrow> equeue" where
  "read_drop_commit q = clear_inflight q"

definition read_drop_restore :: "equeue \<Rightarrow> equeue" where
  "read_drop_restore q = clear_inflight
     (if q_dropped_pending q = 0
      then q\<lparr>q_dropped_pending := q_dropped_inflight q,
             q_dropped_first_seq := q_dropped_inflight_first_seq q,
             q_dropped_last_seq := q_dropped_inflight_last_seq q\<rparr>
      else q\<lparr>q_dropped_pending := q_dropped_pending q + q_dropped_inflight q,
             q_dropped_first_seq := q_dropped_inflight_first_seq q\<rparr>)"

definition dropped_info_bytes :: "dropped_info \<Rightarrow> bytes" where
  "dropped_info_bytes i = u64_bytes (di_dropped i) @ u64_bytes (di_first_seq i) @ u64_bytes (di_last_seq i)"

text \<open>One call of \<open>ksu_event_queue_read_drop\<close>: \<open>copied\<close> is whether both copies succeed, \<open>mid\<close> what
  the writers do while the spinlock is free. The result is the return value, what the user buffer
  received and the queue.\<close>

definition ksu_event_queue_read_drop ::
  "bool \<Rightarrow> (equeue \<Rightarrow> equeue) \<Rightarrow> u64 \<Rightarrow> nat \<Rightarrow> equeue \<Rightarrow> int \<times> ev_node list \<times> equeue" where
  "ksu_event_queue_read_drop copied mid now count q =
     (case read_drop_begin now count q of
        (Inl r, q1) \<Rightarrow> (r, [], q1)
      | (Inr (hdr, info), q1) \<Rightarrow>
          if copied then (int (ksu_event_queue_record_size 24), [(hdr, dropped_info_bytes info)],
                          read_drop_commit (mid q1))
          else (- EFAULT, [], read_drop_restore (mid q1)))"

definition read_node_begin :: "nat \<Rightarrow> equeue \<Rightarrow> int + ev_node" where
  "read_node_begin count q = (case q_pending q of
     [] \<Rightarrow> Inl 0
   | node # _ \<Rightarrow>
       if count < ksu_event_queue_record_size (eh_len (fst node)) then Inl (- EMSGSIZE) else Inr node)"

definition read_node_commit :: "ev_node \<Rightarrow> equeue \<Rightarrow> equeue" where
  "read_node_commit node q = q\<lparr>q_pending := remove1 node (q_pending q), q_queued := q_queued q - 1\<rparr>"

definition ksu_event_queue_read_node ::
  "bool \<Rightarrow> (equeue \<Rightarrow> equeue) \<Rightarrow> nat \<Rightarrow> equeue \<Rightarrow> int \<times> ev_node list \<times> equeue" where
  "ksu_event_queue_read_node copied mid count q =
     (case read_node_begin count q of
        Inl r \<Rightarrow> (r, [], q)
      | Inr node \<Rightarrow>
          if copied then (int (ksu_event_queue_record_size (eh_len (fst node))), [node],
                          read_node_commit node (mid q))
          else (- EFAULT, [], mid q))"

function read_loop ::
  "(nat \<Rightarrow> bool) \<Rightarrow> (nat \<Rightarrow> equeue \<Rightarrow> equeue) \<Rightarrow> u64 \<Rightarrow> nat \<Rightarrow> nat \<Rightarrow> int \<Rightarrow> ev_node list \<Rightarrow> equeue \<Rightarrow>
   int \<times> ev_node list \<times> equeue" where
  "read_loop cp mid now k count copied out q =
     (if count = 0 then (copied, out, q)
      else
        (case ksu_event_queue_read_drop (cp k) (mid k) now count q of (ret, recs, q1) \<Rightarrow>
           if ret < 0 then ((if copied = 0 then ret else copied), out, q1)
           else if ret > 0 then
             read_loop cp mid now (Suc k) (count - nat ret) (copied + ret) (out @ recs) q1
           else
             (case ksu_event_queue_read_node (cp k) (mid k) count q1 of (ret, recs, q2) \<Rightarrow>
                if ret < 0 then ((if copied = 0 then ret else copied), out, q2)
                else if ret = 0 then (copied, out, q2)
                else read_loop cp mid now (Suc k) (count - nat ret) (copied + ret) (out @ recs) q2)))"
  by pat_completeness auto
termination
  by (relation "measure (\<lambda>(cp, mid, now, k, count, copied, out, q). count)") auto

declare read_loop.simps [simp del]

text \<open>\<open>locked\<close> is what \<open>mutex_lock_interruptible\<close> returns, \<open>ready\<close> what waiting returns.\<close>

definition ksu_event_queue_read ::
  "int \<Rightarrow> int \<Rightarrow> (nat \<Rightarrow> bool) \<Rightarrow> (nat \<Rightarrow> equeue \<Rightarrow> equeue) \<Rightarrow> u64 \<Rightarrow> nat \<Rightarrow> equeue \<Rightarrow>
   int \<times> ev_node list \<times> equeue" where
  "ksu_event_queue_read locked ready cp mid now count q =
     (if count = 0 then (0, [], q)
      else if locked \<noteq> 0 then (locked, [], q)
      else if ready \<noteq> 0 then (ready, [], q)
      else read_loop cp mid now 0 count 0 [] q)"

section \<open>Interleavings\<close>

text \<open>The reader holds \<open>read_lock\<close> from the beginning of a copy to its end, so \<open>destroy\<close> only runs
  between reads. The state carries, besides the queue and what the reader is copying, the history:
  the nodes accepted, the records delivered, and the nodes \<open>destroy\<close> freed.\<close>

datatype reader = Idle | Copying_drop ev_hdr dropped_info | Copying_node ev_node

record eq_sys =
  es_q :: equeue
  es_reader :: reader
  es_accepted :: "ev_node list"
  es_delivered :: "ev_node list"
  es_reported :: u64
  es_freed :: "ev_node list"
  es_destroyed :: bool

inductive eq_step :: "eq_sys \<Rightarrow> eq_sys \<Rightarrow> bool" where
  push_ok: "ksu_event_queue_push alloc now type flags payload len (es_q s) = (0, q') \<Longrightarrow>
     eq_step s (s\<lparr>es_q := q', es_accepted := es_accepted s @ [last (q_pending q')]\<rparr>)"
| push_fail: "ksu_event_queue_push alloc now type flags payload len (es_q s) = (r, q') \<Longrightarrow> r \<noteq> 0 \<Longrightarrow>
     eq_step s (s\<lparr>es_q := q'\<rparr>)"
| drop: "eq_step s (s\<lparr>es_q := ksu_event_queue_drop (es_q s)\<rparr>)"
| close: "eq_step s (s\<lparr>es_q := ksu_event_queue_close (es_q s)\<rparr>)"
| drop_begin: "es_reader s = Idle \<Longrightarrow> read_drop_begin now count (es_q s) = (Inr (hdr, info), q') \<Longrightarrow>
     eq_step s (s\<lparr>es_q := q', es_reader := Copying_drop hdr info\<rparr>)"
| drop_commit: "es_reader s = Copying_drop hdr info \<Longrightarrow>
     eq_step s (s\<lparr>es_q := read_drop_commit (es_q s), es_reader := Idle,
                  es_reported := es_reported s + di_dropped info\<rparr>)"
| drop_restore: "es_reader s = Copying_drop hdr info \<Longrightarrow>
     eq_step s (s\<lparr>es_q := read_drop_restore (es_q s), es_reader := Idle\<rparr>)"
| node_begin: "es_reader s = Idle \<Longrightarrow> read_node_begin count (es_q s) = Inr node \<Longrightarrow>
     eq_step s (s\<lparr>es_reader := Copying_node node\<rparr>)"
| node_commit: "es_reader s = Copying_node node \<Longrightarrow>
     eq_step s (s\<lparr>es_q := read_node_commit node (es_q s), es_reader := Idle,
                  es_delivered := es_delivered s @ [node]\<rparr>)"
| node_abort: "es_reader s = Copying_node node \<Longrightarrow> eq_step s (s\<lparr>es_reader := Idle\<rparr>)"
| destroy: "es_reader s = Idle \<Longrightarrow>
     eq_step s (s\<lparr>es_q := ksu_event_queue_destroy (es_q s), es_freed := es_freed s @ q_pending (es_q s),
                  es_destroyed := True\<rparr>)"

definition eq_init :: "u32 \<Rightarrow> u32 \<Rightarrow> eq_sys" where
  "eq_init max_queued max_payload_len =
     \<lparr>es_q = ksu_event_queue_init max_queued max_payload_len, es_reader = Idle, es_accepted = [],
      es_delivered = [], es_reported = 0, es_freed = [], es_destroyed = False\<rparr>"

inductive eq_reach :: "u32 \<Rightarrow> u32 \<Rightarrow> eq_sys \<Rightarrow> bool" for mq mp where
  init: "eq_reach mq mp (eq_init mq mp)"
| step: "eq_reach mq mp s \<Longrightarrow> eq_step s s' \<Longrightarrow> eq_reach mq mp s'"

section \<open>Invariant\<close>

definition reader_inv :: "equeue \<Rightarrow> reader \<Rightarrow> bool" where
  "reader_inv q r = (case r of
     Idle \<Rightarrow> q_dropped_inflight q = 0
   | Copying_drop h i \<Rightarrow> q_dropped_inflight q = di_dropped i
   | Copying_node n \<Rightarrow> q_dropped_inflight q = 0 \<and> (\<exists>ns. q_pending q = n # ns))"

definition eq_inv :: "u32 \<Rightarrow> u32 \<Rightarrow> eq_sys \<Rightarrow> bool" where
  "eq_inv mq mp s \<longleftrightarrow>
     es_accepted s = es_delivered s @ es_freed s @ q_pending (es_q s) \<and>
     (if es_destroyed s then q_closed (es_q s) \<and> q_pending (es_q s) = []
      else es_freed s = [] \<and>
        q_dropped_total (es_q s) = es_reported s + q_dropped_pending (es_q s) + q_dropped_inflight (es_q s)) \<and>
     q_next_seq (es_q s) = 1 + of_nat (length (es_accepted s)) + q_dropped_total (es_q s) \<and>
     q_queued (es_q s) = of_nat (length (q_pending (es_q s))) \<and>
     q_max_queued (es_q s) = mq \<and> q_max_payload_len (es_q s) = mp \<and>
     (mq \<noteq> 0 \<longrightarrow> length (q_pending (es_q s)) \<le> unat mq) \<and>
     (\<forall>n\<in>set (q_pending (es_q s)). eh_len (fst n) \<le> mp) \<and>
     reader_inv (es_q s) (es_reader s)"

lemma note_drop_simps [simp]:
  "q_pending (ksu_event_queue_note_drop_locked n q) = q_pending q"
  "q_queued (ksu_event_queue_note_drop_locked n q) = q_queued q"
  "q_max_queued (ksu_event_queue_note_drop_locked n q) = q_max_queued q"
  "q_max_payload_len (ksu_event_queue_note_drop_locked n q) = q_max_payload_len q"
  "q_next_seq (ksu_event_queue_note_drop_locked n q) = q_next_seq q"
  "q_dropped_total (ksu_event_queue_note_drop_locked n q) = q_dropped_total q + 1"
  "q_dropped_pending (ksu_event_queue_note_drop_locked n q) = q_dropped_pending q + 1"
  "q_dropped_inflight (ksu_event_queue_note_drop_locked n q) = q_dropped_inflight q"
  "q_closed (ksu_event_queue_note_drop_locked n q) = q_closed q"
  by (simp_all add: ksu_event_queue_note_drop_locked_def Let_def)

lemma clear_inflight_simps [simp]:
  "q_pending (clear_inflight q) = q_pending q" "q_queued (clear_inflight q) = q_queued q"
  "q_max_queued (clear_inflight q) = q_max_queued q"
  "q_max_payload_len (clear_inflight q) = q_max_payload_len q"
  "q_next_seq (clear_inflight q) = q_next_seq q"
  "q_dropped_total (clear_inflight q) = q_dropped_total q"
  "q_dropped_pending (clear_inflight q) = q_dropped_pending q"
  "q_dropped_inflight (clear_inflight q) = 0" "q_closed (clear_inflight q) = q_closed q"
  by (simp_all add: clear_inflight_def)

text \<open>A push either appends one node, or counts one drop, or does nothing.\<close>

lemma push_cases:
  assumes "ksu_event_queue_push alloc now type flags payload len q = (r, q')"
  obtains (ok) n where "r = 0" "\<not> q_closed q" "eh_len (fst n) \<le> q_max_payload_len q"
      "q_max_queued q = 0 \<or> q_queued q < q_max_queued q"
      "q' = q\<lparr>q_next_seq := q_next_seq q + 1, q_pending := q_pending q @ [n], q_queued := q_queued q + 1\<rparr>"
  | (dropped) "r \<noteq> 0" "\<not> q_closed q"
      "q' = ksu_event_queue_note_drop_locked (q_next_seq q) (q\<lparr>q_next_seq := q_next_seq q + 1\<rparr>)"
  | (refused) "r \<noteq> 0" "q' = q"
proof (cases "len > q_max_payload_len q \<or> (len \<noteq> 0 \<and> payload = None) \<or> q_closed q")
  case True
  then have "r \<noteq> 0" "q' = q" using assms by (auto simp: ksu_event_queue_push_def split: if_splits)
  then show ?thesis by (rule refused)
next
  case open_q: False
  show ?thesis
  proof (cases "\<not> alloc \<or> (q_max_queued q \<noteq> 0 \<and> q_queued q \<ge> q_max_queued q)")
    case True
    have e: "ksu_event_queue_push alloc now type flags payload len q =
        ((if alloc then - ENOSPC else - ENOMEM),
         ksu_event_queue_note_drop_locked (q_next_seq q) (q\<lparr>q_next_seq := q_next_seq q + 1\<rparr>))"
      unfolding ksu_event_queue_push_def Let_def using open_q True by simp
    show ?thesis using assms open_q e by (intro dropped) (auto split: if_splits)
  next
    case False
    let ?n = "(\<lparr>eh_type = type, eh_flags = flags, eh_len = len, eh_seq = q_next_seq q, eh_ts = now\<rparr>,
      if len = 0 then [] else take (unat len) (the payload))"
    have e: "ksu_event_queue_push alloc now type flags payload len q = (0, q\<lparr>q_next_seq := q_next_seq q + 1,
        q_pending := q_pending q @ [?n], q_queued := q_queued q + 1\<rparr>)"
      unfolding ksu_event_queue_push_def Let_def using open_q False by simp
    show ?thesis using assms open_q False e by (intro ok [of ?n]) auto
  qed
qed

lemma u32_room:
  assumes "n \<le> unat (mq :: u32)" "(of_nat n :: u32) < mq"
  shows "Suc n \<le> unat mq"
proof -
  have "n < 2 ^ LENGTH(32)" using assms(1) unat_bound [of mq] by simp
  then have "unat (of_nat n :: u32) = n" by (simp add: unat_of_nat)
  then show ?thesis using assms(2) by (simp add: word_less_nat_alt)
qed

lemma eq_inv_push:
  assumes inv: "eq_inv mq mp s" and p: "ksu_event_queue_push alloc now type flags payload len (es_q s) = (r, q')"
  shows "eq_inv mq mp (s\<lparr>es_q := q',
    es_accepted := es_accepted s @ (if r = 0 then [last (q_pending q')] else [])\<rparr>)"
  using p
proof (cases rule: push_cases)
  case (ok n)
  have "mq \<noteq> 0 \<Longrightarrow> Suc (length (q_pending (es_q s))) \<le> unat mq"
    using inv ok by (intro u32_room) (auto simp: eq_inv_def)
  then show ?thesis
    using inv ok by (cases "es_destroyed s"; cases "es_reader s") (auto simp: eq_inv_def reader_inv_def)
next
  case dropped
  then show ?thesis using inv
    by (cases "es_destroyed s"; cases "es_reader s") (simp_all add: eq_inv_def reader_inv_def)
next
  case refused
  then show ?thesis using inv by simp
qed

lemma eq_inv_drop:
  "eq_inv mq mp s \<Longrightarrow> eq_inv mq mp (s\<lparr>es_q := ksu_event_queue_drop (es_q s)\<rparr>)"
  by (cases "es_destroyed s"; cases "es_reader s")
    (auto simp: eq_inv_def reader_inv_def ksu_event_queue_drop_def)

lemma eq_inv_close:
  "eq_inv mq mp s \<Longrightarrow> eq_inv mq mp (s\<lparr>es_q := ksu_event_queue_close (es_q s)\<rparr>)"
  by (cases "es_reader s")
    (simp_all add: eq_inv_def reader_inv_def ksu_event_queue_close_def ksu_event_queue_mark_closed_def)

lemma eq_inv_read_drop:
  assumes "eq_inv mq mp s"
  shows "es_reader s = Idle \<Longrightarrow> read_drop_begin now count (es_q s) = (Inr (hdr, info), q') \<Longrightarrow>
      eq_inv mq mp (s\<lparr>es_q := q', es_reader := Copying_drop hdr info\<rparr>)"
    and "es_reader s = Copying_drop hdr info \<Longrightarrow>
      eq_inv mq mp (s\<lparr>es_q := read_drop_commit (es_q s), es_reader := Idle,
        es_reported := es_reported s + di_dropped info\<rparr>)"
    and "es_reader s = Copying_drop hdr info \<Longrightarrow>
      eq_inv mq mp (s\<lparr>es_q := read_drop_restore (es_q s), es_reader := Idle\<rparr>)"
  using assms
  by (auto simp: eq_inv_def reader_inv_def read_drop_begin_def read_drop_commit_def
      read_drop_restore_def split: if_splits)

lemma eq_inv_read_node:
  assumes "eq_inv mq mp s"
  shows "es_reader s = Idle \<Longrightarrow> read_node_begin count (es_q s) = Inr node \<Longrightarrow>
      eq_inv mq mp (s\<lparr>es_reader := Copying_node node\<rparr>)"
    and "es_reader s = Copying_node node \<Longrightarrow>
      eq_inv mq mp (s\<lparr>es_q := read_node_commit node (es_q s), es_reader := Idle,
        es_delivered := es_delivered s @ [node]\<rparr>)"
    and "es_reader s = Copying_node node \<Longrightarrow> eq_inv mq mp (s\<lparr>es_reader := Idle\<rparr>)"
  using assms
  by (auto simp: eq_inv_def reader_inv_def read_node_begin_def read_node_commit_def
      split: if_splits list.splits)

lemma eq_inv_destroy:
  assumes "eq_inv mq mp s" "es_reader s = Idle"
  shows "eq_inv mq mp (s\<lparr>es_q := ksu_event_queue_destroy (es_q s),
    es_freed := es_freed s @ q_pending (es_q s), es_destroyed := True\<rparr>)"
  using assms
  by (simp add: eq_inv_def reader_inv_def ksu_event_queue_destroy_def ksu_event_queue_mark_closed_def)

lemma eq_inv_step: "eq_step s s' \<Longrightarrow> eq_inv mq mp s \<Longrightarrow> eq_inv mq mp s'"
proof (induction rule: eq_step.induct)
  case (push_ok alloc now type flags payload len s q')
  then show ?case using eq_inv_push [OF push_ok(2,1)] by simp
next
  case (push_fail alloc now type flags payload len s r q')
  then show ?case using eq_inv_push [OF push_fail(3,1)] by simp
qed (rule eq_inv_drop eq_inv_close eq_inv_read_drop eq_inv_read_node eq_inv_destroy; assumption)+

lemma eq_inv_reach: "eq_reach mq mp s \<Longrightarrow> eq_inv mq mp s"
proof (induction rule: eq_reach.induct)
  case init
  then show ?case by (simp add: eq_init_def eq_inv_def ksu_event_queue_init_def reader_inv_def)
next
  case (step s s')
  then show ?case by (blast intro: eq_inv_step)
qed

section \<open>A read without interference\<close>

definition node_size :: "ev_node \<Rightarrow> nat" where
  "node_size n = ksu_event_queue_record_size (eh_len (fst n))"

text \<open>The longest prefix of whole records that fits.\<close>

fun fits :: "ev_node list \<Rightarrow> nat \<Rightarrow> ev_node list" where
  "fits [] count = []"
| "fits (n # ns) count = (if node_size n \<le> count then n # fits ns (count - node_size n) else [])"

lemma node_size_pos: "0 < node_size n"
  by (simp add: node_size_def ksu_event_queue_record_size_def)

lemma fits_size: "sum_list (map node_size (fits ns count)) \<le> count"
  by (induction ns count rule: fits.induct) auto

lemma fits_prefix: "fits ns count = take (length (fits ns count)) ns"
  by (induction ns count rule: fits.induct) auto

definition take_nodes :: "nat \<Rightarrow> equeue \<Rightarrow> equeue" where
  "take_nodes n q = q\<lparr>q_pending := drop n (q_pending q), q_queued := q_queued q - of_nat n\<rparr>"

lemma read_drop_none: "q_dropped_pending q = 0 \<Longrightarrow> ksu_event_queue_read_drop c m now count q = (0, [], q)"
  by (simp add: ksu_event_queue_read_drop_def read_drop_begin_def)

lemma read_loop_nodes:
  assumes "q_dropped_pending q = 0" "0 \<le> copied"
  shows "read_loop (\<lambda>_. True) (\<lambda>_ q. q) now k count copied out q =
    (let d = fits (q_pending q) count in
     (if count \<noteq> 0 \<and> copied = 0 \<and> d = [] \<and> q_pending q \<noteq> [] then - EMSGSIZE
      else copied + int (sum_list (map node_size d)), out @ d, take_nodes (length d) q))"
  using assms
proof (induction "q_pending q" arbitrary: q k count copied out)
  case Nil
  then show ?case
    by (subst read_loop.simps)
      (simp add: read_drop_none ksu_event_queue_read_node_def read_node_begin_def take_nodes_def)
next
  case (Cons n ns)
  note p = Cons.hyps(2) [symmetric]
  show ?case
  proof (cases "node_size n \<le> count")
    case False
    then show ?thesis using Cons.prems p
      by (subst read_loop.simps)
        (auto simp: read_drop_none ksu_event_queue_read_node_def read_node_begin_def node_size_def take_nodes_def)
  next
    case True
    let ?q = "take_nodes 1 q"
    have sz: "0 < node_size n" by (rule node_size_pos)
    have "read_loop (\<lambda>_. True) (\<lambda>_ q. q) now k count copied out q =
        read_loop (\<lambda>_. True) (\<lambda>_ q. q) now (Suc k) (count - node_size n) (copied + int (node_size n)) (out @ [n]) ?q"
      using Cons.prems p True sz
      by (subst read_loop.simps)
        (auto simp: read_drop_none ksu_event_queue_read_node_def read_node_begin_def
          node_size_def [symmetric] take_nodes_def read_node_commit_def)
    also have "\<dots> = (let d = fits ns (count - node_size n) in
        (copied + int (node_size n) + int (sum_list (map node_size d)), (out @ [n]) @ d, take_nodes (length d) ?q))"
      using Cons.hyps(1) [of ?q] Cons.prems p sz by (simp add: take_nodes_def Let_def)
    finally show ?thesis using p True sz by (simp add: Let_def take_nodes_def algebra_simps)
  qed
qed

text \<open>The record that reports the drops, and the queue without them.\<close>

definition drop_record :: "u64 \<Rightarrow> equeue \<Rightarrow> ev_node" where
  "drop_record now q =
     (\<lparr>eh_type = KSU_EVENT_QUEUE_TYPE_DROPPED, eh_flags = KSU_EVENT_RECORD_FLAG_INTERNAL,
       eh_len = 24, eh_seq = q_dropped_first_seq q, eh_ts = now\<rparr>,
      u64_bytes (q_dropped_pending q) @ u64_bytes (q_dropped_first_seq q) @ u64_bytes (q_dropped_last_seq q))"

definition no_drops :: "equeue \<Rightarrow> equeue" where
  "no_drops q = clear_inflight (q\<lparr>q_dropped_pending := 0, q_dropped_first_seq := 0, q_dropped_last_seq := 0\<rparr>)"

lemma no_drops_simps [simp]:
  "q_dropped_pending (no_drops q) = 0" "q_pending (no_drops q) = q_pending q"
  by (simp_all add: no_drops_def clear_inflight_def)

lemma read_drop_some:
  assumes "q_dropped_pending q \<noteq> 0" "48 \<le> count"
  shows "ksu_event_queue_read_drop True (\<lambda>q. q) now count q = (48, [drop_record now q], no_drops q)"
  using assms by (simp add: ksu_event_queue_read_drop_def read_drop_begin_def drop_record_def no_drops_def
      clear_inflight_def read_drop_commit_def ksu_event_queue_record_size_def dropped_info_bytes_def)

section \<open>Properties\<close>

text \<open>(C5) However writers, the reader, closing and destruction interleave, the queue is a FIFO that
  loses nothing silently. The accepted events are, in order, those delivered, those freed by
  destruction and those still pending; every sequence number handed out is an accepted event or a
  counted drop; until destruction every counted drop has been reported or will be; the length counter
  is exact and never exceeds the bound.\<close>

theorem event_queue_conservation:
  assumes "eq_reach mq mp s"
  shows "es_accepted s = es_delivered s @ es_freed s @ q_pending (es_q s) \<and>
    q_next_seq (es_q s) = 1 + of_nat (length (es_accepted s)) + q_dropped_total (es_q s) \<and>
    (\<not> es_destroyed s \<longrightarrow> es_freed s = [] \<and> q_dropped_total (es_q s) =
       es_reported s + q_dropped_pending (es_q s) + q_dropped_inflight (es_q s)) \<and>
    q_queued (es_q s) = of_nat (length (q_pending (es_q s))) \<and>
    (mq \<noteq> 0 \<longrightarrow> length (q_pending (es_q s)) \<le> unat mq)"
  using eq_inv_reach [OF assms] by (auto simp: eq_inv_def split: if_splits)

theorem event_queue_conservation_witness:
  "\<exists>s. eq_reach 1 8 s \<and> length (q_pending (es_q s)) = 1 \<and> q_dropped_total (es_q s) = 1 \<and>
     q_next_seq (es_q s) = 3"
proof -
  let ?s0 = "eq_init 1 8"
  obtain q1 where q1: "ksu_event_queue_push True 5 1 0 (Some [7]) 1 (es_q ?s0) = (0, q1)"
    "q1 = (es_q ?s0)\<lparr>q_next_seq := 2, q_queued := 1, q_pending :=
      [(\<lparr>eh_type = 1, eh_flags = 0, eh_len = 1, eh_seq = 1, eh_ts = 5\<rparr>, [7])]\<rparr>"
    by (simp add: eq_init_def ksu_event_queue_push_def ksu_event_queue_init_def Let_def)
  let ?s1 = "?s0\<lparr>es_q := q1, es_accepted := es_accepted ?s0 @ [last (q_pending q1)]\<rparr>"
  let ?s2 = "?s1\<lparr>es_q := ksu_event_queue_drop (es_q ?s1)\<rparr>"
  have r: "eq_reach 1 8 ?s2"
    by (rule eq_reach.step [OF eq_reach.step [OF eq_reach.init eq_step.push_ok [OF q1(1)]] eq_step.drop])
  have a: "length (q_pending (es_q ?s2)) = 1" "q_dropped_total (es_q ?s2) = 1"
    by (simp_all add: q1(2) ksu_event_queue_drop_def eq_init_def ksu_event_queue_init_def)
  have "q_next_seq (es_q ?s2) = 1 + of_nat (length (es_accepted ?s2)) + q_dropped_total (es_q ?s2)"
    using event_queue_conservation [OF r] by blast
  then have "q_next_seq (es_q ?s2) = 3" using a(2) by (simp add: eq_init_def)
  with a r show ?thesis by blast
qed

text \<open>(C6) An uninterrupted read into a buffer of \<open>count\<close> bytes delivers, if there were drops, the
  record that reports them, and then the longest prefix of the pending events that fits as whole
  records; it removes exactly what it delivers and returns its size. It fails with \<open>-EMSGSIZE\<close>,
  changing nothing, exactly when there is a record but the first does not fit.\<close>

theorem event_queue_read_spec:
  assumes "0 < count"
  shows "ksu_event_queue_read 0 0 (\<lambda>_. True) (\<lambda>_ q. q) now count q =
    (if q_dropped_pending q = 0 then
       (let d = fits (q_pending q) count in
        if d = [] \<and> q_pending q \<noteq> [] then (- EMSGSIZE, [], q)
        else (int (sum_list (map node_size d)), d, take_nodes (length d) q))
     else if count < 48 then (- EMSGSIZE, [], q)
     else
       (let d = fits (q_pending q) (count - 48) in
        (48 + int (sum_list (map node_size d)), drop_record now q # d, take_nodes (length d) (no_drops q))))"
proof (cases "q_dropped_pending q = 0")
  case True
  then show ?thesis using assms
    by (auto simp: ksu_event_queue_read_def read_loop_nodes Let_def take_nodes_def)
next
  case False
  show ?thesis
  proof (cases "count < 48")
    case True
    then show ?thesis using assms False
      by (auto simp: ksu_event_queue_read_def read_loop.simps [of _ _ _ _ count]
          ksu_event_queue_read_drop_def read_drop_begin_def ksu_event_queue_record_size_def)
  next
    case big: False
    then have "ksu_event_queue_read 0 0 (\<lambda>_. True) (\<lambda>_ q. q) now count q =
        read_loop (\<lambda>_. True) (\<lambda>_ q. q) now 1 (count - 48) 48 [drop_record now q] (no_drops q)"
      using assms False
      by (simp add: ksu_event_queue_read_def read_loop.simps [of _ _ _ _ count] read_drop_some)
    then show ?thesis using False big by (simp add: read_loop_nodes Let_def)
  qed
qed

theorem event_queue_read_spec_witness:
  "(0 :: nat) < 100 \<and>
   ksu_event_queue_read 0 0 (\<lambda>_. True) (\<lambda>_ q. q) 9 100 (ksu_event_queue_drop (ksu_event_queue_init 4 8)) =
     (48, [drop_record 9 (ksu_event_queue_drop (ksu_event_queue_init 4 8))],
      take_nodes 0 (no_drops (ksu_event_queue_drop (ksu_event_queue_init 4 8))))"
proof -
  have "q_dropped_pending (ksu_event_queue_drop (ksu_event_queue_init 4 8)) = 1"
    "q_pending (ksu_event_queue_drop (ksu_event_queue_init 4 8)) = []"
    by (simp_all add: ksu_event_queue_drop_def ksu_event_queue_init_def)
  then show ?thesis using event_queue_read_spec [of 100 9] by simp
qed

end
