(* ===== verification/KSU_Feature.thy ===== *)
theory KSU_Feature
  imports KSU_Prelude
begin

text \<open>
  The feature registry of \<open>policy/feature.c\<close>: the table of handlers, the \<open>force_feature\<close> module
  parameter, and setting, reading and forcing a feature.

  Handlers live in other parts of the module; a handler acts on the state \<open>'w\<close> of the module, of
  which the registry knows nothing. The kernel's \<open>kstrtou32\<close> and \<open>kstrtou64\<close> are the parameters
  \<open>kstrtou32 base s\<close> and \<open>kstrtou64 base s\<close>, an error code and a value. Bitmaps are predicates on the
  feature id.
\<close>

section \<open>State\<close>

abbreviation KSU_FEATURE_SU_COMPAT :: u32 where "KSU_FEATURE_SU_COMPAT \<equiv> 0"
abbreviation KSU_FEATURE_KERNEL_UMOUNT :: u32 where "KSU_FEATURE_KERNEL_UMOUNT \<equiv> 1"
abbreviation KSU_FEATURE_SULOG :: u32 where "KSU_FEATURE_SULOG \<equiv> 2"
abbreviation KSU_FEATURE_ADB_ROOT :: u32 where "KSU_FEATURE_ADB_ROOT \<equiv> 3"
abbreviation KSU_FEATURE_SELINUX_HIDE :: u32 where "KSU_FEATURE_SELINUX_HIDE \<equiv> 4"
abbreviation KSU_FEATURE_SHELL_SU_ADB_ONLY :: u32 where "KSU_FEATURE_SHELL_SU_ADB_ONLY \<equiv> 6"
abbreviation KSU_FEATURE_AVC_SPOOF :: u32 where "KSU_FEATURE_AVC_SPOOF \<equiv> 10003"
abbreviation KSU_FEATURE_MAX :: u32 where "KSU_FEATURE_MAX \<equiv> 10004"

record 'w feature_handler =
  fh_id :: u32
  fh_name :: "bytes option"
  fh_get :: "('w \<Rightarrow> u64 \<Rightarrow> int \<times> u64) option"
  fh_set :: "(u64 \<Rightarrow> 'w \<Rightarrow> int \<times> 'w) option"

record 'w feature_state =
  ft_handlers :: "u32 \<Rightarrow> 'w feature_handler option"
  ft_values :: "u32 \<Rightarrow> u64"
  ft_mask :: "u32 \<Rightarrow> bool"
  ft_pending :: "u32 \<Rightarrow> bool"

definition feature_names :: "(u32 \<times> bytes) list" where
  "feature_names = [(KSU_FEATURE_SU_COMPAT, chars ''su_compat''),
     (KSU_FEATURE_KERNEL_UMOUNT, chars ''kernel_umount''), (KSU_FEATURE_SULOG, chars ''sulog''),
     (KSU_FEATURE_ADB_ROOT, chars ''adb_root''), (KSU_FEATURE_SELINUX_HIDE, chars ''selinux_hide''),
     (KSU_FEATURE_SHELL_SU_ADB_ONLY, chars ''shell_su_adb_only''),
     (KSU_FEATURE_AVC_SPOOF, chars ''avc_spoof'')]"

section \<open>The module parameter\<close>

definition parse_feature_id :: "(nat \<Rightarrow> bytes \<Rightarrow> int \<times> u32) \<Rightarrow> bytes \<Rightarrow> int \<times> u32" where
  "parse_feature_id kstrtou32 name =
     (case kstrtou32 10 name of (err, v) \<Rightarrow>
        if err = 0 then ((if v < KSU_FEATURE_MAX then 0 else - EINVAL), v)
        else (case find (\<lambda>(i, n). n = cstr name) feature_names of
                Some (i, n) \<Rightarrow> (0, i)
              | None \<Rightarrow> (- EINVAL, v)))"

definition force_entry ::
  "(nat \<Rightarrow> bytes \<Rightarrow> int \<times> u32) \<Rightarrow> (nat \<Rightarrow> bytes \<Rightarrow> int \<times> u64) \<Rightarrow> bytes \<Rightarrow> 'w feature_state \<Rightarrow> 'w feature_state" where
  "force_entry kstrtou32 kstrtou64 e st =
     (let name = takeWhile (\<lambda>c. c \<noteq> 58) e;
          sep = 58 \<in> set e;
          num = (if sep then drop (Suc (length name)) e else []);
          name_len = (if sep then length name else 0);
          num_len = length num
      in if name_len = 0 \<or> name_len \<ge> 32 \<or> num_len = 0 \<or> num_len \<ge> 24 then st
         else (case parse_feature_id kstrtou32 name of (r, fid) \<Rightarrow>
           if r \<noteq> 0 then st
           else (case kstrtou64 0 num of (r2, value) \<Rightarrow>
             if r2 \<noteq> 0 then st
             else st\<lparr>ft_values := (ft_values st)(fid := value), ft_mask := (ft_mask st)(fid := True),
                     ft_pending := (ft_pending st)(fid := True)\<rparr>)))"

function force_loop ::
  "(nat \<Rightarrow> bytes \<Rightarrow> int \<times> u32) \<Rightarrow> (nat \<Rightarrow> bytes \<Rightarrow> int \<times> u64) \<Rightarrow> bytes \<Rightarrow> 'w feature_state \<Rightarrow> 'w feature_state" where
  "force_loop kstrtou32 kstrtou64 p st =
     (if p = [] then st
      else
        let e = takeWhile (\<lambda>c. c \<noteq> 44) p;
            p' = drop (Suc (length e)) p
        in force_loop kstrtou32 kstrtou64 p'
             (if e = [] then st else force_entry kstrtou32 kstrtou64 e st))"
  by pat_completeness auto
termination
  by (relation "measure (\<lambda>(k32, k64, p, st). length p)") (auto simp: Let_def neq_Nil_conv)

declare force_loop.simps [simp del]

definition force_feature_param_set ::
  "(nat \<Rightarrow> bytes \<Rightarrow> int \<times> u32) \<Rightarrow> (nat \<Rightarrow> bytes \<Rightarrow> int \<times> u64) \<Rightarrow> bytes option \<Rightarrow> 'w feature_state \<Rightarrow>
   int \<times> 'w feature_state" where
  "force_feature_param_set kstrtou32 kstrtou64 val st = (case val of
     None \<Rightarrow> (0, st)
   | Some v \<Rightarrow> (0, force_loop kstrtou32 kstrtou64 (cstr v) st))"

section \<open>Registering\<close>

definition ksu_register_feature_handler ::
  "'w feature_handler option \<Rightarrow> 'w feature_state \<Rightarrow> int \<times> 'w feature_state" where
  "ksu_register_feature_handler handler st = (case handler of
     None \<Rightarrow> (- EINVAL, st)
   | Some h \<Rightarrow>
       if fh_id h \<ge> KSU_FEATURE_MAX then (- EINVAL, st)
       else if fh_get h = None \<and> fh_set h = None then (- EINVAL, st)
       else (0, st\<lparr>ft_handlers := (ft_handlers st)(fh_id h := Some h)\<rparr>))"

definition ksu_unregister_feature_handler :: "u32 \<Rightarrow> 'w feature_state \<Rightarrow> int \<times> 'w feature_state" where
  "ksu_unregister_feature_handler feature_id st =
     (if feature_id \<ge> KSU_FEATURE_MAX then (- EINVAL, st)
      else if ft_handlers st feature_id = None then (- ENOENT, st)
      else (0, st\<lparr>ft_handlers := (ft_handlers st)(feature_id := None)\<rparr>))"

section \<open>Reading and setting\<close>

text \<open>The return code, \<open>*value\<close> and \<open>*supported\<close>; \<open>value0\<close> and \<open>supported0\<close> are what the
  caller's variables held.\<close>

definition ksu_get_feature ::
  "'w feature_state \<Rightarrow> 'w \<Rightarrow> u32 \<Rightarrow> u64 \<Rightarrow> bool \<Rightarrow> int \<times> u64 \<times> bool" where
  "ksu_get_feature st w feature_id value0 supported0 =
     (if feature_id \<ge> KSU_FEATURE_MAX then (- EINVAL, value0, supported0)
      else (case ft_handlers st feature_id of
        None \<Rightarrow> (0, 0, False)
      | Some h \<Rightarrow>
          (case fh_get h of
             None \<Rightarrow> (- EOPNOTSUPP, value0, True)
           | Some get \<Rightarrow> (case get w value0 of (ret, value) \<Rightarrow> (ret, value, True)))))"

definition ksu_set_feature :: "'w feature_state \<Rightarrow> u32 \<Rightarrow> u64 \<Rightarrow> 'w \<Rightarrow> int \<times> 'w" where
  "ksu_set_feature st feature_id value w =
     (if feature_id \<ge> KSU_FEATURE_MAX then (- EINVAL, w)
      else if ft_mask st feature_id then (- EPERM, w)
      else (case ft_handlers st feature_id of
        None \<Rightarrow> (- EOPNOTSUPP, w)
      | Some h \<Rightarrow>
          (case fh_set h of
             None \<Rightarrow> (- EOPNOTSUPP, w)
           | Some setter \<Rightarrow> setter value w)))"

definition ksu_feature_is_forced :: "'w feature_state \<Rightarrow> u32 \<Rightarrow> bool" where
  "ksu_feature_is_forced st feature_id \<longleftrightarrow> feature_id < KSU_FEATURE_MAX \<and> ft_mask st feature_id"

definition apply_forced_one :: "u32 \<Rightarrow> 'w feature_state \<times> 'w \<Rightarrow> 'w feature_state \<times> 'w" where
  "apply_forced_one fid stw = (case stw of (st, w) \<Rightarrow>
     if \<not> ft_pending st fid then (st, w)
     else (case ft_handlers st fid of
       None \<Rightarrow> (st, w)
     | Some h \<Rightarrow>
         (case fh_set h of
            None \<Rightarrow> (st, w)
          | Some setter \<Rightarrow>
              (case setter (ft_values st fid) w of (ret, w') \<Rightarrow>
                 if ret \<noteq> 0 then (st, w')
                 else (st\<lparr>ft_pending := (ft_pending st)(fid := False)\<rparr>, w')))))"

definition feature_ids :: "u32 list" where
  "feature_ids = map of_nat [0..<unat KSU_FEATURE_MAX]"

definition ksu_feature_apply_forced :: "'w feature_state \<Rightarrow> 'w \<Rightarrow> 'w feature_state \<times> 'w" where
  "ksu_feature_apply_forced st w = fold apply_forced_one feature_ids (st, w)"

definition ksu_feature_init :: "'w feature_state \<Rightarrow> 'w feature_state" where
  "ksu_feature_init st = st\<lparr>ft_handlers := (\<lambda>_. None)\<rparr>"

definition ksu_feature_exit :: "'w feature_state \<Rightarrow> 'w feature_state" where
  "ksu_feature_exit st = st\<lparr>ft_handlers := (\<lambda>_. None)\<rparr>"

section \<open>Lemmas: applying forced values\<close>

lemma apply_forced_one_frame:
  "apply_forced_one i (st, w) = (st', w') \<Longrightarrow>
   ft_handlers st' = ft_handlers st \<and> ft_values st' = ft_values st \<and> ft_mask st' = ft_mask st"
  by (auto simp: apply_forced_one_def split: if_splits option.splits prod.splits)

text \<open>An invariant of the module's state that every handler keeps when called for one of the listed
  ids with its forced value survives the loop.\<close>

lemma apply_forced_fold:
  assumes "\<And>i h f w. i \<in> set ids \<Longrightarrow> ft_pending st i \<Longrightarrow> ft_handlers st i = Some h \<Longrightarrow> fh_set h = Some f \<Longrightarrow> P w \<Longrightarrow>
      P (snd (f (ft_values st i) w))"
    and "P w" "distinct ids"
  shows "case fold apply_forced_one ids (st, w) of (st', w') \<Rightarrow>
    P w' \<and> ft_handlers st' = ft_handlers st \<and> ft_values st' = ft_values st \<and> ft_mask st' = ft_mask st \<and>
    (\<forall>i. i \<notin> set ids \<longrightarrow> ft_pending st' i = ft_pending st i)"
  using assms
proof (induction ids arbitrary: st w)
  case Nil
  then show ?case by simp
next
  case (Cons i ids)
  obtain st1 w1 where s: "apply_forced_one i (st, w) = (st1, w1)" by fastforce
  note fr = apply_forced_one_frame [OF s]
  have P1: "P w1" using s Cons.prems(1) [of i] Cons.prems(2)
    by (fastforce simp: apply_forced_one_def split: if_splits option.splits prod.splits)
  have pend: "ft_pending st1 j = ft_pending st j" if "j \<noteq> i" for j
    using s that by (auto simp: apply_forced_one_def split: if_splits option.splits prod.splits)
  have "case fold apply_forced_one ids (st1, w1) of (st', w') \<Rightarrow>
    P w' \<and> ft_handlers st' = ft_handlers st1 \<and> ft_values st' = ft_values st1 \<and> ft_mask st' = ft_mask st1 \<and>
    (\<forall>i. i \<notin> set ids \<longrightarrow> ft_pending st' i = ft_pending st1 i)"
  proof (rule Cons.IH)
    show "P (snd (f (ft_values st1 j) v))"
      if "j \<in> set ids" "ft_pending st1 j" "ft_handlers st1 j = Some h" "fh_set h = Some f" "P v" for j h f v
      using that Cons.prems(1) [of j h f v] Cons.prems(3) fr pend by (metis distinct.simps(2) list.set_intros(2))
  qed (use P1 Cons.prems(3) in auto)
  then show ?case using s fr pend by (auto split: prod.splits)
qed

lemma feature_ids_distinct: "distinct feature_ids"
proof -
  have "inj_on (of_nat :: nat \<Rightarrow> u32) {0..<10004}"
  proof (rule inj_onI)
    fix x y :: nat
    assume "x \<in> {0..<10004}" "y \<in> {0..<10004}" "(of_nat x :: u32) = of_nat y"
    then have "unat (of_nat x :: u32) = unat (of_nat y :: u32)" "x < 2 ^ 32" "y < 2 ^ 32" by auto
    then show "x = y" by (simp add: unat_of_nat)
  qed
  then show ?thesis by (simp add: feature_ids_def distinct_map)
qed

lemma feature_ids_set: "i \<in> set feature_ids \<longleftrightarrow> i < KSU_FEATURE_MAX"
proof
  assume "i < KSU_FEATURE_MAX"
  then have "unat i < 10004" by (simp add: word_less_nat_alt)
  moreover have "i = of_nat (unat i)" by simp
  ultimately show "i \<in> set feature_ids" unfolding feature_ids_def
    by (auto simp: image_iff intro!: bexI [of _ "unat i"])
next
  assume "i \<in> set feature_ids"
  then obtain n where n: "i = of_nat n" "n < 10004" by (auto simp: feature_ids_def)
  then have "unat i = n" by (simp add: unat_of_nat)
  with n show "i < KSU_FEATURE_MAX" by (simp add: word_less_nat_alt)
qed

lemma apply_forced_mono:
  "\<not> ft_pending st i \<Longrightarrow> \<not> ft_pending (fst (fold apply_forced_one ids (st, w))) i"
proof (induction ids arbitrary: st w)
  case Nil
  then show ?case by simp
next
  case (Cons j ids)
  obtain st1 w1 where s: "apply_forced_one j (st, w) = (st1, w1)" by fastforce
  have "\<not> ft_pending st1 i"
    using s Cons.prems by (auto simp: apply_forced_one_def split: if_splits option.splits prod.splits)
  then show ?case using Cons.IH [of st1 w1] s by simp
qed

lemma apply_forced_clears:
  assumes "\<And>i. i \<in> set ids \<Longrightarrow> ft_pending st i \<Longrightarrow>
      \<exists>h f. ft_handlers st i = Some h \<and> fh_set h = Some f \<and> (\<forall>v w. fst (f v w) = 0)"
    and "i \<in> set ids"
  shows "\<not> ft_pending (fst (fold apply_forced_one ids (st, w))) i"
  using assms
proof (induction ids arbitrary: st w)
  case Nil
  then show ?case by simp
next
  case (Cons j ids)
  obtain st1 w1 where s: "apply_forced_one j (st, w) = (st1, w1)" by fastforce
  note fr = apply_forced_one_frame [OF s]
  have mono: "ft_pending st1 k \<Longrightarrow> ft_pending st k" for k
    using apply_forced_mono [of st k "[j]" w] s by auto
  have cleared: "\<not> ft_pending st1 j"
    using s Cons.prems(1) [of j] by (cases "ft_pending st j")
      (auto simp: apply_forced_one_def split: if_splits option.splits prod.splits, metis fst_conv)
  have rest: "\<exists>h f. ft_handlers st1 k = Some h \<and> fh_set h = Some f \<and> (\<forall>v w. fst (f v w) = 0)"
    if "k \<in> set ids" "ft_pending st1 k" for k using Cons.prems(1) [of k] that mono fr by simp
  show ?case
  proof (cases "i \<in> set ids")
    case True
    then show ?thesis using Cons.IH [of st1 w1, OF rest] s by simp
  next
    case False
    then show ?thesis using Cons.prems(2) cleared apply_forced_mono [of st1 i ids w1] s by simp
  qed
qed

lemma apply_forced_idle:
  "(\<And>i. i \<in> set ids \<Longrightarrow> \<not> ft_pending st i) \<Longrightarrow> fold apply_forced_one ids (st, w) = (st, w)"
  by (induction ids) (auto simp: apply_forced_one_def)

section \<open>Lemmas: the parameter string\<close>

text \<open>A well-formed entry: name and number without separators, of admissible length.\<close>

definition entry_ok :: "bytes \<times> bytes \<Rightarrow> bool" where
  "entry_ok e = (case e of (name, num) \<Rightarrow>
     0 < length name \<and> length name < 32 \<and> 0 < length num \<and> length num < 24 \<and>
     set name \<inter> {0, 44, 58} = {} \<and> set num \<inter> {0, 44} = {})"

definition entry_text :: "bytes \<times> bytes \<Rightarrow> bytes" where
  "entry_text e = fst e @ 58 # snd e"

definition force_one ::
  "(nat \<Rightarrow> bytes \<Rightarrow> int \<times> u32) \<Rightarrow> (nat \<Rightarrow> bytes \<Rightarrow> int \<times> u64) \<Rightarrow> bytes \<times> bytes \<Rightarrow> 'w feature_state \<Rightarrow> 'w feature_state" where
  "force_one k32 k64 e st =
     (let (r, i) = parse_feature_id k32 (fst e); (r2, v) = k64 0 (snd e)
      in if r = 0 \<and> r2 = 0
         then st\<lparr>ft_values := (ft_values st)(i := v), ft_mask := (ft_mask st)(i := True),
                 ft_pending := (ft_pending st)(i := True)\<rparr>
         else st)"

fun join_entries :: "(bytes \<times> bytes) list \<Rightarrow> bytes" where
  "join_entries [] = []"
| "join_entries [e] = entry_text e"
| "join_entries (e # es) = entry_text e @ 44 # join_entries es"

lemma force_entry_text:
  assumes "entry_ok e"
  shows "force_entry k32 k64 (entry_text e) st = force_one k32 k64 e st"
proof -
  obtain name num where e: "e = (name, num)" by fastforce
  have "takeWhile (\<lambda>c. c \<noteq> 58) (entry_text e) = name"
    using assms by (simp add: e entry_text_def entry_ok_def)
  then show ?thesis
    using assms by (auto simp: force_entry_def force_one_def e entry_ok_def entry_text_def Let_def
        split: prod.split)
qed

lemma force_loop_step:
  assumes "44 \<notin> set e" "e \<noteq> []"
  shows "force_loop k32 k64 e st = force_entry k32 k64 e st"
    and "force_loop k32 k64 (e @ 44 # p) st = force_loop k32 k64 p (force_entry k32 k64 e st)"
proof -
  have t: "takeWhile (\<lambda>c. c \<noteq> 44) e = e" "takeWhile (\<lambda>c. c \<noteq> 44) (e @ 44 # p) = e"
    using assms(1) by (simp_all add: takeWhile_nosep)
  show "force_loop k32 k64 e st = force_entry k32 k64 e st"
    using assms(2) by (subst force_loop.simps) (simp add: t Let_def force_loop.simps [of _ _ "[]"])
  show "force_loop k32 k64 (e @ 44 # p) st = force_loop k32 k64 p (force_entry k32 k64 e st)"
    using assms(2) by (subst force_loop.simps) (simp add: t Let_def)
qed

lemma force_loop_join:
  "list_all entry_ok es \<Longrightarrow> force_loop k32 k64 (join_entries es) st = fold (force_one k32 k64) es st"
proof (induction es arbitrary: st rule: join_entries.induct)
  case 1
  then show ?case by (simp add: force_loop.simps)
next
  case (2 e)
  have "44 \<notin> set (entry_text e)" using 2 by (auto simp: entry_ok_def entry_text_def split: prod.splits)
  moreover have "entry_text e \<noteq> []" by (simp add: entry_text_def)
  ultimately show ?case using 2 by (simp add: force_loop_step force_entry_text)
next
  case (3 e f es)
  have "44 \<notin> set (entry_text e)" using 3 by (auto simp: entry_ok_def entry_text_def split: prod.splits)
  moreover have "entry_text e \<noteq> []" by (simp add: entry_text_def)
  ultimately show ?case using 3 by (simp add: force_loop_step force_entry_text)
qed

lemma join_entries_nonzero: "list_all entry_ok es \<Longrightarrow> 0 \<notin> set (join_entries es)"
  by (induction es rule: join_entries.induct) (auto simp: entry_ok_def entry_text_def split: prod.splits)

section \<open>Properties\<close>

text \<open>(C10) A feature forced by the boot configuration cannot be changed at run time. A request to set
  it is refused with \<open>-EPERM\<close> and does nothing; and any property of the module's state that survives
  every handler except this feature's handler called with another value survives every request to set
  any feature and every application of the forced values, which also leave it forced.\<close>

theorem forced_feature_protected:
  assumes "i < KSU_FEATURE_MAX" "ft_mask st i"
    and "\<And>j h f v w. ft_handlers st j = Some h \<Longrightarrow> fh_set h = Some f \<Longrightarrow> j \<noteq> i \<or> v = ft_values st i \<Longrightarrow>
      P w \<Longrightarrow> P (snd (f v w))"
    and "P w"
  shows "ksu_set_feature st i v w = (- EPERM, w) \<and> P (snd (ksu_set_feature st j v w)) \<and>
    P (snd (ksu_feature_apply_forced st w)) \<and>
    ksu_feature_is_forced (fst (ksu_feature_apply_forced st w)) i"
proof -
  have "P (snd (ksu_set_feature st j v w))"
    using assms by (cases "j = i") (auto simp: ksu_set_feature_def split: option.split)
  moreover have "case fold apply_forced_one feature_ids (st, w) of (st', w') \<Rightarrow>
    P w' \<and> ft_handlers st' = ft_handlers st \<and> ft_values st' = ft_values st \<and> ft_mask st' = ft_mask st \<and>
    (\<forall>i. i \<notin> set feature_ids \<longrightarrow> ft_pending st' i = ft_pending st i)"
    using assms(3,4) feature_ids_distinct by (intro apply_forced_fold) auto
  ultimately show ?thesis using assms(1,2)
    by (auto simp: ksu_set_feature_def ksu_feature_apply_forced_def ksu_feature_is_forced_def
        split: prod.splits)
qed

definition handler0 :: "u64 feature_handler" where
  "handler0 = \<lparr>fh_id = 3, fh_name = None, fh_get = Some (\<lambda>w _. (0, w)), fh_set = Some (\<lambda>v _. (0, v))\<rparr>"

definition features0 :: "u64 feature_state" where
  "features0 = \<lparr>ft_handlers = (\<lambda>_. None)(3 := Some handler0), ft_values = (\<lambda>_. 1),
     ft_mask = (\<lambda>j. j = 3), ft_pending = (\<lambda>j. j = 3)\<rparr>"

theorem forced_feature_protected_witness:
  "ft_mask features0 3 \<and> ksu_set_feature features0 3 0 1 = (- EPERM, 1) \<and>
   snd (ksu_feature_apply_forced features0 1) = 1"
proof -
  have "(3 :: u32) < KSU_FEATURE_MAX" "ft_mask features0 3" by (simp_all add: features0_def)
  moreover have "snd (f v w) = 1"
    if "ft_handlers features0 j = Some h" "fh_set h = Some f" "j \<noteq> 3 \<or> v = ft_values features0 3" "w = 1"
    for j h f v w using that by (auto simp: features0_def handler0_def split: if_splits)
  ultimately show ?thesis
    using forced_feature_protected [of 3 features0 "\<lambda>w. w = 1" 1 0 3] by blast
qed

text \<open>When every pending feature has a setter that succeeds, applying the forced values leaves
  nothing pending and applying them again changes nothing.\<close>

theorem apply_forced_complete:
  assumes "\<And>i. i < KSU_FEATURE_MAX \<Longrightarrow> ft_pending st i \<Longrightarrow>
      \<exists>h f. ft_handlers st i = Some h \<and> fh_set h = Some f \<and> (\<forall>v w. fst (f v w) = 0)"
  shows "case ksu_feature_apply_forced st w of (st', w') \<Rightarrow>
    (\<forall>i<KSU_FEATURE_MAX. \<not> ft_pending st' i) \<and> ksu_feature_apply_forced st' w' = (st', w')"
proof -
  obtain st' w' where f: "fold apply_forced_one feature_ids (st, w) = (st', w')" by fastforce
  have "\<not> ft_pending st' i" if "i < KSU_FEATURE_MAX" for i
    using apply_forced_clears [of feature_ids st i w] assms that f by (simp add: feature_ids_set)
  then show ?thesis
    using apply_forced_idle [of feature_ids st' w'] f
    by (simp add: ksu_feature_apply_forced_def feature_ids_set)
qed

theorem apply_forced_complete_witness:
  "case ksu_feature_apply_forced features0 0 of (st', w') \<Rightarrow>
    (\<forall>i<KSU_FEATURE_MAX. \<not> ft_pending st' i) \<and> ksu_feature_apply_forced st' w' = (st', w')"
  by (rule apply_forced_complete) (auto simp: features0_def handler0_def)


definition digit32 :: "nat \<Rightarrow> bytes \<Rightarrow> int \<times> u32" where
  "digit32 base s = (case s of [c] \<Rightarrow> if 48 \<le> c \<and> c \<le> 57 then (0, ucast (c - 48)) else (- EINVAL, 0) | _ \<Rightarrow> (- EINVAL, 0))"

definition digit64 :: "nat \<Rightarrow> bytes \<Rightarrow> int \<times> u64" where
  "digit64 base s = (case s of [c] \<Rightarrow> if 48 \<le> c \<and> c \<le> 57 then (0, ucast (c - 48)) else (- EINVAL, 0) | _ \<Rightarrow> (- EINVAL, 0))"


end
