(* ===== verification/KSU_Sulog.thy ===== *)
theory KSU_Sulog
  imports KSU_EventQueue KSU_Feature KSU_Cred
begin

text \<open>
  The su log: building event records from a task and from user memory (\<open>sulog/event.c\<close>), the log
  file descriptor (\<open>sulog/fd.c\<close>), the feature switch (\<open>feature/sulog.c\<close>) and the ring kept for an
  older log reader.

  User memory is the record \<open>uenv\<close>: \<open>strncpy_from_user_nofault\<close> at an address with a bound gives a
  return value and the bytes it stored; \<open>get_user\<close> on the argument vector gives a pointer or a
  fault. A store into a kernel buffer is \<open>buf_write\<close>, which is \<open>None\<close> where it would leave the
  buffer, so that a result says that no store did. Unsigned 32-bit lengths are \<open>int\<close> with the
  wrap-around of a subtraction written out.
\<close>

section \<open>User memory and buffers\<close>

datatype uarg = Arg_null | Arg_err | Arg_ptr nat

record uenv =
  ue_strncpy :: "nat \<Rightarrow> nat \<Rightarrow> int \<times> bytes"
  ue_compat :: bool
  ue_get_compat :: "nat \<Rightarrow> u32 option"
  ue_get_native :: "nat \<Rightarrow> u64 option"
  ue_fatal :: "nat \<Rightarrow> bool"

definition buf_write :: "nat \<Rightarrow> bytes \<Rightarrow> bytes \<Rightarrow> bytes option" where
  "buf_write off bs buf =
     (if off + length bs \<le> length buf then Some (take off buf @ bs @ drop (off + length bs) buf) else None)"

abbreviation KSU_SULOG_MAX_QUEUED :: u32 where "KSU_SULOG_MAX_QUEUED \<equiv> 256"
abbreviation KSU_SULOG_MAX_PAYLOAD_LEN :: u32 where "KSU_SULOG_MAX_PAYLOAD_LEN \<equiv> 2048"
abbreviation KSU_SULOG_MAX_ARG_STRINGS :: nat where "KSU_SULOG_MAX_ARG_STRINGS \<equiv> 0x7FFFFFFF"
abbreviation KSU_SULOG_MAX_ARG_CHUNK :: nat where "KSU_SULOG_MAX_ARG_CHUNK \<equiv> 256"
abbreviation KSU_SULOG_MAX_FILENAME_LEN :: int where "KSU_SULOG_MAX_FILENAME_LEN \<equiv> 256"
abbreviation sulog_event_size :: int where "sulog_event_size \<equiv> 52"

section \<open>Events\<close>

abbreviation KSU_SULOG_EVENT_ROOT_EXECVE :: u16 where "KSU_SULOG_EVENT_ROOT_EXECVE \<equiv> 1"
abbreviation KSU_SULOG_EVENT_SUCOMPAT :: u16 where "KSU_SULOG_EVENT_SUCOMPAT \<equiv> 2"
abbreviation KSU_SULOG_EVENT_IOCTL_GRANT_ROOT :: u16 where "KSU_SULOG_EVENT_IOCTL_GRANT_ROOT \<equiv> 3"

record sulog_event =
  sv_version :: u16
  sv_event_type :: u16
  sv_retval :: int
  sv_pid :: int
  sv_tgid :: int
  sv_ppid :: int
  sv_uid :: u32
  sv_euid :: u32
  sv_comm :: bytes
  sv_filename_len :: int
  sv_argv_len :: int

text \<open>What an event records of the current task.\<close>

record task_info =
  ti_pid :: int
  ti_tgid :: int
  ti_ppid :: int
  ti_uid :: u32
  ti_euid :: u32
  ti_comm :: bytes

definition sulog_event_bytes :: "sulog_event \<Rightarrow> bytes" where
  "sulog_event_bytes e =
     le_enc 2 (unat (sv_version e)) @ le_enc 2 (unat (sv_event_type e)) @
     u32_bytes (of_int (sv_retval e)) @ u32_bytes (of_int (sv_pid e)) @ u32_bytes (of_int (sv_tgid e)) @
     u32_bytes (of_int (sv_ppid e)) @ u32_bytes (sv_uid e) @ u32_bytes (sv_euid e) @
     sv_comm e @ u32_bytes (of_int (sv_filename_len e)) @ u32_bytes (of_int (sv_argv_len e))"

record pending_event =
  pe_event_type :: u16
  pe_event :: sulog_event
  pe_rest :: bytes
  pe_payload_len :: int

definition pe_payload :: "pending_event \<Rightarrow> bytes" where
  "pe_payload p = sulog_event_bytes (pe_event p) @ pe_rest p"

definition ksu_sulog_get_user_arg_ptr :: "uenv \<Rightarrow> nat \<Rightarrow> uarg" where
  "ksu_sulog_get_user_arg_ptr u nr =
     (if ue_compat u then
        (case ue_get_compat u nr of None \<Rightarrow> Arg_err
         | Some c \<Rightarrow> if c = 0 then Arg_null else Arg_ptr (unat c))
      else
        (case ue_get_native u nr of None \<Rightarrow> Arg_err
         | Some n \<Rightarrow> if n = 0 then Arg_null else Arg_ptr (unat n)))"

definition ksu_sulog_fill_task_info :: "task_info \<Rightarrow> u16 \<Rightarrow> int \<Rightarrow> sulog_event" where
  "ksu_sulog_fill_task_info t event_type retval =
     \<lparr>sv_version = 1, sv_event_type = event_type, sv_retval = retval, sv_pid = ti_pid t,
      sv_tgid = ti_tgid t, sv_ppid = ti_ppid t, sv_uid = ti_uid t, sv_euid = ti_euid t,
      sv_comm = ti_comm t, sv_filename_len = 0, sv_argv_len = 0\<rparr>"

definition ksu_sulog_set_identity :: "(u32 \<times> u32) option \<Rightarrow> sulog_event \<Rightarrow> sulog_event" where
  "ksu_sulog_set_identity identity e = (case identity of
     None \<Rightarrow> e | Some (uid, euid) \<Rightarrow> e\<lparr>sv_uid := uid, sv_euid := euid\<rparr>)"

section \<open>Copying strings\<close>

text \<open>The destination is the buffer from the offset \<open>off\<close> on; the result is the length and the
  buffer.\<close>

definition ksu_sulog_copy_empty_string :: "nat \<Rightarrow> bytes \<Rightarrow> (int \<times> bytes) option" where
  "ksu_sulog_copy_empty_string off buf = map_option (\<lambda>b. (1, b)) (buf_write off [0] buf)"

definition ksu_sulog_copy_filename ::
  "uenv \<Rightarrow> nat option \<Rightarrow> nat \<Rightarrow> int \<Rightarrow> bytes \<Rightarrow> (int \<times> bytes) option" where
  "ksu_sulog_copy_filename u filename_user off dst_len buf =
     (if dst_len = 0 then Some (0, buf)
      else (case filename_user of
        None \<Rightarrow> ksu_sulog_copy_empty_string off buf
      | Some a \<Rightarrow>
          (case ue_strncpy u a (nat dst_len) of (ret, bs) \<Rightarrow>
             (case buf_write off bs buf of
                None \<Rightarrow> None
              | Some buf1 \<Rightarrow>
                  if ret \<le> 0 then ksu_sulog_copy_empty_string off buf1
                  else if ret \<ge> dst_len then
                    map_option (\<lambda>b. (dst_len, b)) (buf_write (off + nat (dst_len - 1)) [0] buf1)
                  else Some (ret + 1, buf1)))))"

definition flatten_end :: "nat \<Rightarrow> int \<Rightarrow> bytes \<Rightarrow> (int \<times> bytes) option" where
  "flatten_end off used buf = map_option (\<lambda>b. (used + 1, b)) (buf_write (off + nat used) [0] buf)"

text \<open>One round of the loop: it ends with a result, or goes on with a new length and buffer.\<close>

datatype flatten_round = Done "(int \<times> bytes) option" | Continue int bytes

definition flatten_space :: "nat \<Rightarrow> int \<Rightarrow> int \<Rightarrow> bytes \<Rightarrow> (int \<times> bytes) option" where
  "flatten_space off dst_len used buf =
     (if used \<noteq> 0 \<and> used < dst_len - 1
      then map_option (\<lambda>b. (used + 1, b)) (buf_write (off + nat used) [32] buf)
      else Some (used, buf))"

definition flatten_append :: "nat \<Rightarrow> int \<Rightarrow> bytes \<Rightarrow> int \<Rightarrow> bytes \<Rightarrow> flatten_round" where
  "flatten_append off dst_len arg used buf =
     (if used \<ge> dst_len - 1 then Done (flatten_end off used buf)
      else
        let n = min (int (strnlen arg KSU_SULOG_MAX_ARG_CHUNK)) (dst_len - used - 1) in
        (case buf_write (off + nat used) (take (nat n) arg) buf of
           None \<Rightarrow> Done None
         | Some buf2 \<Rightarrow>
             if used + n \<ge> dst_len - 1 then Done (flatten_end off (used + n) buf2)
             else Continue (used + n) buf2))"

definition flatten_body :: "uenv \<Rightarrow> nat \<Rightarrow> int \<Rightarrow> nat \<Rightarrow> int \<Rightarrow> bytes \<Rightarrow> flatten_round" where
  "flatten_body u off dst_len i used buf =
     (if ue_fatal u i then Done (flatten_end off used buf)
      else (case ksu_sulog_get_user_arg_ptr u i of
        Arg_null \<Rightarrow> Done (flatten_end off used buf)
      | Arg_err \<Rightarrow> Done (ksu_sulog_copy_empty_string off buf)
      | Arg_ptr a \<Rightarrow>
          (case ue_strncpy u a KSU_SULOG_MAX_ARG_CHUNK of (copied, bs) \<Rightarrow>
             if copied \<le> 0 then Done (ksu_sulog_copy_empty_string off buf)
             else
               let arg = (if copied \<ge> int KSU_SULOG_MAX_ARG_CHUNK
                          then bs[KSU_SULOG_MAX_ARG_CHUNK - 1 := 0] else bs)
               in if strnlen arg KSU_SULOG_MAX_ARG_CHUNK = 0 then Continue used buf
                  else (case flatten_space off dst_len used buf of
                          None \<Rightarrow> Done None
                        | Some (used1, buf1) \<Rightarrow> flatten_append off dst_len arg used1 buf1))))"

function flatten_loop ::
  "uenv \<Rightarrow> nat \<Rightarrow> int \<Rightarrow> nat \<Rightarrow> int \<Rightarrow> bytes \<Rightarrow> (int \<times> bytes) option" where
  "flatten_loop u off dst_len i used buf =
     (if i < KSU_SULOG_MAX_ARG_STRINGS then
        (case flatten_body u off dst_len i used buf of
           Done r \<Rightarrow> r
         | Continue used1 buf1 \<Rightarrow> flatten_loop u off dst_len (Suc i) used1 buf1)
      else flatten_end off used buf)"
  by pat_completeness auto
termination
  by (relation "measure (\<lambda>(u, off, dst_len, i, used, buf). KSU_SULOG_MAX_ARG_STRINGS - i)") auto

declare flatten_loop.simps [simp del]

definition ksu_sulog_flatten_argv ::
  "uenv \<Rightarrow> bool \<Rightarrow> nat \<Rightarrow> int \<Rightarrow> bytes \<Rightarrow> (int \<times> bytes) option" where
  "ksu_sulog_flatten_argv u argv_user off dst_len buf =
     (if dst_len = 0 then Some (0, buf)
      else if \<not> argv_user then ksu_sulog_copy_empty_string off buf
      else flatten_loop u off dst_len 0 0 buf)"

section \<open>Capturing and emitting\<close>

record sulog_state =
  sl_enabled :: bool
  sl_queue :: equeue
  sl_fd_active :: bool
  sl_compat_buf :: "(u32 \<times> u32) list"
  sl_compat_idx :: u8

definition ksu_sulog_is_enabled :: "sulog_state \<Rightarrow> bool" where
  "ksu_sulog_is_enabled s = sl_enabled s"

text \<open>The outer option is \<open>None\<close> where a store would leave the payload; the inner one is the
  returned pointer. \<open>a1\<close> and \<open>a2\<close> are whether the two allocations succeed; the payload is zeroed.\<close>

definition ksu_sulog_capture ::
  "uenv \<Rightarrow> task_info \<Rightarrow> bool \<Rightarrow> bool \<Rightarrow> u16 \<Rightarrow> nat option \<Rightarrow> bool \<Rightarrow> sulog_state \<Rightarrow>
   (pending_event option \<times> sulog_state) option" where
  "ksu_sulog_capture u t a1 a2 event_type filename_user argv_user s =
     (let out_drop = Some (None, s\<lparr>sl_queue := ksu_event_queue_drop (sl_queue s)\<rparr>) in
      if \<not> ksu_sulog_is_enabled s then Some (None, s)
      else if \<not> a1 then out_drop
      else if \<not> a2 then out_drop
      else
        let event = ksu_sulog_fill_task_info t event_type 0;
            rest = replicate (nat (2048 - sulog_event_size)) 0;
            remaining = 2048 - sulog_event_size
        in (case ksu_sulog_copy_filename u filename_user 0 (min remaining KSU_SULOG_MAX_FILENAME_LEN) rest of
              None \<Rightarrow> None
            | Some (filename_len, rest1) \<Rightarrow>
                if filename_len = 0 then out_drop
                else
                  let remaining1 = (remaining - filename_len) mod 2 ^ 32 in
                  (case ksu_sulog_flatten_argv u argv_user (nat filename_len) remaining1 rest1 of
                     None \<Rightarrow> None
                   | Some (argv_len, rest2) \<Rightarrow>
                       if argv_len = 0 then out_drop
                       else if sulog_event_size + filename_len \<ge> 2 ^ 32 \<or>
                               sulog_event_size + filename_len + argv_len \<ge> 2 ^ 32 then out_drop
                       else Some (Some \<lparr>pe_event_type = event_type,
                              pe_event = event\<lparr>sv_filename_len := filename_len, sv_argv_len := argv_len\<rparr>,
                              pe_rest = rest2,
                              pe_payload_len = sulog_event_size + filename_len + argv_len\<rparr>, s))))"

definition ksu_sulog_capture_grant_root ::
  "uenv \<Rightarrow> task_info \<Rightarrow> bool \<Rightarrow> bool \<Rightarrow> u32 \<times> u32 \<Rightarrow> sulog_state \<Rightarrow> (pending_event option \<times> sulog_state) option" where
  "ksu_sulog_capture_grant_root u t a1 a2 identity s =
     (case ksu_sulog_capture u t a1 a2 KSU_SULOG_EVENT_IOCTL_GRANT_ROOT None False s of
        None \<Rightarrow> None
      | Some (p, s1) \<Rightarrow>
          Some (map_option (\<lambda>p. p\<lparr>pe_event := ksu_sulog_set_identity (Some identity) (pe_event p)\<rparr>) p, s1))"

definition ksu_sulog_capture_root_execve ::
  "uenv \<Rightarrow> task_info \<Rightarrow> bool \<Rightarrow> bool \<Rightarrow> nat option \<Rightarrow> bool \<Rightarrow> sulog_state \<Rightarrow> (pending_event option \<times> sulog_state) option" where
  "ksu_sulog_capture_root_execve u t a1 a2 filename argv s =
     ksu_sulog_capture u t a1 a2 KSU_SULOG_EVENT_ROOT_EXECVE filename argv s"

definition ksu_sulog_capture_sucompat ::
  "uenv \<Rightarrow> task_info \<Rightarrow> bool \<Rightarrow> bool \<Rightarrow> nat option \<Rightarrow> bool \<Rightarrow> sulog_state \<Rightarrow> (pending_event option \<times> sulog_state) option" where
  "ksu_sulog_capture_sucompat u t a1 a2 filename argv s =
     ksu_sulog_capture u t a1 a2 KSU_SULOG_EVENT_SUCOMPAT filename argv s"

definition ksu_sulog_emit_pending ::
  "bool \<Rightarrow> u64 \<Rightarrow> pending_event option \<Rightarrow> int \<Rightarrow> sulog_state \<Rightarrow> sulog_state" where
  "ksu_sulog_emit_pending alloc now pending retval s = (case pending of
     None \<Rightarrow> s
   | Some p \<Rightarrow>
       let p1 = p\<lparr>pe_event := (pe_event p)\<lparr>sv_retval := retval\<rparr>\<rparr> in
       s\<lparr>sl_queue := snd (ksu_event_queue_push alloc now (pe_event_type p1) 0 (Some (pe_payload p1))
                          (of_int (pe_payload_len p1)) (sl_queue s))\<rparr>)"

definition ksu_sulog_emit_grant_root ::
  "uenv \<Rightarrow> task_info \<Rightarrow> bool \<Rightarrow> bool \<Rightarrow> bool \<Rightarrow> u64 \<Rightarrow> int \<Rightarrow> u32 \<Rightarrow> u32 \<Rightarrow> sulog_state \<Rightarrow> (int \<times> sulog_state) option" where
  "ksu_sulog_emit_grant_root u t a1 a2 a3 now retval uid euid s =
     (case ksu_sulog_capture_grant_root u t a1 a2 (uid, euid) s of
        None \<Rightarrow> None
      | Some (None, s1) \<Rightarrow> Some (0, s1)
      | Some (Some p, s1) \<Rightarrow> Some (0, ksu_sulog_emit_pending a3 now (Some p) retval s1))"

definition ksu_sulog_events_init :: "sulog_state \<Rightarrow> int \<times> sulog_state" where
  "ksu_sulog_events_init s =
     (0, s\<lparr>sl_queue := ksu_event_queue_init KSU_SULOG_MAX_QUEUED KSU_SULOG_MAX_PAYLOAD_LEN\<rparr>)"

definition ksu_sulog_events_exit :: "sulog_state \<Rightarrow> sulog_state" where
  "ksu_sulog_events_exit s = s\<lparr>sl_queue := ksu_event_queue_destroy (sl_queue s)\<rparr>"

section \<open>The file descriptor\<close>

definition ksu_sulog_release :: "sulog_state \<Rightarrow> int \<times> sulog_state" where
  "ksu_sulog_release s = (0, s\<lparr>sl_fd_active := False\<rparr>)"

text \<open>\<open>newfd\<close> is what \<open>get_unused_fd_flags\<close> returns, \<open>getfile\<close> the error of \<open>anon_inode_getfile\<close>
  or 0.\<close>

definition ksu_install_sulog_fd :: "int \<Rightarrow> int \<Rightarrow> sulog_state \<Rightarrow> int \<times> sulog_state" where
  "ksu_install_sulog_fd newfd getfile s =
     (if sl_fd_active s then (- EBUSY, s)
      else if q_closed (sl_queue s) then (- EPIPE, s)
      else if newfd < 0 then (newfd, s)
      else if getfile \<noteq> 0 then (getfile, s)
      else (newfd, s\<lparr>sl_fd_active := True\<rparr>))"

definition ksu_sulog_fd_init :: "sulog_state \<Rightarrow> sulog_state" where
  "ksu_sulog_fd_init s = s\<lparr>sl_fd_active := False\<rparr>"

definition ksu_sulog_fd_exit :: "sulog_state \<Rightarrow> sulog_state" where
  "ksu_sulog_fd_exit s = s\<lparr>sl_fd_active := False, sl_queue := ksu_event_queue_close (sl_queue s)\<rparr>"

section \<open>The feature\<close>

definition sulog_feature_get :: "sulog_state \<Rightarrow> u64 \<Rightarrow> int \<times> u64" where
  "sulog_feature_get s _ = (0, if sl_enabled s then 1 else 0)"

definition sulog_feature_set :: "u64 \<Rightarrow> sulog_state \<Rightarrow> int \<times> sulog_state" where
  "sulog_feature_set value s = (0, s\<lparr>sl_enabled := (value \<noteq> 0)\<rparr>)"

definition sulog_handler :: "sulog_state feature_handler" where
  "sulog_handler = \<lparr>fh_id = KSU_FEATURE_SULOG, fh_name = Some (chars ''sulog''),
     fh_get = Some sulog_feature_get, fh_set = Some sulog_feature_set\<rparr>"

definition ksu_sulog_init ::
  "sulog_state feature_state \<Rightarrow> sulog_state \<Rightarrow> sulog_state feature_state \<times> sulog_state" where
  "ksu_sulog_init ft s =
     (let s0 = s\<lparr>sl_enabled := False\<rparr> in
      case ksu_register_feature_handler (Some sulog_handler) ft of (ret, ft1) \<Rightarrow>
        if ret \<noteq> 0 then (ft1, s0)
        else (case ksu_sulog_events_init s0 of (ret, s1) \<Rightarrow>
          if ret \<noteq> 0 then (snd (ksu_unregister_feature_handler KSU_FEATURE_SULOG ft1), s1)
          else (ft1, ksu_sulog_fd_init s1)))"

definition ksu_sulog_exit ::
  "sulog_state feature_state \<Rightarrow> sulog_state \<Rightarrow> sulog_state feature_state \<times> sulog_state" where
  "ksu_sulog_exit ft s =
     (snd (ksu_unregister_feature_handler KSU_FEATURE_SULOG ft),
      ksu_sulog_events_exit (ksu_sulog_fd_exit s))"

section \<open>The ring of the older log\<close>

abbreviation COMPAT_SULOG_MAX :: nat where "COMPAT_SULOG_MAX \<equiv> 250"

definition ksu_compat_sulog :: "u32 \<Rightarrow> u64 \<Rightarrow> u8 \<Rightarrow> sulog_state \<Rightarrow> sulog_state" where
  "ksu_compat_sulog uid now_sec symb s =
     (let data = (uid AND 0x00FFFFFF) OR push_bit 24 (ucast symb) in
      s\<lparr>sl_compat_buf := (sl_compat_buf s)[unat (sl_compat_idx s) := (ucast now_sec, data)],
        sl_compat_idx := of_nat ((unat (sl_compat_idx s) + 1) mod COMPAT_SULOG_MAX)\<rparr>)"

text \<open>The return value and what user space receives: uptime, index and ring, each as far as the copy
  got. \<open>ptrs\<close> is the structure copied in, or nothing on a fault.\<close>

definition ksu_sulog_handle_compat_dump ::
  "(u64 \<times> u64 \<times> u64) option \<Rightarrow> u64 \<Rightarrow> bool \<Rightarrow> bool \<Rightarrow> bool \<Rightarrow> bool \<Rightarrow> sulog_state \<Rightarrow>
   int \<times> u32 option \<times> u8 option \<times> (u32 \<times> u32) list option" where
  "ksu_sulog_handle_compat_dump ptrs now_sec cp_uptime alloc cp_idx cp_buf s = (case ptrs of
     None \<Rightarrow> (1, None, None, None)
   | Some (index_ptr, buf_ptr, uptime_ptr) \<Rightarrow>
       if index_ptr = 0 \<or> buf_ptr = 0 \<or> uptime_ptr = 0 then (1, None, None, None)
       else if \<not> cp_uptime then (1, None, None, None)
       else if \<not> alloc then (1, Some (ucast now_sec), None, None)
       else if \<not> cp_idx then (1, Some (ucast now_sec), None, None)
       else if \<not> cp_buf then (1, Some (ucast now_sec), Some (sl_compat_idx s), None)
       else (0, Some (ucast now_sec), Some (sl_compat_idx s), Some (sl_compat_buf s)))"

section \<open>Lemmas: buffers\<close>

text \<open>What the code relies on from \<open>strncpy_from_user_nofault\<close>: it stores at most as many bytes as it
  is given.\<close>

definition uenv_ok :: "uenv \<Rightarrow> bool" where
  "uenv_ok u \<longleftrightarrow> (\<forall>a n. length (snd (ue_strncpy u a n)) \<le> n)"

lemma buf_write_some:
  assumes "off + length bs \<le> length buf"
  obtains b where "buf_write off bs buf = Some b" "length b = length buf"
    "\<And>k. k \<le> off \<Longrightarrow> take k b = take k buf" "\<And>i. i < length bs \<Longrightarrow> b ! (off + i) = bs ! i"
proof
  show "buf_write off bs buf = Some (take off buf @ bs @ drop (off + length bs) buf)"
    using assms by (simp add: buf_write_def)
  show "take k (take off buf @ bs @ drop (off + length bs) buf) = take k buf" if "k \<le> off" for k
    using assms that by (simp add: min_def)
  show "(take off buf @ bs @ drop (off + length bs) buf) ! (off + i) = bs ! i" if "i < length bs" for i
    using assms that by (simp add: nth_append)
qed (use assms in auto)

text \<open>A result of one of the copying routines: a positive length within the room, the rest of the
  buffer before the offset untouched, and a NUL at the end.\<close>

definition copy_ok :: "nat \<Rightarrow> int \<Rightarrow> bytes \<Rightarrow> (int \<times> bytes) option \<Rightarrow> bool" where
  "copy_ok off dst_len buf r \<longleftrightarrow> (\<exists>n b. r = Some (n, b) \<and> 1 \<le> n \<and> n \<le> dst_len \<and>
     length b = length buf \<and> take off b = take off buf)"

lemma copy_ok_mono: "copy_ok off dst_len b1 r \<Longrightarrow> length b1 = length buf \<Longrightarrow> take off b1 = take off buf \<Longrightarrow>
    copy_ok off dst_len buf r"
  by (auto simp: copy_ok_def)

lemma copy_empty_ok:
  assumes "1 \<le> dst_len" "off + nat dst_len \<le> length buf"
  shows "copy_ok off dst_len buf (ksu_sulog_copy_empty_string off buf)"
proof -
  have "off + length [0 :: u8] \<le> length buf" using assms by simp
  then show ?thesis using assms(1)
    by (elim buf_write_some) (auto simp: ksu_sulog_copy_empty_string_def copy_ok_def)
qed

lemma terminate_ok:
  assumes "0 \<le> used" "used \<le> dst_len - 1" "off + nat dst_len \<le> length buf"
  shows "copy_ok off dst_len buf (flatten_end off used buf)"
proof -
  have "off + nat used + length [0 :: u8] \<le> length buf" using assms by simp
  then show ?thesis using assms by (elim buf_write_some) (auto simp: copy_ok_def flatten_end_def)
qed

lemma copy_filename_ok:
  assumes u: "uenv_ok u" and len: "1 \<le> dst_len" "off + nat dst_len \<le> length buf"
  shows "copy_ok off dst_len buf (ksu_sulog_copy_filename u f off dst_len buf)"
proof (cases f)
  case None
  then show ?thesis using len copy_empty_ok by (simp add: ksu_sulog_copy_filename_def)
next
  case (Some a)
  obtain ret bs where r: "ue_strncpy u a (nat dst_len) = (ret, bs)" by fastforce
  have "length bs \<le> nat dst_len" using u r unfolding uenv_ok_def by (metis snd_conv)
  then have "off + length bs \<le> length buf" using len by simp
  then obtain b where b: "buf_write off bs buf = Some b" "length b = length buf" "take off b = take off buf"
    using buf_write_some by (metis order_refl)
  have "copy_ok off dst_len b (ksu_sulog_copy_empty_string off b)"
    "copy_ok off dst_len b (map_option (\<lambda>b. (dst_len, b)) (buf_write (off + nat (dst_len - 1)) [0] b))"
    using len b copy_empty_ok [of dst_len off b] terminate_ok [of "dst_len - 1" dst_len off b]
    by (simp_all add: flatten_end_def)
  then show ?thesis
    using len b Some r
    by (auto simp: ksu_sulog_copy_filename_def intro: copy_ok_mono) (simp add: copy_ok_def)
qed

lemma strnlen_length: "strnlen b n \<le> length b"
  unfolding strnlen_def by (rule order_trans [OF length_cstr_le]) simp

text \<open>A round keeps the length within the room and the buffer before the offset.\<close>

definition round_ok :: "nat \<Rightarrow> int \<Rightarrow> bytes \<Rightarrow> flatten_round \<Rightarrow> bool" where
  "round_ok off dst_len buf r = (case r of
     Done x \<Rightarrow> copy_ok off dst_len buf x
   | Continue u b \<Rightarrow> 0 \<le> u \<and> u \<le> dst_len - 1 \<and> length b = length buf \<and> take off b = take off buf)"

lemma space_ok:
  assumes "0 \<le> used" "used \<le> dst_len - 1" "off + nat dst_len \<le> length buf"
  shows "\<exists>u1 b1. flatten_space off dst_len used buf = Some (u1, b1) \<and> 0 \<le> u1 \<and> u1 \<le> dst_len - 1 \<and>
    length b1 = length buf \<and> take off b1 = take off buf"
proof (cases "used \<noteq> 0 \<and> used < dst_len - 1")
  case True
  have "off + nat used + length [32 :: u8] \<le> length buf" using assms by simp
  then obtain b where "buf_write (off + nat used) [32] buf = Some b" "length b = length buf"
    "take off b = take off buf" using buf_write_some by (metis le_add1)
  then show ?thesis using True assms by (simp add: flatten_space_def)
next
  case False
  then show ?thesis using assms unfolding flatten_space_def by auto
qed

lemma append_ok:
  assumes "0 \<le> used" "used \<le> dst_len - 1" "off + nat dst_len \<le> length buf"
  shows "round_ok off dst_len buf (flatten_append off dst_len arg used buf)"
proof (cases "used \<ge> dst_len - 1")
  case True
  then show ?thesis using terminate_ok [OF assms] by (simp add: flatten_append_def round_ok_def)
next
  case False
  define n where "n = min (int (strnlen arg KSU_SULOG_MAX_ARG_CHUNK)) (dst_len - used - 1)"
  have n: "0 \<le> n" "used + n \<le> dst_len - 1" using False by (auto simp: n_def)
  then have "off + nat used + length (take (nat n) arg) \<le> length buf" using assms by simp
  then obtain b where b: "buf_write (off + nat used) (take (nat n) arg) buf = Some b"
    "length b = length buf" "take off b = take off buf"
    using buf_write_some by (metis le_add1)
  have "copy_ok off dst_len b (flatten_end off (used + n) b)"
    using n assms b by (intro terminate_ok) auto
  then have "copy_ok off dst_len buf (flatten_end off (used + n) b)" using b by (simp add: copy_ok_mono)
  then show ?thesis using False b n assms(1)
    by (simp add: flatten_append_def Let_def n_def [symmetric] round_ok_def)
qed

lemma round_ok_mono: "round_ok off dst_len b1 r \<Longrightarrow> length b1 = length buf \<Longrightarrow> take off b1 = take off buf \<Longrightarrow>
    round_ok off dst_len buf r"
  by (auto simp: round_ok_def intro: copy_ok_mono split: flatten_round.splits)

lemma body_ok:
  assumes "0 \<le> used" "used \<le> dst_len - 1" "off + nat dst_len \<le> length buf"
  shows "round_ok off dst_len buf (flatten_body u off dst_len i used buf)"
proof -
  have fin: "round_ok off dst_len buf (Done (flatten_end off used buf))"
    using terminate_ok [OF assms] by (simp add: round_ok_def)
  have empty: "round_ok off dst_len buf (Done (ksu_sulog_copy_empty_string off buf))"
    using assms copy_empty_ok [of dst_len off buf] by (simp add: round_ok_def)
  have cont: "round_ok off dst_len buf (Continue used buf)" using assms by (simp add: round_ok_def)
  obtain u1 b1 where sp: "flatten_space off dst_len used buf = Some (u1, b1)" "0 \<le> u1" "u1 \<le> dst_len - 1"
    "length b1 = length buf" "take off b1 = take off buf" using space_ok [OF assms] by blast
  have app: "round_ok off dst_len buf (flatten_append off dst_len arg u1 b1)" for arg
    using append_ok [of u1 dst_len off b1 arg] sp assms(3) by (simp add: round_ok_mono)
  show ?thesis
    using fin empty cont app sp(1)
    by (simp add: flatten_body_def Let_def split: uarg.split prod.split)
qed

lemma flatten_loop_ok:
  "0 \<le> used \<Longrightarrow> used \<le> dst_len - 1 \<Longrightarrow> off + nat dst_len \<le> length buf \<Longrightarrow>
   copy_ok off dst_len buf (flatten_loop u off dst_len i used buf)"
proof (induction u off dst_len i used buf rule: flatten_loop.induct)
  case (1 u off dst_len i used buf)
  note body = body_ok [OF 1(2,3,4), of u i]
  show ?case
  proof (cases "i < KSU_SULOG_MAX_ARG_STRINGS")
    case False
    then show ?thesis using terminate_ok [OF 1(2,3,4)] by (simp add: flatten_loop.simps)
  next
    case True
    show ?thesis
    proof (cases "flatten_body u off dst_len i used buf")
      case (Done r)
      then show ?thesis using True body by (simp add: flatten_loop.simps [of u off dst_len i] round_ok_def)
    next
      case (Continue u1 b1)
      then have b: "0 \<le> u1" "u1 \<le> dst_len - 1" "length b1 = length buf" "take off b1 = take off buf"
        using body by (simp_all add: round_ok_def)
      then have "copy_ok off dst_len b1 (flatten_loop u off dst_len (Suc i) u1 b1)"
        using 1(1) [OF True Continue] 1(4) by simp
      then show ?thesis using True Continue b
        by (simp add: flatten_loop.simps [of u off dst_len i] copy_ok_mono)
    qed
  qed
qed

lemma length_sulog_event_bytes [ksu_len]: "length (sulog_event_bytes e) = 36 + length (sv_comm e)"
  by (simp add: sulog_event_bytes_def)

lemma capture_cases:
  assumes u: "uenv_ok u" and on: "sl_enabled s" "a1" "a2"
  obtains fl al rest where "ksu_sulog_capture u t a1 a2 ty f av s =
      Some (Some \<lparr>pe_event_type = ty,
        pe_event = (ksu_sulog_fill_task_info t ty 0)\<lparr>sv_filename_len := fl, sv_argv_len := al\<rparr>,
        pe_rest = rest, pe_payload_len = sulog_event_size + fl + al\<rparr>, s)"
    "1 \<le> fl" "fl \<le> 256" "1 \<le> al" "fl + al \<le> 1996" "length rest = 1996"
proof -
  let ?r = "replicate 1996 (0 :: u8)"
  have "copy_ok 0 256 ?r (ksu_sulog_copy_filename u f 0 256 ?r)"
    using u by (intro copy_filename_ok) auto
  then obtain fl r1 where f: "ksu_sulog_copy_filename u f 0 256 ?r = Some (fl, r1)"
    "1 \<le> fl" "fl \<le> 256" "length r1 = 1996" by (auto simp: copy_ok_def)
  let ?d = "1996 - fl"
  have d: "(1996 - fl) mod 2 ^ 32 = ?d" "?d \<noteq> 0" using f by (simp_all add: mod_pos_pos_trivial)
  have "copy_ok (nat fl) ?d r1 (ksu_sulog_flatten_argv u av (nat fl) ?d r1)"
    using f flatten_loop_ok [of 0 ?d "nat fl" r1 u 0] copy_empty_ok [of ?d "nat fl" r1]
    by (auto simp: ksu_sulog_flatten_argv_def)
  then obtain al r2 where a: "ksu_sulog_flatten_argv u av (nat fl) ?d r1 = Some (al, r2)"
    "1 \<le> al" "al \<le> ?d" "length r2 = 1996" using f by (auto simp: copy_ok_def)
  have "ksu_sulog_capture u t a1 a2 ty f av s =
      Some (Some \<lparr>pe_event_type = ty,
        pe_event = (ksu_sulog_fill_task_info t ty 0)\<lparr>sv_filename_len := fl, sv_argv_len := al\<rparr>,
        pe_rest = r2, pe_payload_len = sulog_event_size + fl + al\<rparr>, s)"
    unfolding ksu_sulog_capture_def ksu_sulog_is_enabled_def Let_def using on f a d by simp
  then show ?thesis by (rule that) (use f a in auto)
qed

lemma ring_step:
  assumes "length b = n" "i < n"
  shows "drop (Suc i mod n) (b[i := e]) @ take (Suc i mod n) (b[i := e]) = drop (Suc i) b @ take i b @ [e]"
proof (cases "Suc i = n")
  case True
  then show ?thesis using assms by (simp add: upd_conv_take_nth_drop)
next
  case False
  then show ?thesis using assms by (simp add: take_Suc_conv_app_nth)
qed

section \<open>Properties\<close>

text \<open>(C12) Building a log record never stores outside its payload, whatever user memory holds. It
  yields a record exactly when the log is on and memory is available; the record's length is within
  its payload and within the queue's limit, so queueing it never fails for its size.\<close>

theorem sulog_capture_fits:
  assumes "uenv_ok u" "length (ti_comm t) = 16" "q_max_payload_len (sl_queue s) = KSU_SULOG_MAX_PAYLOAD_LEN"
  shows "\<exists>r s'. ksu_sulog_capture u t a1 a2 ty f av s = Some (r, s') \<and>
    (r \<noteq> None \<longleftrightarrow> ksu_sulog_is_enabled s \<and> a1 \<and> a2) \<and>
    (case r of None \<Rightarrow> True | Some p \<Rightarrow> s' = s \<and> length (pe_payload p) = 2048 \<and>
       54 \<le> pe_payload_len p \<and> pe_payload_len p \<le> 2048 \<and>
       fst (ksu_event_queue_push alloc now ty 0 (Some (pe_payload p)) (of_int (pe_payload_len p)) (sl_queue s))
         \<in> {0, - EPIPE, - ENOSPC, - ENOMEM})"
proof (cases "sl_enabled s \<and> a1 \<and> a2")
  case False
  then have "ksu_sulog_capture u t a1 a2 ty f av s =
      Some (None, if sl_enabled s then s\<lparr>sl_queue := ksu_event_queue_drop (sl_queue s)\<rparr> else s)"
    unfolding ksu_sulog_capture_def ksu_sulog_is_enabled_def Let_def
    by (cases "sl_enabled s"; cases a1; cases a2) simp_all
  with False show ?thesis by (simp add: ksu_sulog_is_enabled_def)
next
  case True
  then have on: "sl_enabled s" a1 a2 by simp_all
  obtain fl al rest where c: "ksu_sulog_capture u t a1 a2 ty f av s =
      Some (Some \<lparr>pe_event_type = ty,
        pe_event = (ksu_sulog_fill_task_info t ty 0)\<lparr>sv_filename_len := fl, sv_argv_len := al\<rparr>,
        pe_rest = rest, pe_payload_len = sulog_event_size + fl + al\<rparr>, s)"
    and b: "1 \<le> fl" "fl \<le> 256" "1 \<le> al" "fl + al \<le> 1996" "length rest = 1996"
    by (rule capture_cases [OF assms(1) on, of t ty f av])
  have len: "\<not> (of_int (sulog_event_size + fl + al) :: u32) > KSU_SULOG_MAX_PAYLOAD_LEN"
  proof -
    have "uint (of_int (sulog_event_size + fl + al) :: u32) = sulog_event_size + fl + al"
      using b by (intro uint_u32_of_int) auto
    then show ?thesis using b unfolding word_less_def by simp
  qed
  then have "fst (ksu_event_queue_push alloc now ty 0 (Some pl) (of_int (sulog_event_size + fl + al)) (sl_queue s))
      \<in> {0, - EPIPE, - ENOSPC, - ENOMEM}" for pl
    using assms(3) by (auto simp: ksu_event_queue_push_def Let_def)
  then show ?thesis using c b True assms(2)
    by (simp add: ksu_sulog_is_enabled_def pe_payload_def length_sulog_event_bytes ksu_sulog_fill_task_info_def)
qed

definition uenv0 :: uenv where
  "uenv0 = \<lparr>ue_strncpy = (\<lambda>a n. if 3 \<le> n then (3, [115, 117, 0]) else (- EFAULT, [])), ue_compat = False,
     ue_get_compat = (\<lambda>_. None), ue_get_native = (\<lambda>i. if i < 2 then Some 64 else Some 0), ue_fatal = (\<lambda>_. False)\<rparr>"

definition tinfo0 :: task_info where
  "tinfo0 = \<lparr>ti_pid = 7, ti_tgid = 7, ti_ppid = 1, ti_uid = 2000, ti_euid = 2000, ti_comm = replicate 16 0\<rparr>"

definition sulog0 :: sulog_state where
  "sulog0 = \<lparr>sl_enabled = True, sl_queue = ksu_event_queue_init KSU_SULOG_MAX_QUEUED KSU_SULOG_MAX_PAYLOAD_LEN,
     sl_fd_active = False, sl_compat_buf = replicate 250 (0, 0), sl_compat_idx = 0\<rparr>"

theorem sulog_capture_fits_witness:
  "uenv_ok uenv0 \<and> length (ti_comm tinfo0) = 16 \<and>
   q_max_payload_len (sl_queue sulog0) = KSU_SULOG_MAX_PAYLOAD_LEN \<and>
   (\<exists>p. ksu_sulog_capture uenv0 tinfo0 True True 1 (Some 64) True sulog0 = Some (Some p, sulog0) \<and>
      pe_payload_len p \<le> 2048)"
proof -
  have h: "uenv_ok uenv0" "length (ti_comm tinfo0) = 16"
    "q_max_payload_len (sl_queue sulog0) = KSU_SULOG_MAX_PAYLOAD_LEN" "ksu_sulog_is_enabled sulog0"
    by (simp_all add: uenv_ok_def uenv0_def tinfo0_def sulog0_def ksu_event_queue_init_def ksu_sulog_is_enabled_def)
  from sulog_capture_fits [OF h(1,2,3), of True True 1 "Some 64" True True 0] h(4)
  obtain p where "ksu_sulog_capture uenv0 tinfo0 True True 1 (Some 64) True sulog0 = Some (Some p, sulog0)"
    "pe_payload_len p \<le> 2048" by (auto split: option.splits)
  with h show ?thesis by blast
qed

text \<open>(C13) The ring of the older log is a sliding window: seen from its oldest slot on, recording an
  entry drops the oldest and appends the new one, whose top byte is the event symbol; the index stays
  inside the ring.\<close>

definition ring_view :: "sulog_state \<Rightarrow> (u32 \<times> u32) list" where
  "ring_view s = drop (unat (sl_compat_idx s)) (sl_compat_buf s) @ take (unat (sl_compat_idx s)) (sl_compat_buf s)"

theorem compat_ring_window:
  assumes "length (sl_compat_buf s) = COMPAT_SULOG_MAX" "unat (sl_compat_idx s) < COMPAT_SULOG_MAX"
  shows "ring_view (ksu_compat_sulog uid now symb s) =
      tl (ring_view s) @ [(ucast now, (uid AND 0x00FFFFFF) OR push_bit 24 (ucast symb))] \<and>
    length (sl_compat_buf (ksu_compat_sulog uid now symb s)) = COMPAT_SULOG_MAX \<and>
    unat (sl_compat_idx (ksu_compat_sulog uid now symb s)) < COMPAT_SULOG_MAX"
proof -
  define i where "i = unat (sl_compat_idx s)"
  let ?b = "sl_compat_buf s" and ?e = "(ucast now, (uid AND 0x00FFFFFF) OR push_bit 24 (ucast symb))"
  have i: "i < 250" "length ?b = 250" using assms by (simp_all add: i_def)
  have idx: "unat (of_nat (Suc i mod 250) :: u8) = Suc i mod 250"
  proof -
    have "Suc i mod 250 < 250" by simp
    then have "Suc i mod 250 < 2 ^ LENGTH(8)" by simp
    then show ?thesis by (simp only: unat_of_nat mod_less)
  qed
  have idx': "unat (sl_compat_idx (ksu_compat_sulog uid now symb s)) = Suc i mod 250"
  proof -
    have "sl_compat_idx (ksu_compat_sulog uid now symb s) = of_nat (Suc i mod 250)"
      by (simp add: ksu_compat_sulog_def Let_def i_def)
    then show ?thesis by (simp only: idx)
  qed
  have view: "ring_view (ksu_compat_sulog uid now symb s) =
      drop (Suc i mod 250) (?b[i := ?e]) @ take (Suc i mod 250) (?b[i := ?e])"
    unfolding ring_view_def idx' by (simp add: ksu_compat_sulog_def Let_def i_def)
  have tl: "tl (ring_view s) = drop (Suc i) ?b @ take i ?b"
    using i by (simp add: ring_view_def i_def [symmetric] Cons_nth_drop_Suc [symmetric])
  have "ring_view (ksu_compat_sulog uid now symb s) = tl (ring_view s) @ [?e]"
    unfolding view tl append_assoc using i by (intro ring_step) auto
  then show ?thesis
    using i idx' by (simp add: ksu_compat_sulog_def Let_def)
qed

theorem compat_ring_window_witness:
  "length (sl_compat_buf sulog0) = COMPAT_SULOG_MAX \<and> unat (sl_compat_idx sulog0) < COMPAT_SULOG_MAX \<and>
   length (sl_compat_buf (ksu_compat_sulog 10123 60 36 sulog0)) = COMPAT_SULOG_MAX"
proof -
  have "length (sl_compat_buf sulog0) = COMPAT_SULOG_MAX" "unat (sl_compat_idx sulog0) < COMPAT_SULOG_MAX"
    by (simp_all add: sulog0_def)
  with compat_ring_window [OF this, of 10123 60 36] show ?thesis by blast
qed

end
