(* ===== verification/KSU_Escape.thy ===== *)
theory KSU_Escape
  imports KSU_AllowStore
begin

text \<open>
  Becoming root: \<open>policy/app_profile.c\<close> (groups, seccomp, \<open>escape_with_root_profile\<close>), the mount
  namespace of the root shell (\<open>infra/su_mount_ns.c\<close>) and the seccomp action cache
  (\<open>infra/seccomp_cache.c\<close>).

  What the kernel decides on the way is the record \<open>esc_env\<close> for credentials and \<open>ns_env\<close> for the
  namespace calls. \<open>commit_creds\<close> installs the prepared credentials on the current task and
  \<open>abort_creds\<close> drops them. A thread group is the tasks with one tgid.
\<close>

section \<open>Environment and state\<close>

record esc_env =
  ee_prepare :: bool
  ee_alloc_uid :: bool
  ee_has_ucounts :: bool
  ee_ucounts :: int
  ee_groups_alloc :: bool
  ee_gid_valid :: "u32 \<Rightarrow> bool"
  ee_fake :: bool

record ns_env =
  ne_pwd_buf :: bool
  ne_d_path :: "bytes option"
  ne_find_pid :: bool
  ne_get_task :: bool
  ne_ns_get_path :: int
  ne_dentry_open :: bool
  ne_fd :: int
  ne_setns :: int
  ne_kern_path :: "bytes \<Rightarrow> int"
  ne_init_ns :: nat
  ne_unshare :: int
  ne_new_ns :: nat
  ne_path_mount :: int

record mnt_state =
  mn_ns :: nat
  mn_pwd :: bytes
  mn_root_private :: bool

record esc_state =
  xs_allow :: allow_state
  xs_tasks :: proc_table
  xs_current :: nat
  xs_mnt :: mnt_state

section \<open>Groups and seccomp\<close>

definition setup_groups :: "esc_env \<Rightarrow> root_profile \<Rightarrow> cred \<Rightarrow> cred" where
  "setup_groups e profile c =
     (if unat (rp_groups_count profile) > KSU_MAX_GROUPS then c
      else if rp_groups_count profile = 1 \<and> rp_groups profile ! 0 = 0 then c\<lparr>cr_groups := []\<rparr>
      else if \<not> ee_groups_alloc e then c
      else
        let gs = take (unat (rp_groups_count profile)) (rp_groups profile) in
        if \<not> list_all (ee_gid_valid e) gs then c else c\<lparr>cr_groups := sort gs\<rparr>)"

definition disable_seccomp :: "esc_env \<Rightarrow> task \<Rightarrow> task" where
  "disable_seccomp e t =
     (if \<not> ee_fake e then t else t\<lparr>tk_seccomp_mode := 0, tk_seccomp_filter := None\<rparr>)"

section \<open>Mount namespaces\<close>

definition ksu_mnt_ns_global :: "ns_env \<Rightarrow> mnt_state \<Rightarrow> mnt_state" where
  "ksu_mnt_ns_global n m =
     (let pwd_path = (if ne_pwd_buf n then ne_d_path n else None) in
      if \<not> ne_find_pid n then m
      else if \<not> ne_get_task n then m
      else if ne_ns_get_path n \<noteq> 0 then m
      else if \<not> ne_dentry_open n then m
      else if ne_fd n < 0 then m
      else if ne_setns n \<noteq> 0 then m
      else
        let m1 = m\<lparr>mn_ns := ne_init_ns n, mn_pwd := [47]\<rparr> in
        (case pwd_path of
           None \<Rightarrow> m1
         | Some p \<Rightarrow> if ne_kern_path n p = 0 then m1\<lparr>mn_pwd := p\<rparr> else m1))"

definition ksu_mnt_ns_individual :: "ns_env \<Rightarrow> mnt_state \<Rightarrow> mnt_state" where
  "ksu_mnt_ns_individual n m =
     (if ne_unshare n \<noteq> 0 then m
      else let m1 = m\<lparr>mn_ns := ne_new_ns n\<rparr> in
        if ne_path_mount n < 0 then m1 else m1\<lparr>mn_root_private := True\<rparr>)"

definition setup_mount_ns :: "ns_env \<Rightarrow> u32 \<Rightarrow> mnt_state \<Rightarrow> mnt_state" where
  "setup_mount_ns n ns_mode m =
     (if ns_mode = KSU_NS_INHERITED then m
      else if ns_mode \<noteq> KSU_NS_GLOBAL \<and> ns_mode \<noteq> KSU_NS_INDIVIDUAL then m
      else if ns_mode = KSU_NS_GLOBAL then ksu_mnt_ns_global n m
      else ksu_mnt_ns_individual n m)"

section \<open>Escaping with the root profile\<close>

definition profile_ids :: "root_profile \<Rightarrow> cred \<Rightarrow> cred" where
  "profile_ids p c = c\<lparr>cr_uid := rp_uid p, cr_suid := rp_uid p, cr_euid := rp_uid p, cr_fsuid := rp_uid p,
     cr_gid := rp_gid p, cr_fsgid := rp_gid p, cr_sgid := rp_gid p, cr_egid := rp_gid p, cr_securebits := 0\<rparr>"

definition profile_caps :: "root_profile \<Rightarrow> cred \<Rightarrow> cred" where
  "profile_caps p c =
     (let c1 = c\<lparr>cr_cap_effective := rp_cap_effective p, cr_cap_permitted := rp_cap_effective p,
                 cr_cap_bset := rp_cap_effective p\<rparr>
      in if rp_uid p \<noteq> 0
         then c1\<lparr>cr_cap_inheritable := rp_cap_effective p, cr_cap_ambient := rp_cap_effective p\<rparr> else c1)"

definition set_task :: "nat \<Rightarrow> (task \<Rightarrow> task) \<Rightarrow> proc_table \<Rightarrow> proc_table" where
  "set_task a f ts = ts(a := f (ts a))"

definition mark_threads :: "nat \<Rightarrow> proc_table \<Rightarrow> proc_table" where
  "mark_threads p ts = (\<lambda>a. if tk_tgid (ts a) = tk_tgid (ts p) then (ts a)\<lparr>tk_tracepoint := True\<rparr> else ts a)"

definition commit_profile ::
  "esc_env \<Rightarrow> ns_env \<Rightarrow> lsm \<Rightarrow> root_profile \<Rightarrow> cred \<Rightarrow> esc_state \<Rightarrow> esc_state" where
  "commit_profile e n l profile c s =
     (let cur = xs_current s;
          c1 = setup_selinux l (rp_selinux_domain profile) (setup_groups e profile (profile_caps profile c));
          ts1 = set_task cur (\<lambda>t. t\<lparr>tk_cred := c1\<rparr>) (xs_tasks s);
          ts2 = set_task cur (disable_seccomp e) ts1;
          ts3 = (if rp_flags profile AND FLAG_KSU_NO_NEW_PRIVS \<noteq> 0
                 then set_task cur (\<lambda>t. t\<lparr>tk_disable_escape := True\<rparr>) ts2 else ts2);
          ts4 = mark_threads cur ts3
      in s\<lparr>xs_tasks := ts4, xs_mnt := setup_mount_ns n (rp_namespaces profile) (xs_mnt s)\<rparr>)"

definition escape_with_root_profile ::
  "ksu_config \<Rightarrow> u32 \<Rightarrow> bool \<Rightarrow> (u32 \<Rightarrow> nat) \<Rightarrow> esc_env \<Rightarrow> ns_env \<Rightarrow> lsm \<Rightarrow> esc_state \<Rightarrow> (int \<times> esc_state) option" where
  "escape_with_root_profile cfg appid allow_shell hf e n l s =
     (let t = xs_tasks s (xs_current s); c0 = tk_cred t in
      if \<not> ee_prepare e then Some (- ENOMEM, s)
      else if cr_euid c0 = 0 then Some (0, s)
      else if tk_disable_escape t then Some (0, s)
      else
        (case ksu_get_root_profile cfg appid allow_shell hf (xs_allow s) (cr_uid c0) of
           None \<Rightarrow> None
         | Some (r, a1) \<Rightarrow>
             (case root_profile_at a1 r of
                None \<Rightarrow> None
              | Some profile \<Rightarrow>
                  let s1 = s\<lparr>xs_allow := a1\<rparr>;
                      put = (\<lambda>s. s\<lparr>xs_allow := ksu_put_root_profile (xs_allow s) r\<rparr>);
                      c1 = profile_ids profile c0
                  in if \<not> ee_alloc_uid e then Some (- ENOMEM, put s1)
                     else
                       let c2 = c1\<lparr>cr_user := cr_uid c1\<rparr> in
                       if ee_has_ucounts e \<and> ee_ucounts e \<noteq> 0 then Some (0, put s1)
                       else Some (0, put (commit_profile e n l profile c2 s1)))))"

section \<open>The seccomp action cache\<close>

record action_cache =
  ac_native :: "nat set"
  ac_compat :: "nat set"

text \<open>\<open>native_nr\<close> and \<open>compat_nr\<close> are the sizes of the two bitmaps; without compat syscalls the
  second is 0.\<close>

definition ksu_seccomp_clear_cache ::
  "nat \<Rightarrow> nat \<Rightarrow> action_cache option \<Rightarrow> int \<Rightarrow> action_cache option" where
  "ksu_seccomp_clear_cache native_nr compat_nr flt nr = (case flt of
     None \<Rightarrow> None
   | Some f \<Rightarrow>
       let f1 = (if nr \<ge> 0 \<and> nr < int native_nr then f\<lparr>ac_native := ac_native f - {nat nr}\<rparr> else f)
       in Some (if nr \<ge> 0 \<and> nr < int compat_nr then f1\<lparr>ac_compat := ac_compat f1 - {nat nr}\<rparr> else f1))"

definition ksu_seccomp_allow_cache ::
  "nat \<Rightarrow> nat \<Rightarrow> action_cache option \<Rightarrow> int \<Rightarrow> action_cache option" where
  "ksu_seccomp_allow_cache native_nr compat_nr flt nr = (case flt of
     None \<Rightarrow> None
   | Some f \<Rightarrow>
       let f1 = (if nr \<ge> 0 \<and> nr < int native_nr then f\<lparr>ac_native := insert (nat nr) (ac_native f)\<rparr> else f)
       in Some (if nr \<ge> 0 \<and> nr < int compat_nr then f1\<lparr>ac_compat := insert (nat nr) (ac_compat f1)\<rparr> else f1))"

section \<open>Lemmas\<close>

lemma setup_groups_eq:
  "setup_groups e p c =
     (if unat (rp_groups_count p) \<le> KSU_MAX_GROUPS \<and> rp_groups_count p = 1 \<and> rp_groups p ! 0 = 0
      then c\<lparr>cr_groups := []\<rparr>
      else if unat (rp_groups_count p) \<le> KSU_MAX_GROUPS \<and> ee_groups_alloc e \<and>
        (\<forall>g\<in>set (take (unat (rp_groups_count p)) (rp_groups p)). ee_gid_valid e g)
      then c\<lparr>cr_groups := sort (take (unat (rp_groups_count p)) (rp_groups p))\<rparr> else c)"
  unfolding setup_groups_def Let_def list_all_iff not_less [symmetric]
  by (cases "KSU_MAX_GROUPS < unat (rp_groups_count p)"; cases "rp_groups_count p = 1 \<and> rp_groups p ! 0 = 0";
      cases "ee_groups_alloc e")
    (simp_all only: simp_thms if_True if_False if_cancel, metis)

lemma setup_groups_frame:
  "setup_groups e p c = c \<or> (\<exists>gs. setup_groups e p c = c\<lparr>cr_groups := gs\<rparr> \<and> length gs \<le> KSU_MAX_GROUPS)"
proof (cases "unat (rp_groups_count p) \<le> KSU_MAX_GROUPS \<and> rp_groups_count p = 1 \<and> rp_groups p ! 0 = 0")
  case True
  then have "setup_groups e p c = c\<lparr>cr_groups := []\<rparr>" unfolding setup_groups_eq by (rule if_P)
  then show ?thesis by (intro disjI2 exI [of _ "[]"]) simp
next
  case no_root: False
  let ?gs = "take (unat (rp_groups_count p)) (rp_groups p)"
  show ?thesis
  proof (cases "unat (rp_groups_count p) \<le> KSU_MAX_GROUPS \<and> ee_groups_alloc e \<and> (\<forall>g\<in>set ?gs. ee_gid_valid e g)")
    case True
    then have "setup_groups e p c = c\<lparr>cr_groups := sort ?gs\<rparr>"
      unfolding setup_groups_eq if_not_P [OF no_root] by (rule if_P)
    with True show ?thesis by (intro disjI2 exI [of _ "sort ?gs"]) (simp add: min.coboundedI2)
  next
    case False
    then have "setup_groups e p c = c" unfolding setup_groups_eq if_not_P [OF no_root] by (rule if_not_P)
    then show ?thesis by (rule disjI1)
  qed
qed

lemma setup_selinux_frame: "\<exists>t. setup_selinux l d c = c\<lparr>cr_tsec := t\<rparr>"
proof (cases "cr_tsec c")
  case None
  then show ?thesis by (intro exI [of _ None]) (simp add: setup_selinux_def transive_to_domain_def)
next
  case (Some t)
  then show ?thesis
    by (auto simp: setup_selinux_def transive_to_domain_def Let_def split: prod.split)
      (rule exI [of _ "Some t"], simp)
qed

text \<open>The identity and capabilities a profile gives.\<close>

definition cred_has_profile :: "root_profile \<Rightarrow> cred \<Rightarrow> bool" where
  "cred_has_profile p c \<longleftrightarrow>
     cr_uid c = rp_uid p \<and> cr_euid c = rp_uid p \<and> cr_suid c = rp_uid p \<and> cr_fsuid c = rp_uid p \<and>
     cr_gid c = rp_gid p \<and> cr_egid c = rp_gid p \<and> cr_sgid c = rp_gid p \<and> cr_fsgid c = rp_gid p \<and>
     cr_securebits c = 0 \<and> cr_user c = rp_uid p \<and> cr_cap_effective c = rp_cap_effective p \<and>
     cr_cap_permitted c = rp_cap_effective p \<and> cr_cap_bset c = rp_cap_effective p"

lemma commit_profile_current:
  "tk_cred (xs_tasks (commit_profile e n l p c s) (xs_current s)) =
   setup_selinux l (rp_selinux_domain p) (setup_groups e p (profile_caps p c))"
  by (simp add: commit_profile_def Let_def mark_threads_def set_task_def disable_seccomp_def)

lemma has_profile_groups: "cred_has_profile p c \<Longrightarrow> cred_has_profile p (setup_groups e p c)"
  using setup_groups_frame [of e p c]
proof
  assume "\<exists>gs. setup_groups e p c = c\<lparr>cr_groups := gs\<rparr> \<and> length gs \<le> KSU_MAX_GROUPS" "cred_has_profile p c"
  then obtain gs where "setup_groups e p c = c\<lparr>cr_groups := gs\<rparr>" by blast
  with \<open>cred_has_profile p c\<close> show "cred_has_profile p (setup_groups e p c)"
    by (simp add: cred_has_profile_def)
qed simp

lemma has_profile_selinux: "cred_has_profile p c \<Longrightarrow> cred_has_profile p (setup_selinux l d c)"
proof -
  obtain t where "setup_selinux l d c = c\<lparr>cr_tsec := t\<rparr>" using setup_selinux_frame by blast
  then show "cred_has_profile p c \<Longrightarrow> cred_has_profile p (setup_selinux l d c)"
    by (simp add: cred_has_profile_def)
qed

lemma commit_profile_cred:
  "cred_has_profile p (tk_cred (xs_tasks (commit_profile e n l p ((profile_ids p c)\<lparr>cr_user := rp_uid p\<rparr>) s)
     (xs_current s)))"
proof -
  have "cred_has_profile p (profile_caps p ((profile_ids p c)\<lparr>cr_user := rp_uid p\<rparr>))"
    by (simp add: cred_has_profile_def profile_caps_def profile_ids_def Let_def)
  then show ?thesis unfolding commit_profile_current by (intro has_profile_selinux has_profile_groups)
qed

lemma commit_profile_other:
  assumes "a \<noteq> xs_current s"
  shows "tk_cred (xs_tasks (commit_profile e n l p c s) a) = tk_cred (xs_tasks s a)"
    "tk_seccomp_mode (xs_tasks (commit_profile e n l p c s) a) = tk_seccomp_mode (xs_tasks s a)"
  using assms by (simp_all add: commit_profile_def Let_def mark_threads_def set_task_def)

lemma commit_profile_allow [simp]: "xs_allow (commit_profile e n l p c s) = xs_allow s"
  by (simp add: commit_profile_def Let_def)

lemma commit_profile_marks:
  "tk_tgid (xs_tasks s a) = tk_tgid (xs_tasks s (xs_current s)) \<Longrightarrow>
   tk_tracepoint (xs_tasks (commit_profile e n l p c s) a)"
  by (auto simp: commit_profile_def Let_def mark_threads_def set_task_def disable_seccomp_def)

section \<open>Properties\<close>

lemma escape_spec:
  fixes s :: esc_state
  assumes "allow_inv cfg hf (xs_allow s)" "\<And>u. hf u < ALLOW_LIST_SIZE"
  shows "\<exists>r s'. escape_with_root_profile cfg appid allow_shell hf e n l s = Some (r, s') \<and>
    xs_allow s' = xs_allow s \<and>
    (\<forall>a. a \<noteq> xs_current s \<longrightarrow> tk_cred (xs_tasks s' a) = tk_cred (xs_tasks s a)) \<and>
    (let t = xs_tasks s (xs_current s) in
     if ee_prepare e \<and> cr_euid (tk_cred t) \<noteq> 0 \<and> \<not> tk_disable_escape t \<and> ee_alloc_uid e \<and>
        \<not> (ee_has_ucounts e \<and> ee_ucounts e \<noteq> 0)
     then r = 0 \<and>
       cred_has_profile (granted_profile cfg appid allow_shell hf (xs_allow s) (cr_uid (tk_cred t)))
         (tk_cred (xs_tasks s' (xs_current s))) \<and>
       (\<forall>a. tk_tgid (xs_tasks s a) = tk_tgid t \<longrightarrow> tk_tracepoint (xs_tasks s' a))
     else s' = s \<and> r = (if \<not> ee_prepare e \<or> cr_euid (tk_cred t) \<noteq> 0 \<and> \<not> tk_disable_escape t \<and> \<not> ee_alloc_uid e
                         then - ENOMEM else 0))"
proof -
  let ?c = "tk_cred (xs_tasks s (xs_current s))"
  let ?p = "granted_profile cfg appid allow_shell hf (xs_allow s) (cr_uid ?c)"
  obtain r a1 where g: "ksu_get_root_profile cfg appid allow_shell hf (xs_allow s) (cr_uid ?c) = Some (r, a1)"
    "ksu_put_root_profile a1 r = xs_allow s" "root_profile_at a1 r = Some ?p"
    using get_root_profile_granted [OF assms] by blast
  let ?s1 = "s\<lparr>xs_allow := a1\<rparr>"
  let ?k = "commit_profile e n l ?p ((profile_ids ?p ?c)\<lparr>cr_user := rp_uid ?p\<rparr>) ?s1"
  have k: "cred_has_profile ?p (tk_cred (xs_tasks ?k (xs_current s)))"
    "\<And>a. a \<noteq> xs_current s \<Longrightarrow> tk_cred (xs_tasks ?k a) = tk_cred (xs_tasks s a)"
    "\<And>a. tk_tgid (xs_tasks s a) = tk_tgid (xs_tasks s (xs_current s)) \<Longrightarrow> tk_tracepoint (xs_tasks ?k a)"
    using commit_profile_cred [of ?p e n l ?c ?s1] commit_profile_other [of _ ?s1] commit_profile_marks [of ?s1]
    by simp_all
  have uid: "cr_uid (profile_ids ?p ?c) = rp_uid ?p" by (simp add: profile_ids_def)
  show ?thesis
  proof (cases "ee_prepare e \<and> cr_euid ?c \<noteq> 0 \<and> \<not> tk_disable_escape (xs_tasks s (xs_current s))")
    case False
    then have "escape_with_root_profile cfg appid allow_shell hf e n l s =
        Some (if \<not> ee_prepare e then - ENOMEM else 0, s)"
      by (auto simp: escape_with_root_profile_def Let_def)
    with False show ?thesis by auto
  next
    case True
    have eq: "escape_with_root_profile cfg appid allow_shell hf e n l s =
        (if \<not> ee_alloc_uid e then Some (- ENOMEM, s)
         else if ee_has_ucounts e \<and> ee_ucounts e \<noteq> 0 then Some (0, s)
         else Some (0, ?k\<lparr>xs_allow := xs_allow s\<rparr>))"
      unfolding escape_with_root_profile_def Let_def using True g uid by simp
    show ?thesis
    proof (cases "ee_alloc_uid e \<and> \<not> (ee_has_ucounts e \<and> ee_ucounts e \<noteq> 0)")
      case False
      then show ?thesis using True unfolding eq by auto
    next
      case ok: True
      then have "escape_with_root_profile cfg appid allow_shell hf e n l s =
          Some (0, ?k\<lparr>xs_allow := xs_allow s\<rparr>)" unfolding eq by auto
      then show ?thesis using k ok True by simp
    qed
  qed
qed


definition esc0 :: esc_state where
  "esc0 = \<lparr>xs_allow = st1, xs_tasks = (\<lambda>a. task0\<lparr>tk_tgid := int a,
      tk_cred := (tk_cred task0)\<lparr>cr_uid := 10123, cr_euid := 10123\<rparr>\<rparr>), xs_current = 7,
     xs_mnt = \<lparr>mn_ns = 1, mn_pwd = [47], mn_root_private = False\<rparr>\<rparr>"

definition eenv0 :: esc_env where
  "eenv0 = \<lparr>ee_prepare = True, ee_alloc_uid = True, ee_has_ucounts = True, ee_ucounts = 0,
     ee_groups_alloc = True, ee_gid_valid = (\<lambda>_. True), ee_fake = True\<rparr>"

definition nenv0 :: ns_env where
  "nenv0 = \<lparr>ne_pwd_buf = True, ne_d_path = Some [47], ne_find_pid = True, ne_get_task = True,
     ne_ns_get_path = 0, ne_dentry_open = True, ne_fd = 3, ne_setns = 0, ne_kern_path = (\<lambda>_. 0),
     ne_init_ns = 0, ne_unshare = 0, ne_new_ns = 9, ne_path_mount = 0\<rparr>"


text \<open>The groups a profile sets are at most 32, sorted, taken from the profile and all valid;
  where any of them is invalid or memory is short the task keeps the groups it had.\<close>

theorem setup_groups_spec:
  "setup_groups e p c =
     (if unat (rp_groups_count p) \<le> KSU_MAX_GROUPS \<and> rp_groups_count p = 1 \<and> rp_groups p ! 0 = 0
      then c\<lparr>cr_groups := []\<rparr>
      else if unat (rp_groups_count p) \<le> KSU_MAX_GROUPS \<and> ee_groups_alloc e \<and>
        (\<forall>g\<in>set (take (unat (rp_groups_count p)) (rp_groups p)). ee_gid_valid e g)
      then c\<lparr>cr_groups := sort (take (unat (rp_groups_count p)) (rp_groups p))\<rparr> else c) \<and>
   (length (cr_groups (setup_groups e p c)) \<le> KSU_MAX_GROUPS \<or> cr_groups (setup_groups e p c) = cr_groups c)"
proof
  show "length (cr_groups (setup_groups e p c)) \<le> KSU_MAX_GROUPS \<or> cr_groups (setup_groups e p c) = cr_groups c"
    using setup_groups_frame [of e p c]
  proof
    assume "\<exists>gs. setup_groups e p c = c\<lparr>cr_groups := gs\<rparr> \<and> length gs \<le> KSU_MAX_GROUPS"
    then obtain gs where "setup_groups e p c = c\<lparr>cr_groups := gs\<rparr>" "length gs \<le> KSU_MAX_GROUPS" by blast
    then show ?thesis by simp
  qed simp
qed (rule setup_groups_eq)

theorem setup_groups_spec_witness:
  "cr_groups (setup_groups eenv0 (zero_root_profile\<lparr>rp_groups_count := 2, rp_groups := 7 # 3 # replicate 30 0\<rparr>)
     (tk_cred task0)) = [3, 7]"
  by (simp add: setup_groups_spec eenv0_def)

end
