(* ===== verification/KSU_ApkSign.thy ===== *)
theory KSU_ApkSign
  imports KSU_Profile
begin

text \<open>
  The signature check of the manager's APK (\<open>manager/apk_sign.c\<close>): finding the end of central
  directory, locating the APK signing block, scanning its pairs, and comparing the first
  certificate's SHA-256 with the expected one.

  A file is its bytes; \<open>kernel_read\<close> returns the bytes that are there. Offsets (\<open>loff_t\<close>) are
  \<open>int\<close>. The kernel's SHA-256 is the parameter \<open>sha\<close>, a digest or nothing on error.
\<close>

section \<open>Reading\<close>

abbreviation INT_MAX :: int where "INT_MAX \<equiv> 2147483647"

definition slice :: "bytes \<Rightarrow> int \<Rightarrow> int \<Rightarrow> bytes" where
  "slice f a b = take (nat (b - a)) (drop (nat a) f)"

text \<open>The bytes read and the new position.\<close>

definition read_exact :: "bytes \<Rightarrow> nat \<Rightarrow> int \<Rightarrow> int \<Rightarrow> (bytes \<times> int) option" where
  "read_exact f sz pos end_pos =
     (if pos < 0 \<or> pos > end_pos \<or> int sz > end_pos - pos then None
      else let b = take sz (drop (nat pos) f) in
        if length b = sz then Some (b, pos + int sz) else None)"

text \<open>The new position and the end of the value.\<close>

definition read_length_prefixed_end :: "bytes \<Rightarrow> int \<Rightarrow> int \<Rightarrow> (int \<times> int) option" where
  "read_length_prefixed_end f pos container_end =
     (case read_exact f 4 pos container_end of
        None \<Rightarrow> None
      | Some (b, pos1) \<Rightarrow>
          let len = int (le_dec b) in
          if len > INT_MAX \<or> len > container_end - pos1 then None else Some (pos1, pos1 + len))"

section \<open>Certificates\<close>

abbreviation CERT_MAX_LENGTH :: int where "CERT_MAX_LENGTH \<equiv> 1024"

definition hex_digit :: "nat \<Rightarrow> u8" where
  "hex_digit n = of_nat (if n < 10 then 48 + n else 87 + n)"

definition bin2hex :: "bytes \<Rightarrow> bytes" where
  "bin2hex d = concat (map (\<lambda>b. [hex_digit (unat b div 16), hex_digit (unat b mod 16)]) d)"

definition check_block ::
  "(bytes \<Rightarrow> bytes option) \<Rightarrow> bytes \<Rightarrow> int \<Rightarrow> int \<Rightarrow> int \<Rightarrow> bytes \<Rightarrow> bool" where
  "check_block sha f pos block_end expected_size expected_sha256 =
     (case read_length_prefixed_end f pos block_end of None \<Rightarrow> False | Some (pos1, signers_end) \<Rightarrow>
      case read_length_prefixed_end f pos1 signers_end of None \<Rightarrow> False | Some (pos2, signer_end) \<Rightarrow>
      case read_length_prefixed_end f pos2 signer_end of None \<Rightarrow> False | Some (pos3, signed_data_end) \<Rightarrow>
      case read_length_prefixed_end f pos3 signed_data_end of None \<Rightarrow> False | Some (pos4, digests_end) \<Rightarrow>
      case read_length_prefixed_end f digests_end signed_data_end of None \<Rightarrow> False | Some (pos5, certificates_end) \<Rightarrow>
      case read_exact f 4 pos5 certificates_end of None \<Rightarrow> False | Some (b, pos6) \<Rightarrow>
        let certificate_size = int (le_dec b) in
        if certificate_size > INT_MAX \<or> certificate_size > certificates_end - pos6 then False
        else if certificate_size \<noteq> expected_size then False
        else if certificate_size > CERT_MAX_LENGTH then False
        else
          (case read_exact f (nat certificate_size) pos6 certificates_end of
             None \<Rightarrow> False
           | Some (cert, pos7) \<Rightarrow>
               (case sha cert of
                  None \<Rightarrow> False
                | Some digest \<Rightarrow> cstr expected_sha256 = bin2hex digest)))"

section \<open>The signing block\<close>

function find_eocd :: "bytes \<Rightarrow> int \<Rightarrow> nat \<Rightarrow> int option" where
  "find_eocd f file_size i =
     (case read_exact f 2 (file_size - int i - 2) file_size of
        None \<Rightarrow> None
      | Some (b, pos) \<Rightarrow>
          if le_dec b = i then
            (case read_exact f 4 (pos - 22) file_size of
               None \<Rightarrow> None
             | Some (m, pos1) \<Rightarrow>
                 if le_dec m = 0x06054b50 then Some (pos1 - 4)
                 else if i \<ge> 0xffff then None
                 else find_eocd f file_size (Suc i))
          else if i \<ge> 0xffff then None
          else find_eocd f file_size (Suc i))"
  by pat_completeness auto
termination
  by (relation "measure (\<lambda>(f, file_size, i). 0x10000 - i)") auto

declare find_eocd.simps [simp del]

abbreviation ID_V2 :: nat where "ID_V2 \<equiv> 0x7109871a"
abbreviation ID_PADDING :: nat where "ID_PADDING \<equiv> 0x42726577"

text \<open>The scan of the pairs: nothing where it is invalid, else the number of v2 blocks and the
  verdict of the last one. \<open>check\<close> is \<open>check_block\<close> on the rest of a pair.\<close>

function scan_pairs :: "bytes \<Rightarrow> (int \<Rightarrow> int \<Rightarrow> bool) \<Rightarrow> int \<Rightarrow> int \<Rightarrow> int \<Rightarrow> bool \<Rightarrow> (int \<times> bool) option" where
  "scan_pairs f check pairs_end pos blocks valid =
     (if pos < pairs_end then
        (case read_exact f 8 pos pairs_end of
           None \<Rightarrow> None
         | Some (b, pos1) \<Rightarrow>
             let size_of_pair = int (le_dec b) in
             if size_of_pair < 4 \<or> size_of_pair > INT_MAX \<or> size_of_pair > pairs_end - pos1 then None
             else
               let pair_end = pos1 + size_of_pair in
               (case read_exact f 4 pos1 pair_end of
                  None \<Rightarrow> None
                | Some (i, pos2) \<Rightarrow>
                    if le_dec i = ID_V2 then
                      scan_pairs f check pairs_end pair_end (blocks + 1) (check pos2 pair_end)
                    else if le_dec i \<noteq> ID_PADDING then None
                    else scan_pairs f check pairs_end pair_end blocks valid))
      else Some (blocks, valid))"
  by pat_completeness auto
termination
  by (relation "measure (\<lambda>(f, check, pairs_end, pos, blocks, valid). nat (pairs_end - pos))")
     (auto simp: read_exact_def Let_def split: if_splits)

declare scan_pairs.simps [simp del]

definition zip64_present :: "bytes \<Rightarrow> int \<Rightarrow> int \<Rightarrow> bool option" where
  "zip64_present f eocd_offset file_size =
     (if eocd_offset \<ge> 20 then
        (case read_exact f 4 (eocd_offset - 20) file_size of
           None \<Rightarrow> None
         | Some (m, _) \<Rightarrow> Some (le_dec m = 0x07064b50))
      else Some False)"

definition check_signing_block ::
  "(bytes \<Rightarrow> bytes option) \<Rightarrow> bytes \<Rightarrow> int \<Rightarrow> int \<Rightarrow> bytes \<Rightarrow> bool" where
  "check_signing_block sha f cd_offset expected_size expected_sha256 =
     (case read_exact f 8 (cd_offset - 0x18) cd_offset of None \<Rightarrow> False | Some (b3, pos3) \<Rightarrow>
      case read_exact f 16 pos3 cd_offset of None \<Rightarrow> False | Some (magic, pos4) \<Rightarrow>
      if magic \<noteq> chars ''APK Sig Block 42'' then False
      else if int (le_dec b3) < 0x18 \<or> int (le_dec b3) > INT_MAX - 8 \<or> int (le_dec b3) > cd_offset - 8 then False
      else
        case read_exact f 8 (cd_offset - int (le_dec b3) - 8) (cd_offset - 0x18) of None \<Rightarrow> False | Some (b4, pos5) \<Rightarrow>
        if le_dec b4 \<noteq> le_dec b3 then False
        else
          (case scan_pairs f (\<lambda>p e. check_block sha f p e expected_size expected_sha256)
                  (cd_offset - 0x18) pos5 0 False of
             None \<Rightarrow> False
           | Some (blocks, valid) \<Rightarrow> if blocks \<noteq> 1 then False else valid))"

definition check_v2_signature ::
  "(bytes \<Rightarrow> bytes option) \<Rightarrow> bytes option \<Rightarrow> int \<Rightarrow> bytes \<Rightarrow> bool" where
  "check_v2_signature sha file expected_size expected_sha256 =
     (case file of None \<Rightarrow> False | Some f \<Rightarrow>
      case find_eocd f (int (length f)) 0 of None \<Rightarrow> False | Some eocd_offset \<Rightarrow>
      case zip64_present f eocd_offset (int (length f)) of None \<Rightarrow> False | Some zip64 \<Rightarrow>
      if zip64 then False else
      case read_exact f 4 (eocd_offset + 12) (int (length f)) of None \<Rightarrow> False | Some (b1, pos1) \<Rightarrow>
      case read_exact f 4 pos1 (int (length f)) of None \<Rightarrow> False | Some (b2, pos2) \<Rightarrow>
      if int (le_dec b2) > eocd_offset \<or> int (le_dec b1) \<noteq> eocd_offset - int (le_dec b2) then False
      else if int (le_dec b2) < 0x20 then False
      else check_signing_block sha f (int (le_dec b2)) expected_size expected_sha256)"

definition is_manager_apk :: "(bytes \<Rightarrow> bytes option) \<Rightarrow> int \<Rightarrow> bytes \<Rightarrow> (bytes \<Rightarrow> bytes option) \<Rightarrow> bytes \<Rightarrow> bool" where
  "is_manager_apk sha manager_size manager_hash fs path =
     check_v2_signature sha (fs path) manager_size manager_hash"

section \<open>The package of an APK directory\<close>

text \<open>\<open>path\<close> is the string without its terminator; the result is the package name, or nothing for
  \<open>-1\<close>. The part from the last slash on is the slash and what follows it.\<close>

definition get_pkg_from_apk_dir_path :: "bytes \<Rightarrow> bytes option" where
  "get_pkg_from_apk_dir_path path =
     (let len = length path in
      if len \<ge> KSU_MAX_PACKAGE_NAME \<or> len < 1 then None
      else if 47 \<notin> set path then None
      else
        let base = rev (takeWhile (\<lambda>c. c \<noteq> 47) (rev path)) in
        if 45 \<notin> set base then None
        else
          let pkg = takeWhile (\<lambda>c. c \<noteq> 45) base in
          if length pkg \<ge> KSU_MAX_PACKAGE_NAME \<or> length pkg \<le> 0 then None else Some pkg)"

section \<open>Lemmas: slices\<close>

lemma slice_append:
  assumes "0 \<le> a" "a \<le> b" "b \<le> c"
  shows "slice f a c = slice f a b @ slice f b c"
proof -
  have "nat (c - a) = nat (b - a) + nat (c - b)" "nat b = nat (b - a) + nat a" using assms by simp_all
  then show ?thesis by (simp add: slice_def take_add drop_drop add.commute)
qed

lemma length_slice: "0 \<le> a \<Longrightarrow> a \<le> b \<Longrightarrow> b \<le> int (length f) \<Longrightarrow> length (slice f a b) = nat (b - a)"
  by (simp add: slice_def)

lemma read_exact_iff:
  "read_exact f n pos e = Some (b, pos1) \<longleftrightarrow>
   0 \<le> pos \<and> pos + int n \<le> e \<and> pos1 = pos + int n \<and> b = slice f pos pos1 \<and> length b = n"
  by (auto simp: read_exact_def slice_def Let_def)

text \<open>A value with its 4-byte length in front.\<close>

definition lp :: "bytes \<Rightarrow> bytes" where
  "lp v = le_enc 4 (length v) @ v"

lemma read_lp_sound:
  assumes "read_length_prefixed_end f pos e = Some (p1, ve)" "e \<le> int (length f)"
  shows "0 \<le> pos" "pos + 4 = p1" "p1 \<le> ve" "ve \<le> e" "slice f pos e = lp (slice f p1 ve) @ slice f ve e"
proof -
  obtain b where b: "read_exact f 4 pos e = Some (b, p1)" "ve = p1 + int (le_dec b)"
    "int (le_dec b) \<le> e - p1"
    using assms(1) by (auto simp: read_length_prefixed_end_def Let_def split: option.splits if_splits)
  from b(1) have r: "0 \<le> pos" "pos + 4 = p1" "p1 \<le> e" "b = slice f pos p1" "length b = 4"
    by (auto simp: read_exact_iff)
  show le: "0 \<le> pos" "pos + 4 = p1" "p1 \<le> ve" "ve \<le> e" using r b by auto
  have "length (slice f p1 ve) = nat (ve - p1)" using le assms(2) r by (intro length_slice) auto
  then have "le_enc 4 (length (slice f p1 ve)) = b" using b(2) r(5) le_enc_dec [of b 4] by simp
  then show "slice f pos e = lp (slice f p1 ve) @ slice f ve e"
    using slice_append [of pos p1 e f] slice_append [of p1 ve e f] le r by (simp add: lp_def)
qed

text \<open>The value of a v2 block whose first signer's first certificate is \<open>cert\<close>.\<close>

definition v2_value :: "bytes \<Rightarrow> bytes \<Rightarrow> bool" where
  "v2_value cert v \<longleftrightarrow> (\<exists>digests certs sdata signer signers r0 r1 r2 r3.
     v = lp signers @ r0 \<and> signers = lp signer @ r1 \<and> signer = lp sdata @ r2 \<and>
     (\<exists>r4. sdata = lp digests @ lp certs @ r4) \<and> certs = lp cert @ r3)"

definition cert_accepted :: "(bytes \<Rightarrow> bytes option) \<Rightarrow> int \<Rightarrow> bytes \<Rightarrow> bytes \<Rightarrow> bool" where
  "cert_accepted sha expected_size expected_sha256 cert \<longleftrightarrow>
     int (length cert) = expected_size \<and> expected_size \<le> CERT_MAX_LENGTH \<and>
     (\<exists>d. sha cert = Some d \<and> bin2hex d = cstr expected_sha256)"

lemma check_block_sound:
  assumes c: "check_block sha f pos e sz h" and e: "e \<le> int (length f)"
  shows "\<exists>cert. v2_value cert (slice f pos e) \<and> cert_accepted sha sz h cert"
proof -
  obtain p1 e1 p2 e2 p3 e3 p4 e4 p5 e5 b p6 where
    r: "read_length_prefixed_end f pos e = Some (p1, e1)"
      "read_length_prefixed_end f p1 e1 = Some (p2, e2)"
      "read_length_prefixed_end f p2 e2 = Some (p3, e3)"
      "read_length_prefixed_end f p3 e3 = Some (p4, e4)"
      "read_length_prefixed_end f e4 e3 = Some (p5, e5)"
    and b1: "read_exact f 4 p5 e5 = Some (b, p6)"
    and c5: "let certificate_size = int (le_dec b) in
        if certificate_size > INT_MAX \<or> certificate_size > e5 - p6 then False
        else if certificate_size \<noteq> sz then False
        else if certificate_size > CERT_MAX_LENGTH then False
        else (case read_exact f (nat certificate_size) p6 e5 of None \<Rightarrow> False
           | Some (cert, pos7) \<Rightarrow> (case sha cert of None \<Rightarrow> False | Some digest \<Rightarrow> cstr h = bin2hex digest))"
    using c [unfolded check_block_def] by (elim case_pair_SomeE)
  from c5 b1 obtain cert p7 d where b: "read_exact f 4 p5 e5 = Some (b, p6)"
    "int (le_dec b) \<le> INT_MAX" "int (le_dec b) \<le> e5 - p6" "int (le_dec b) = sz" "int (le_dec b) \<le> CERT_MAX_LENGTH"
    "read_exact f (le_dec b) p6 e5 = Some (cert, p7)" "sha cert = Some d" "cstr h = bin2hex d"
    by (auto simp: Let_def split: option.splits if_splits)
  note s1 = read_lp_sound [OF r(1) e]
  have e1: "e1 \<le> int (length f)" using s1 e by simp
  note s2 = read_lp_sound [OF r(2) e1]
  have e2: "e2 \<le> int (length f)" using s2 e1 by simp
  note s3 = read_lp_sound [OF r(3) e2]
  have e3: "e3 \<le> int (length f)" using s3 e2 by simp
  note s4 = read_lp_sound [OF r(4) e3] and s5 = read_lp_sound [OF r(5) e3]
  have e5: "e5 \<le> int (length f)" using s5 e3 by simp
  have rl: "read_length_prefixed_end f p5 e5 = Some (p6, p6 + int (le_dec b))"
    using b by (simp add: read_length_prefixed_end_def Let_def)
  note s6 = read_lp_sound [OF rl e5]
  have cert: "cert = slice f p6 (p6 + int (le_dec b))" "length cert = le_dec b"
    using b(6) by (auto simp: read_exact_iff)
  have "v2_value cert (slice f pos e)"
    unfolding v2_value_def using s1(5) s2(5) s3(5) s4(5) s5(5) s6(5) cert(1) by metis
  moreover have "cert_accepted sha sz h cert" using b cert(2) by (simp add: cert_accepted_def)
  ultimately show ?thesis by blast
qed

text \<open>A pair of the signing block.\<close>

definition pair_bytes :: "nat \<times> bytes \<Rightarrow> bytes" where
  "pair_bytes p = le_enc 8 (4 + length (snd p)) @ le_enc 4 (fst p) @ snd p"

lemma scan_pairs_sound:
  assumes "scan_pairs f check pe pos blocks valid = Some (n, v)" "0 \<le> pos" "pos \<le> pe" "pe \<le> int (length f)"
  shows "\<exists>ps. slice f pos pe = concat (map pair_bytes ps) \<and>
    (\<forall>p\<in>set ps. fst p = ID_V2 \<or> fst p = ID_PADDING) \<and>
    n = blocks + int (length (filter (\<lambda>p. fst p = ID_V2) ps)) \<and>
    (if filter (\<lambda>p. fst p = ID_V2) ps = [] then v = valid
     else \<exists>a e. v = check a e \<and> 0 \<le> a \<and> a \<le> e \<and> e \<le> pe \<and> slice f a e = snd (last (filter (\<lambda>p. fst p = ID_V2) ps)))"
  using assms
proof (induction f check pe pos blocks valid rule: scan_pairs.induct)
  case (1 f check pe pos blocks valid)
  show ?case
  proof (cases "pos < pe")
    case False
    with 1 show ?thesis
      by (intro exI [of _ "[]"]) (auto simp: scan_pairs.simps [of f check pe pos] slice_def)
  next
    case True
    from 1(3) True obtain b p1 where b: "read_exact f 8 pos pe = Some (b, p1)"
      by (auto simp: scan_pairs.simps [of f check pe pos] split: option.splits)
    define sz where "sz = int (le_dec b)"
    have szok: "\<not> (sz < 4 \<or> sz > INT_MAX \<or> sz > pe - p1)"
      using 1(3) True b by (auto simp: scan_pairs.simps [of f check pe pos] sz_def Let_def split: if_splits)
    define q where "q = p1 + sz"
    from 1(3) True b szok obtain i p2 where i: "read_exact f 4 p1 q = Some (i, p2)"
      by (auto simp: scan_pairs.simps [of f check pe pos] sz_def q_def Let_def split: option.splits)
    have r: "p1 = pos + 8" "b = slice f pos p1" "length b = 8" "p2 = p1 + 4" "i = slice f p1 p2" "length i = 4"
      using b i by (auto simp: read_exact_iff)
    have le: "0 \<le> p2" "p2 \<le> q" "q \<le> pe" using r 1(4) szok by (auto simp: q_def)
    let ?p = "(le_dec i, slice f p2 q)"
    have len: "length (slice f p2 q) = nat (q - p2)" using le 1(6) by (intro length_slice) auto
    have "slice f pos q = b @ i @ slice f p2 q"
      using slice_append [of pos p1 q f] slice_append [of p1 p2 q f] r le 1(4) by simp
    also have "\<dots> = pair_bytes ?p"
      using len r szok le_enc_dec [of b 8] le_enc_dec [of i 4]
      by (simp add: pair_bytes_def q_def sz_def nat_diff_distrib' nat_int_add)
    finally have pb: "slice f pos pe = pair_bytes ?p @ slice f q pe"
      using slice_append [of pos q pe f] r le 1(4) by simp
    show ?thesis
    proof (cases "le_dec i = ID_V2")
      case v2: True
      have "scan_pairs f check pe q (blocks + 1) (check p2 q) = Some (n, v)"
        using 1(3) True b szok i v2 by (simp add: scan_pairs.simps [of f check pe pos] sz_def q_def Let_def)
      from 1(1) [OF True b refl sz_def _ q_def i refl v2 this] szok le 1(4,6) r
      obtain ps where ps: "slice f q pe = concat (map pair_bytes ps)"
        "\<forall>p\<in>set ps. fst p = ID_V2 \<or> fst p = ID_PADDING"
        "n = blocks + 1 + int (length (filter (\<lambda>p. fst p = ID_V2) ps))"
        "if filter (\<lambda>p. fst p = ID_V2) ps = [] then v = check p2 q
         else \<exists>a e. v = check a e \<and> 0 \<le> a \<and> a \<le> e \<and> e \<le> pe \<and> slice f a e = snd (last (filter (\<lambda>p. fst p = ID_V2) ps))"
        by auto
      then show ?thesis using pb v2 le by (intro exI [of _ "?p # ps"]) (auto split: if_splits)
    next
      case no: False
      have pad: "le_dec i = ID_PADDING" and "scan_pairs f check pe q blocks valid = Some (n, v)"
        using 1(3) True b szok i no
        by (auto simp: scan_pairs.simps [of f check pe pos] sz_def q_def Let_def split: if_splits)
      from 1(2) [OF True b refl sz_def _ q_def i refl no _ this(2)] this szok le 1(4,6) r
      obtain ps where ps: "slice f q pe = concat (map pair_bytes ps)"
        "\<forall>p\<in>set ps. fst p = ID_V2 \<or> fst p = ID_PADDING"
        "n = blocks + int (length (filter (\<lambda>p. fst p = ID_V2) ps))"
        "if filter (\<lambda>p. fst p = ID_V2) ps = [] then v = valid
         else \<exists>a e. v = check a e \<and> 0 \<le> a \<and> a \<le> e \<and> e \<le> pe \<and> slice f a e = snd (last (filter (\<lambda>p. fst p = ID_V2) ps))"
        by auto
      then show ?thesis using pb pad le by (intro exI [of _ "?p # ps"]) (auto split: if_splits)
    qed
  qed
qed

lemma find_eocd_sound:
  "find_eocd f (int (length f)) i = Some off \<Longrightarrow>
   0 \<le> off \<and> off + 4 \<le> int (length f) \<and> slice f off (off + 4) = le_enc 4 0x06054b50"
proof (induction f "int (length f)" i rule: find_eocd.induct)
  case (1 f i)
  obtain b pos where b: "read_exact f 2 (int (length f) - int i - 2) (int (length f)) = Some (b, pos)"
    using 1(3) by (auto simp: find_eocd.simps [of f _ i] split: option.splits)
  show ?case
  proof (cases "le_dec b = i")
    case True
    obtain m pos1 where m: "read_exact f 4 (pos - 22) (int (length f)) = Some (m, pos1)"
      using 1(3) b True by (auto simp: find_eocd.simps [of f _ i] split: option.splits)
    show ?thesis
    proof (cases "le_dec m = 0x06054b50")
      case eq: True
      then have off: "off = pos1 - 4" using 1(3) b True m by (simp add: find_eocd.simps [of f _ i])
      have m': "0 \<le> pos - 22" "pos1 = pos - 22 + 4" "pos1 \<le> int (length f)" "m = slice f (pos - 22) pos1" "length m = 4"
        using m by (auto simp: read_exact_iff)
      have "le_enc 4 (le_dec m) = m" using m'(5) by (rule le_enc_dec)
      then show ?thesis using m' off eq by simp
    next
      case False
      then have "find_eocd f (int (length f)) (Suc i) = Some off" "\<not> i \<ge> 0xffff"
        using 1(3) b True m by (auto simp: find_eocd.simps [of f _ i] split: if_splits)
      then show ?thesis using 1(1) [OF b refl True m refl False] by simp
    qed
  next
    case False
    then have "find_eocd f (int (length f)) (Suc i) = Some off" "\<not> i \<ge> 0xffff"
      using 1(3) b by (auto simp: find_eocd.simps [of f _ i] split: if_splits)
    then show ?thesis using 1(2) [OF b refl False] by simp
  qed
qed

lemma slice_all: "slice f 0 (int (length f)) = f"
  by (simp add: slice_def)

text \<open>A file with a signing block that holds the pairs, between its entries and its central
  directory.\<close>

definition apk_layout :: "bytes \<Rightarrow> (nat \<times> bytes) list \<Rightarrow> bool" where
  "apk_layout f ps \<longleftrightarrow> (\<exists>pre cd eocd n.
     f = pre @ le_enc 8 n @ concat (map pair_bytes ps) @ le_enc 8 n @ chars ''APK Sig Block 42'' @ cd @ eocd \<and>
     n = length (concat (map pair_bytes ps)) + 24 \<and> take 4 eocd = le_enc 4 0x06054b50)"

lemma signing_block_sound:
  assumes c: "check_signing_block sha f co es eh" and o1: "co \<le> off" "off + 4 \<le> int (length f)" "0x20 \<le> co"
    and eocd: "slice f off (off + 4) = le_enc 4 0x06054b50"
  shows "\<exists>ps v cert. apk_layout f ps \<and> (\<forall>p\<in>set ps. fst p = ID_V2 \<or> fst p = ID_PADDING) \<and>
    filter (\<lambda>p. fst p = ID_V2) ps = [(ID_V2, v)] \<and> v2_value cert v \<and> cert_accepted sha es eh cert"
proof -
  let ?chk = "\<lambda>p e. check_block sha f p e es eh"
  obtain b3 p3 m p4 b4 p5 n v where r: "read_exact f 8 (co - 0x18) co = Some (b3, p3)"
    "read_exact f 16 p3 co = Some (m, p4)" "\<not> m \<noteq> chars ''APK Sig Block 42''"
    "\<not> (int (le_dec b3) < 0x18 \<or> int (le_dec b3) > INT_MAX - 8 \<or> int (le_dec b3) > co - 8)"
    "read_exact f 8 (co - int (le_dec b3) - 8) (co - 0x18) = Some (b4, p5)" "\<not> le_dec b4 \<noteq> le_dec b3"
    "scan_pairs f ?chk (co - 0x18) p5 0 False = Some (n, v)" "\<not> n \<noteq> 1" "v"
    using c [unfolded check_signing_block_def] by (elim case_pair_SomeE if_FalseE)
  define sz where "sz = int (le_dec b3)"
  have b: "p5 = co - sz" "b4 = slice f (co - sz - 8) p5" "length b4 = 8" "b3 = slice f (co - 0x18) (co - 16)"
    "length b3 = 8" "m = slice f (co - 16) co" "0x18 \<le> sz" "sz \<le> co - 8"
    using r by (auto simp: read_exact_iff sz_def)
  have "0 \<le> p5" "p5 \<le> co - 0x18" "co - 0x18 \<le> int (length f)" using b o1 by auto
  from scan_pairs_sound [OF r(7) this] r(8,9) obtain ps a e where
    ps: "slice f p5 (co - 0x18) = concat (map pair_bytes ps)"
    "\<forall>p\<in>set ps. fst p = ID_V2 \<or> fst p = ID_PADDING" "length (filter (\<lambda>p. fst p = ID_V2) ps) = 1"
    "?chk a e" "e \<le> co - 0x18" "slice f a e = snd (last (filter (\<lambda>p. fst p = ID_V2) ps))"
    by (auto split: if_splits)
  obtain x where x: "filter (\<lambda>p. fst p = ID_V2) ps = [x]" using ps(3) by (auto simp: length_Suc_conv)
  then have "fst x = ID_V2" by (auto simp: filter_eq_Cons_iff)
  then have x2: "filter (\<lambda>p. fst p = ID_V2) ps = [(ID_V2, snd x)]" using x by (cases x) simp
  have "e \<le> int (length f)" using ps(5) o1 by simp
  then obtain cert where cert: "v2_value cert (snd x)" "cert_accepted sha es eh cert"
    using check_block_sound [OF ps(4)] ps(6) x by auto
  have len: "length (concat (map pair_bytes ps)) = nat (sz - 24)"
    unfolding ps(1) [symmetric] using b o1 by (subst length_slice) auto
  have enc: "le_enc 8 (length (concat (map pair_bytes ps)) + 24) = b3" "b4 = b3"
  proof -
    have n: "length (concat (map pair_bytes ps)) + 24 = le_dec b3"
      unfolding len using b(7) unfolding sz_def by linarith
    show "le_enc 8 (length (concat (map pair_bytes ps)) + 24) = b3" unfolding n using b(5) by (rule le_enc_dec)
    show "b4 = b3" using le_enc_dec [OF b(3)] le_enc_dec [OF b(5)] r(6) [unfolded not_not] by (elim subst) (rule refl)
  qed
  let ?n = "int (length f)"
  have t: "slice f 0 ?n = slice f 0 (co - sz - 8) @ slice f (co - sz - 8) ?n"
    "slice f (co - sz - 8) ?n = slice f (co - sz - 8) p5 @ slice f p5 ?n"
    "slice f p5 ?n = slice f p5 (co - 0x18) @ slice f (co - 0x18) ?n"
    "slice f (co - 0x18) ?n = slice f (co - 0x18) (co - 16) @ slice f (co - 16) ?n"
    "slice f (co - 16) ?n = slice f (co - 16) co @ slice f co ?n"
    "slice f co ?n = slice f co off @ slice f off ?n"
    by (rule slice_append; use b(1,7,8) o1 in linarith)+
  have lay: "f = slice f 0 (co - sz - 8) @ b3 @ concat (map pair_bytes ps) @ b3 @ chars ''APK Sig Block 42'' @
      slice f co off @ slice f off ?n"
  proof -
    have "f = slice f 0 ?n" by (rule slice_all [symmetric])
    also have "\<dots> = slice f 0 (co - sz - 8) @ b4 @ concat (map pair_bytes ps) @ b3 @ m @ slice f co off @ slice f off ?n"
      unfolding t ps(1) [symmetric] b(2,4,6) by (rule refl)
    finally show ?thesis unfolding enc(2) r(3) [unfolded not_not] .
  qed
  have l4: "length (slice f off (off + 4)) = 4" using o1 by (subst length_slice) simp_all
  have "slice f off ?n = slice f off (off + 4) @ slice f (off + 4) ?n" using o1 by (intro slice_append) simp_all
  then have "take 4 (slice f off ?n) = slice f off (off + 4)" using l4 by simp
  then have "take 4 (slice f off ?n) = le_enc 4 0x06054b50" unfolding eocd .
  then have "apk_layout f ps"
    unfolding apk_layout_def using lay [folded enc(1)] by blast
  with ps(2) x2 cert show ?thesis by blast
qed

lemma check_v2_sound:
  assumes "check_v2_signature sha file expected_size expected_sha256"
  shows "\<exists>f ps v cert. file = Some f \<and> apk_layout f ps \<and>
    (\<forall>p\<in>set ps. fst p = ID_V2 \<or> fst p = ID_PADDING) \<and>
    filter (\<lambda>p. fst p = ID_V2) ps = [(ID_V2, v)] \<and>
    v2_value cert v \<and> cert_accepted sha expected_size expected_sha256 cert"
proof -
  from assms obtain f where f: "file = Some f"
    and a: "check_v2_signature sha (Some f) expected_size expected_sha256"
    by (cases "file") (auto simp: check_v2_signature_def)
  from a obtain o1 z b1 p1 b2 p2 where o1: "find_eocd f (int (length f)) 0 = Some o1"
    and "zip64_present f o1 (int (length f)) = Some z" "\<not> z"
    and "read_exact f 4 (o1 + 12) (int (length f)) = Some (b1, p1)" "read_exact f 4 p1 (int (length f)) = Some (b2, p2)"
    and co: "\<not> (int (le_dec b2) > o1 \<or> int (le_dec b1) \<noteq> o1 - int (le_dec b2))"
    "\<not> int (le_dec b2) < 0x20" "check_signing_block sha f (int (le_dec b2)) expected_size expected_sha256"
    unfolding check_v2_signature_def option.case by (elim case_SomeE case_pair_SomeE if_FalseE)
  note eo = find_eocd_sound [OF o1]
  from signing_block_sound [OF co(3), of o1] co eo f show ?thesis by simp
qed

section \<open>Properties\<close>

text \<open>(C15) A file passes the signature check only if it is an APK with a signing block whose pairs are
  all v2 blocks or padding, with exactly one v2 block, and the first certificate of that block's
  first signer has the expected length, at most 1024, and the expected SHA-256. Every length field
  met on the way stays inside the structure that contains it.\<close>

theorem v2_signature_sound:
  assumes "check_v2_signature sha file expected_size expected_sha256"
  shows "\<exists>f ps v cert. file = Some f \<and> apk_layout f ps \<and>
    (\<forall>p\<in>set ps. fst p = ID_V2 \<or> fst p = ID_PADDING) \<and>
    filter (\<lambda>p. fst p = ID_V2) ps = [(ID_V2, v)] \<and>
    v2_value cert v \<and> cert_accepted sha expected_size expected_sha256 cert"
  using assms by (rule check_v2_sound)

definition sha0 :: "bytes \<Rightarrow> bytes option" where
  "sha0 c = Some [0xab]"

definition apk0 :: bytes where
  "apk0 =
     (let v = lp (lp (lp (lp [] @ lp (lp [1])))) ; b = pair_bytes (ID_V2, v) in
      le_enc 8 61 @ b @ le_enc 8 61 @ chars ''APK Sig Block 42'' @
      le_enc 4 0x06054b50 @ le_enc 8 0 @ le_enc 4 0 @ le_enc 4 69 @ le_enc 2 0)"

lemma apk0_bytes: "apk0 = [61,0,0,0,0,0,0,0, 29,0,0,0,0,0,0,0, 0x1a,0x87,0x09,0x71, 21,0,0,0, 17,0,0,0, 13,0,0,0, 0,0,0,0,
  5,0,0,0, 1,0,0,0, 1, 61,0,0,0,0,0,0,0, 65,80,75,32,83,105,103,32,66,108,111,99,107,32,52,50,
  0x50,0x4b,5,6, 0,0,0,0,0,0,0,0, 0,0,0,0, 69,0,0,0, 0,0]"
  by (simp add: apk0_def le_enc_numeral lp_def pair_bytes_def chars_def)

lemma apk0_ok: "check_v2_signature sha0 (Some apk0) 1 (chars ''ab'')"
  by (simp add: apk0_bytes check_v2_signature_def find_eocd.simps read_exact_def zip64_present_def check_signing_block_def
     scan_pairs.simps check_block_def read_length_prefixed_end_def chars_def sha0_def bin2hex_def hex_digit_def cstr_def)

theorem v2_signature_sound_witness:
  "check_v2_signature sha0 (Some apk0) 1 (chars ''ab'') \<and>
   (\<exists>f ps v cert. Some apk0 = Some f \<and> apk_layout f ps \<and>
    (\<forall>p\<in>set ps. fst p = ID_V2 \<or> fst p = ID_PADDING) \<and>
    filter (\<lambda>p. fst p = ID_V2) ps = [(ID_V2, v)] \<and>
    v2_value cert v \<and> cert_accepted sha0 1 (chars ''ab'') cert)"
proof
  show "check_v2_signature sha0 (Some apk0) 1 (chars ''ab'')" by (rule apk0_ok)
  then show "\<exists>f ps v cert. Some apk0 = Some f \<and> apk_layout f ps \<and>
    (\<forall>p\<in>set ps. fst p = ID_V2 \<or> fst p = ID_PADDING) \<and>
    filter (\<lambda>p. fst p = ID_V2) ps = [(ID_V2, v)] \<and>
    v2_value cert v \<and> cert_accepted sha0 1 (chars ''ab'') cert"
    by (rule v2_signature_sound)
qed

text \<open>The package name is recovered from the directory of an installed APK,
  \<open><dir>/<package>-<suffix>\<close>, whatever the directory, as long as the whole path is shorter than
  the package name buffer.\<close>

theorem get_pkg_roundtrip:
  assumes "47 \<notin> set pkg" "45 \<notin> set pkg" "pkg \<noteq> []" "47 \<notin> set suffix"
    and "length (dir @ 47 # pkg @ 45 # suffix) < KSU_MAX_PACKAGE_NAME"
  shows "get_pkg_from_apk_dir_path (dir @ 47 # pkg @ 45 # suffix) = Some pkg"
proof -
  have base: "rev (takeWhile (\<lambda>c. c \<noteq> 47) (rev (dir @ 47 # pkg @ 45 # suffix))) = pkg @ 45 # suffix"
  proof -
    have "rev (dir @ 47 # pkg @ 45 # suffix) = rev (pkg @ 45 # suffix) @ 47 # rev dir" by simp
    moreover have "takeWhile (\<lambda>c. c \<noteq> 47) (rev (pkg @ 45 # suffix) @ 47 # rev dir) = rev (pkg @ 45 # suffix)"
      using assms(1,4) by (intro takeWhile_sep) auto
    ultimately have "takeWhile (\<lambda>c. c \<noteq> 47) (rev (dir @ 47 # pkg @ 45 # suffix)) = rev (pkg @ 45 # suffix)"
      by (simp only:)
    then show ?thesis by simp
  qed
  have "takeWhile (\<lambda>c. c \<noteq> 45) (pkg @ 45 # suffix) = pkg" using assms(2) by simp
  then show ?thesis
    unfolding get_pkg_from_apk_dir_path_def Let_def base using assms(3,5) by simp
qed

theorem get_pkg_roundtrip_witness:
  "get_pkg_from_apk_dir_path (chars ''/data/app/~~x/com.rifsxd.ksunext-y=='') = Some (chars ''com.rifsxd.ksunext'')"
proof -
  have *: "chars ''/data/app/~~x/com.rifsxd.ksunext-y=='' = chars ''/data/app/~~x'' @ 47 # chars ''com.rifsxd.ksunext'' @ 45 # chars ''y==''"
    by (simp add: chars_def)
  show ?thesis
    unfolding * by (rule get_pkg_roundtrip) (simp_all add: chars_def)
qed

end
