(* ===== verification/KSU_Throne.thy ===== *)
theory KSU_Throne
  imports KSU_AllowStore KSU_ApkSign "HOL-Library.Multiset"
begin

text \<open>
  Finding the manager app (\<open>manager/throne_tracker.c\<close>) and the watch on \<open>/data/system\<close> that triggers
  it (\<open>manager/pkg_observer.c\<close>).

  A path is a C string without its terminator. What the file system and the allocator answer is the
  record \<open>scan_env\<close>: the directory behind a path with the magic of its file system and its entries in
  the order \<open>iterate_dir\<close> gives them, whether a list node for a path can be allocated, the result of
  \<open>kern_path\<close>, and the files themselves. \<open>kstrtou32\<close> is a parameter as in the feature registry.
\<close>

section \<open>State\<close>

abbreviation DATA_PATH_LEN :: nat where "DATA_PATH_LEN \<equiv> 384"

datatype dtype = DT_DIR | DT_REG | DT_OTHER

record dir_entry =
  de_name :: bytes
  de_type :: dtype

record scan_env =
  sn_dir :: "bytes \<Rightarrow> (nat \<times> dir_entry list) option"
  sn_alloc :: "bytes \<Rightarrow> bool"
  sn_kern_path :: "bytes \<Rightarrow> int"
  sn_file :: "bytes \<Rightarrow> bytes option"
  sn_sha :: "bytes \<Rightarrow> bytes option"
  sn_manager_size :: int
  sn_manager_hash :: bytes

record uid_data =
  ud_uid :: u32
  ud_package :: bytes

record data_path =
  dp_dirpath :: bytes
  dp_depth :: nat

text \<open>\<open>ksu_manager_appid\<close> and \<open>cached_manager_apk_path\<close>.\<close>

record throne =
  th_appid :: u32
  th_cached :: bytes

section \<open>Crowning\<close>

definition strip_last_slash :: "bytes \<Rightarrow> bytes" where
  "strip_last_slash p =
     (if 47 \<in> set p then rev (tl (dropWhile (\<lambda>c. c \<noteq> 47) (rev p))) else p)"

definition crown_target :: "ksu_config \<Rightarrow> bytes \<Rightarrow> bytes option" where
  "crown_target cfg apk = (case cfg_manager_package cfg of
     Some pkg \<Rightarrow> Some pkg
   | None \<Rightarrow> get_pkg_from_apk_dir_path (strip_last_slash (take (DATA_PATH_LEN - 1) apk)))"

definition crown_manager :: "ksu_config \<Rightarrow> bytes \<Rightarrow> uid_data list \<Rightarrow> throne \<Rightarrow> throne" where
  "crown_manager cfg apk uids t = (case crown_target cfg apk of
     None \<Rightarrow> t
   | Some target_pkg \<Rightarrow>
       (case find (\<lambda>np. strncmp0 (ud_package np) target_pkg KSU_MAX_PACKAGE_NAME) uids of
          None \<Rightarrow> t
        | Some np \<Rightarrow> t\<lparr>th_appid := ksu_set_manager_appid cfg (th_appid t) (ud_uid np)\<rparr>))"

section \<open>Scanning a directory\<close>

definition maybe_manager_apk_dir :: "ksu_config \<Rightarrow> bytes \<Rightarrow> bool" where
  "maybe_manager_apk_dir cfg path = (case cfg_manager_package cfg of
     None \<Rightarrow> True
   | Some m \<Rightarrow>
       (case get_pkg_from_apk_dir_path path of
          None \<Rightarrow> False
        | Some pkg \<Rightarrow> strncmp0 pkg m (length m + 1)))"

record scan_acc =
  sa_list :: "data_path list"
  sa_candidate :: bytes
  sa_cached :: bytes

text \<open>Whether to go on, and the new accumulator.\<close>

definition my_actor ::
  "ksu_config \<Rightarrow> scan_env \<Rightarrow> bytes \<Rightarrow> nat \<Rightarrow> dir_entry \<Rightarrow> scan_acc \<Rightarrow> bool \<times> scan_acc" where
  "my_actor cfg e parent_dir depth de a =
     (let name = de_name de; namelen = length name; dirpath = parent_dir @ 47 # name in
      if strncmp0 name (chars ''..'') namelen \<or> strncmp0 name (chars ''.'') namelen then (True, a)
      else if de_type de = DT_DIR \<and> namelen \<ge> 8 \<and> strncmp0 name (chars ''vmdl'') 4 \<and>
         strncmp0 (drop (namelen - 4) name) (chars ''.tmp'') 4 then (True, a)
      else if length dirpath \<ge> DATA_PATH_LEN then (True, a)
      else if de_type de = DT_DIR \<and> depth > 0 then
        (if \<not> sn_alloc e dirpath then (True, a)
         else (True, a\<lparr>sa_list := sa_list a @ [\<lparr>dp_dirpath = dirpath, dp_depth = depth - 1\<rparr>]\<rparr>))
      else if de_type de = DT_REG \<and> name = chars ''base.apk'' then
        (False, if maybe_manager_apk_dir cfg parent_dir
                then a\<lparr>sa_candidate := dirpath, sa_cached := dirpath\<rparr> else a)
      else (True, a))"

fun iterate_dir :: "ksu_config \<Rightarrow> scan_env \<Rightarrow> bytes \<Rightarrow> nat \<Rightarrow> dir_entry list \<Rightarrow> scan_acc \<Rightarrow> scan_acc" where
  "iterate_dir cfg e parent_dir depth [] a = a"
| "iterate_dir cfg e parent_dir depth (de # des) a =
     (case my_actor cfg e parent_dir depth de a of
        (go, a1) \<Rightarrow> if go then iterate_dir cfg e parent_dir depth des a1 else a1)"

section \<open>The search\<close>

record search =
  se_stop :: bool
  se_magic :: nat
  se_throne :: throne

text \<open>One round of the inner loop: the directories appended to the list and the new state.\<close>

definition visit ::
  "ksu_config \<Rightarrow> scan_env \<Rightarrow> uid_data list \<Rightarrow> data_path \<Rightarrow> search \<Rightarrow> data_path list \<times> search" where
  "visit cfg e uids pos s =
     (if se_stop s then ([], s)
      else (case sn_dir e (dp_dirpath pos) of
         None \<Rightarrow> ([], s)
       | Some (magic, entries) \<Rightarrow>
           if se_magic s = 0 \<and> magic = 0 then ([], s)
           else
             let s1 = (if se_magic s = 0 then s\<lparr>se_magic := magic\<rparr> else s) in
             if magic \<noteq> se_magic s1 then ([], s1)
             else
               let a = iterate_dir cfg e (dp_dirpath pos) (dp_depth pos) entries
                         \<lparr>sa_list = [], sa_candidate = [], sa_cached = th_cached (se_throne s1)\<rparr>;
                   s2 = s1\<lparr>se_throne := (se_throne s1)\<lparr>th_cached := sa_cached a\<rparr>\<rparr>
               in if sa_candidate a = [] then (sa_list a, s2)
                  else if \<not> is_manager_apk (sn_sha e) (sn_manager_size e) (sn_manager_hash e) (sn_file e)
                        (sa_candidate a)
                  then (sa_list a, s2)
                  else (sa_list a, s2\<lparr>se_stop := True,
                          se_throne := crown_manager cfg (sa_candidate a) uids (se_throne s2)\<rparr>)))"

lemma iterate_dir_depth:
  "p \<in> set (sa_list (iterate_dir cfg e d k des a)) \<Longrightarrow> p \<in> set (sa_list a) \<or> dp_depth p < k"
proof (induction des arbitrary: a)
  case (Cons de des)
  have step: "q \<in> set (sa_list (snd (my_actor cfg e d k de a))) \<Longrightarrow> q \<in> set (sa_list a) \<or> dp_depth q < k" for q
    by (auto simp: my_actor_def Let_def split: if_splits)
  obtain go a1 where m: "my_actor cfg e d k de a = (go, a1)" by fastforce
  with Cons.prems have "p \<in> set (sa_list a1) \<or> dp_depth p < k"
    using Cons.IH [of a1] by (auto split: if_splits)
  with step [of p] m show ?case by auto
qed simp

lemma visit_depth: "p \<in> set (fst (visit cfg e uids pos s)) \<Longrightarrow> dp_depth p < dp_depth pos"
  using iterate_dir_depth [of p cfg e "dp_dirpath pos" "dp_depth pos"]
  by (fastforce simp: visit_def Let_def split: if_splits option.splits prod.splits)

text \<open>One pass of \<open>list_for_each_entry_safe\<close>: the next element is fetched before the body runs, so a
  pass ends after an element that was last when the pass reached it, and what that element appended is
  left for the next pass. The result is the list that is left and the state.\<close>

function search_pass ::
  "ksu_config \<Rightarrow> scan_env \<Rightarrow> uid_data list \<Rightarrow> data_path list \<Rightarrow> search \<Rightarrow> data_path list \<times> search" where
  "search_pass cfg e uids [] s = ([], s)"
| "search_pass cfg e uids [pos] s = visit cfg e uids pos s"
| "search_pass cfg e uids (pos # n # rest) s =
     (case visit cfg e uids pos s of (new, s1) \<Rightarrow> search_pass cfg e uids (n # rest @ new) s1)"
  by pat_completeness auto
termination
proof (relation "inv_image (mult less_than) (\<lambda>(cfg, e, uids, l, s). mset (map dp_depth l))")
  fix cfg :: ksu_config and e :: scan_env and uids :: "uid_data list" and pos n :: data_path
    and rest new :: "data_path list" and s s1 :: search
  assume "(new, s1) = visit cfg e uids pos s"
  then have new: "\<forall>p\<in>set new. dp_depth p < dp_depth pos" by (metis fst_conv visit_depth)
  have "(mset (map dp_depth (n # rest)) + mset (map dp_depth new), mset (map dp_depth (n # rest)) + {#dp_depth pos#}) \<in> mult less_than"
    using new by (intro one_step_implies_mult) auto
  then show "((cfg, e, uids, n # rest @ new, s1), (cfg, e, uids, pos # n # rest, s))
      \<in> inv_image (mult less_than) (\<lambda>(cfg, e, uids, l, s). mset (map dp_depth l))"
    by simp
qed (auto intro: wf_mult)

fun search_loop ::
  "ksu_config \<Rightarrow> scan_env \<Rightarrow> uid_data list \<Rightarrow> nat \<Rightarrow> data_path list \<Rightarrow> search \<Rightarrow> data_path list \<times> search" where
  "search_loop cfg e uids 0 l s = (l, s)"
| "search_loop cfg e uids (Suc i) l s =
     (case search_pass cfg e uids l s of (l1, s1) \<Rightarrow> search_loop cfg e uids i l1 s1)"

definition search_manager ::
  "ksu_config \<Rightarrow> scan_env \<Rightarrow> bytes \<Rightarrow> nat \<Rightarrow> uid_data list \<Rightarrow> throne \<Rightarrow> throne" where
  "search_manager cfg e path depth uids t =
     se_throne (snd (search_loop cfg e uids (depth + 1)
       [\<lparr>dp_dirpath = take (DATA_PATH_LEN - 1) path, dp_depth = depth\<rparr>]
       \<lparr>se_stop = False, se_magic = 0, se_throne = t\<rparr>))"

section \<open>Reading packages.list\<close>

text \<open>The loop over the characters of the file. \<open>alloc i\<close> is whether the node of entry \<open>i\<close> can be
  allocated; the result is the list and whether the loop was abandoned for lack of memory.\<close>

definition parse_line :: "(nat \<Rightarrow> bytes \<Rightarrow> int \<times> u32) \<Rightarrow> bytes \<Rightarrow> uid_data option" where
  "parse_line kstrtou32 buf =
     (let package = takeWhile (\<lambda>c. c \<noteq> 32) buf in
      if 32 \<notin> set buf then None
      else
        let uid = takeWhile (\<lambda>c. c \<noteq> 32) (tl (dropWhile (\<lambda>c. c \<noteq> 32) buf)) in
        (case kstrtou32 10 uid of (err, res) \<Rightarrow>
           if err \<noteq> 0 then None
           else Some \<lparr>ud_uid = res, ud_package = strscpy_pad package KSU_MAX_PACKAGE_NAME\<rparr>))"

function packages_loop ::
  "(nat \<Rightarrow> bytes \<Rightarrow> int \<times> u32) \<Rightarrow> (nat \<Rightarrow> bool) \<Rightarrow> bytes \<Rightarrow> nat \<Rightarrow> nat \<Rightarrow> uid_data list \<Rightarrow> bool \<times> uid_data list" where
  "packages_loop kstrtou32 alloc f pos line_start uids =
     (if pos \<ge> length f then (True, uids)
      else if f ! pos \<noteq> 10 then packages_loop kstrtou32 alloc f (pos + 1) line_start uids
      else
        let got = take (KSU_MAX_PACKAGE_NAME - 1) (drop line_start f) in
        if got = [] then (True, uids)
        else if \<not> alloc (length uids) then (False, uids)
        else
          (case parse_line kstrtou32 (cstr got) of
             None \<Rightarrow> (True, uids)
           | Some d \<Rightarrow> packages_loop kstrtou32 alloc f (pos + 1) (pos + 1) (uids @ [d])))"
  by pat_completeness auto
termination
  by (relation "measure (\<lambda>(k, al, f, pos, ls, u). length f - pos)") auto

declare packages_loop.simps [simp del]

section \<open>track_throne\<close>

definition is_uid_exist :: "uid_data list \<Rightarrow> u32 \<Rightarrow> bytes \<Rightarrow> bool" where
  "is_uid_exist uids uid package =
     list_ex (\<lambda>np. ud_uid np = uid mod PER_USER_RANGE \<and> strncmp0 (ud_package np) package KSU_MAX_PACKAGE_NAME) uids"

text \<open>The entry of the manager in the list.\<close>

definition manager_entry :: "ksu_config \<Rightarrow> uid_data list \<Rightarrow> throne \<Rightarrow> uid_data option" where
  "manager_entry cfg uids t = (case cfg_manager_package cfg of
     Some m \<Rightarrow> find (\<lambda>np. strcmp0 (ud_package np) m) uids
   | None \<Rightarrow> find (\<lambda>np. ud_uid np = ksu_get_manager_appid cfg (th_appid t)) uids)"

definition rescan :: "ksu_config \<Rightarrow> scan_env \<Rightarrow> uid_data list \<Rightarrow> throne \<Rightarrow> throne" where
  "rescan cfg e uids t =
     (if th_cached t \<noteq> [] \<and> sn_kern_path e (th_cached t) = 0 then t
      else search_manager cfg e (chars ''/data/app'') 2 uids t)"

definition update_manager :: "ksu_config \<Rightarrow> scan_env \<Rightarrow> uid_data list \<Rightarrow> throne \<Rightarrow> throne" where
  "update_manager cfg e uids t =
     (let manager_package_uid =
            (case manager_entry cfg uids t of None \<Rightarrow> KSU_INVALID_APPID | Some np \<Rightarrow> ud_uid np) in
      if manager_package_uid = KSU_INVALID_APPID then
        let t1 = t\<lparr>th_cached := []\<rparr> in
        if ksu_is_manager_appid_valid cfg (th_appid t1)
        then t1\<lparr>th_appid := ksu_invalidate_manager_uid cfg (th_appid t1)\<rparr>
        else if cfg_manager_package cfg = None then rescan cfg e uids t1 else t1
      else if \<not> ksu_is_manager_appid_valid cfg (th_appid t) then rescan cfg e uids t
      else if manager_package_uid \<noteq> ksu_get_manager_appid cfg (th_appid t)
      then rescan cfg e uids \<lparr>th_appid = ksu_invalidate_manager_uid cfg (th_appid t), th_cached = []\<rparr>
      else t)"

text \<open>\<open>packages\<close> is the content of \<open>packages.list\<close>, nothing where it cannot be opened; the boolean of
  the result is whether pruning changed the allowlist.\<close>

definition track_throne ::
  "ksu_config \<Rightarrow> (nat \<Rightarrow> bytes \<Rightarrow> int \<times> u32) \<Rightarrow> scan_env \<Rightarrow> bytes option \<Rightarrow> (nat \<Rightarrow> bool) \<Rightarrow> bool \<Rightarrow> bool \<Rightarrow>
   throne \<times> allow_state \<Rightarrow> throne \<times> allow_state \<times> bool" where
  "track_throne cfg kstrtou32 e packages alloc boot_completed prune_only ts =
     (case ts of (t, s) \<Rightarrow>
      if cfg_disable_manager cfg then (t, s, False)
      else (case packages of
         None \<Rightarrow> (t, s, False)
       | Some f \<Rightarrow>
           (case packages_loop kstrtou32 alloc f 0 0 [] of (ok, uids) \<Rightarrow>
              if \<not> ok then (t, s, False)
              else
                let t1 = (if prune_only then t else update_manager cfg e uids t)
                in (t1, ksu_prune_allowlist boot_completed (is_uid_exist uids) s))))"

section \<open>The watch on /data/system\<close>

text \<open>\<open>wd_*\<close> say which references \<open>g_watch\<close> names: a path, an inode and a mark. The counters are the
  references taken minus those given back; \<open>ob_group\<close> is whether the group exists.\<close>

record watch =
  wd_kpath :: bool
  wd_inode :: bool
  wd_mark :: bool
  ob_path_refs :: int
  ob_inode_refs :: int
  ob_mark_refs :: int
  ob_group :: bool

record watch_env =
  we_group :: int
  we_kern_path :: int
  we_mark_alloc :: bool
  we_add_mark :: int

definition add_mark_on_inode :: "watch_env \<Rightarrow> watch \<Rightarrow> int \<times> watch" where
  "add_mark_on_inode e w =
     (if \<not> we_mark_alloc e then (- ENOMEM, w)
      else
        let w1 = w\<lparr>ob_mark_refs := ob_mark_refs w + 1\<rparr> in
        if we_add_mark e \<noteq> 0 then (- EINVAL, w1\<lparr>ob_mark_refs := ob_mark_refs w1 - 1\<rparr>)
        else (0, w1\<lparr>wd_mark := True\<rparr>))"

definition watch_one_dir :: "watch_env \<Rightarrow> watch \<Rightarrow> int \<times> watch" where
  "watch_one_dir e w =
     (if we_kern_path e \<noteq> 0 then (we_kern_path e, w)
      else
        let w1 = w\<lparr>wd_kpath := True, ob_path_refs := ob_path_refs w + 1, wd_inode := True,
                   ob_inode_refs := ob_inode_refs w + 1\<rparr> in
        (case add_mark_on_inode e w1 of (ret, w2) \<Rightarrow>
           if ret \<noteq> 0
           then (ret, w2\<lparr>ob_path_refs := ob_path_refs w2 - 1, ob_inode_refs := ob_inode_refs w2 - 1, wd_inode := False\<rparr>)
           else (0, w2)))"

definition unwatch_one_dir :: "watch \<Rightarrow> watch" where
  "unwatch_one_dir w =
     (let w1 = (if wd_mark w then w\<lparr>ob_mark_refs := ob_mark_refs w - 1, wd_mark := False\<rparr> else w);
          w2 = (if wd_inode w1 then w1\<lparr>ob_inode_refs := ob_inode_refs w1 - 1, wd_inode := False\<rparr> else w1)
      in if wd_kpath w2 then w2\<lparr>ob_path_refs := ob_path_refs w2 - 1, wd_kpath := False\<rparr> else w2)"

definition ksu_observer_init :: "watch_env \<Rightarrow> watch \<Rightarrow> int \<times> watch" where
  "ksu_observer_init e w =
     (if we_group e < 0 then (we_group e, w)
      else (0, snd (watch_one_dir e (w\<lparr>ob_group := True\<rparr>))))"

definition ksu_observer_exit :: "watch \<Rightarrow> watch" where
  "ksu_observer_exit w = (unwatch_one_dir w)\<lparr>ob_group := False\<rparr>"

text \<open>The scan a change of \<open>packages.list\<close> triggers: \<open>scan\<close> is \<open>track_throne false\<close> on the world
  \<open>'w\<close>, the counter the task works that are queued for the current task.\<close>

record defer_env =
  df_kthread :: bool
  df_alloc :: bool
  df_task_work_add :: int

definition ksu_defer_track_throne :: "defer_env \<Rightarrow> ('w \<Rightarrow> 'w) \<Rightarrow> nat \<times> 'w \<Rightarrow> nat \<times> 'w" where
  "ksu_defer_track_throne e scan st = (case st of (queued, w) \<Rightarrow>
     if \<not> df_kthread e \<and> df_alloc e \<and> df_task_work_add e = 0 then (queued + 1, w) else (queued, scan w))"

definition ksu_track_throne_tw_func :: "bool \<Rightarrow> ('w \<Rightarrow> 'w) \<Rightarrow> nat \<times> 'w \<Rightarrow> nat \<times> 'w" where
  "ksu_track_throne_tw_func exiting scan st = (case st of (queued, w) \<Rightarrow>
     (queued - 1, if exiting then w else scan w))"

abbreviation FS_ISDIR :: u32 where "FS_ISDIR \<equiv> 0x40000000"

definition ksu_handle_inode_event ::
  "defer_env \<Rightarrow> ('w \<Rightarrow> 'w) \<Rightarrow> u32 \<Rightarrow> bytes option \<Rightarrow> nat \<times> 'w \<Rightarrow> nat \<times> 'w" where
  "ksu_handle_inode_event e scan event_mask file_name st = (case file_name of
     None \<Rightarrow> st
   | Some n \<Rightarrow>
       if event_mask AND FS_ISDIR \<noteq> 0 then st
       else if n = chars ''packages.list'' then ksu_defer_track_throne e scan st else st)"

section \<open>Lemmas: the search visits everything\<close>

definition verified :: "scan_env \<Rightarrow> bytes \<Rightarrow> bool" where
  "verified e apk = is_manager_apk (sn_sha e) (sn_manager_size e) (sn_manager_hash e) (sn_file e) apk"

text \<open>What a directory contributes: its subdirectories to visit and its candidate.\<close>

definition scan0 :: "ksu_config \<Rightarrow> scan_env \<Rightarrow> data_path \<Rightarrow> dir_entry list \<Rightarrow> scan_acc" where
  "scan0 cfg e p des = iterate_dir cfg e (dp_dirpath p) (dp_depth p) des \<lparr>sa_list = [], sa_candidate = [], sa_cached = []\<rparr>"

lemma my_actor_cong:
  assumes "sa_list a = sa_list b" "sa_candidate a = sa_candidate b"
  shows "fst (my_actor cfg e d k de a) = fst (my_actor cfg e d k de b)"
    "sa_list (snd (my_actor cfg e d k de a)) = sa_list (snd (my_actor cfg e d k de b))"
    "sa_candidate (snd (my_actor cfg e d k de a)) = sa_candidate (snd (my_actor cfg e d k de b))"
  using assms by (simp_all add: my_actor_def Let_def)

lemma iterate_dir_cong:
  "sa_list a = sa_list b \<Longrightarrow> sa_candidate a = sa_candidate b \<Longrightarrow>
   sa_list (iterate_dir cfg e d k des a) = sa_list (iterate_dir cfg e d k des b) \<and>
   sa_candidate (iterate_dir cfg e d k des a) = sa_candidate (iterate_dir cfg e d k des b)"
proof (induction des arbitrary: a b)
  case (Cons de des)
  note c = my_actor_cong [OF Cons.prems, of cfg e d k de]
  show ?case using c Cons.IH [OF c(2,3)] by (auto split: prod.split)
qed simp

text \<open>A visit once the magic is known.\<close>

lemma visit_eq:
  assumes "se_magic s = m" "m \<noteq> 0" "\<not> se_stop s"
  shows "\<exists>c. visit cfg e uids p s = (case sn_dir e (dp_dirpath p) of
      None \<Rightarrow> ([], s)
    | Some (m', des) \<Rightarrow>
        if m' \<noteq> m then ([], s)
        else let a = scan0 cfg e p des; s2 = s\<lparr>se_throne := (se_throne s)\<lparr>th_cached := c\<rparr>\<rparr> in
          if sa_candidate a \<noteq> [] \<and> verified e (sa_candidate a)
          then (sa_list a, s2\<lparr>se_stop := True, se_throne := crown_manager cfg (sa_candidate a) uids (se_throne s2)\<rparr>)
          else (sa_list a, s2))"
proof (cases "sn_dir e (dp_dirpath p)")
  case (Some x)
  obtain m' des where x: "x = (m', des)" by fastforce
  let ?b = "\<lparr>sa_list = [], sa_candidate = [], sa_cached = th_cached (se_throne s)\<rparr>"
  let ?a = "iterate_dir cfg e (dp_dirpath p) (dp_depth p) des ?b"
  have c: "sa_list ?a = sa_list (scan0 cfg e p des)" "sa_candidate ?a = sa_candidate (scan0 cfg e p des)"
    unfolding scan0_def using iterate_dir_cong [of ?b "\<lparr>sa_list = [], sa_candidate = [], sa_cached = []\<rparr>"] by simp_all
  show ?thesis
    using assms Some x c by (intro exI [of _ "sa_cached ?a"]) (simp add: visit_def Let_def verified_def)
qed (use assms in \<open>simp add: visit_def\<close>)

lemma visit_stopped: "se_stop s \<Longrightarrow> visit cfg e uids p s = ([], s)"
  by (simp add: visit_def)

text \<open>The state of the search: as long as it goes on the manager is the old one, and when it has
  stopped the manager has just been crowned for a verified APK.\<close>

definition search_inv :: "ksu_config \<Rightarrow> scan_env \<Rightarrow> uid_data list \<Rightarrow> throne \<Rightarrow> search \<Rightarrow> bool" where
  "search_inv cfg e uids t s \<longleftrightarrow>
     (if se_stop s
      then \<exists>apk t0. verified e apk \<and> th_appid t0 = th_appid t \<and> se_throne s = crown_manager cfg apk uids t0
      else th_appid (se_throne s) = th_appid t)"

lemma search_inv_crown:
  "verified e apk \<Longrightarrow> th_appid t0 = th_appid t \<Longrightarrow>
   search_inv cfg e uids t (s\<lparr>se_stop := True, se_throne := crown_manager cfg apk uids t0\<rparr>)"
  by (auto simp: search_inv_def)

lemma search_inv_go: "\<not> se_stop s \<Longrightarrow> th_appid (se_throne s) = th_appid t \<Longrightarrow> search_inv cfg e uids t s"
  by (simp add: search_inv_def)

lemma visit_inv:
  assumes "search_inv cfg e uids t s"
  shows "search_inv cfg e uids t (snd (visit cfg e uids p s))"
proof (cases "se_stop s")
  case False
  then have "th_appid (se_throne s) = th_appid t" using assms by (simp add: search_inv_def)
  with False show ?thesis
    unfolding visit_def verified_def [symmetric]
    by (auto simp: Let_def intro!: search_inv_crown intro: search_inv_go split: option.split prod.split)
qed (use assms in \<open>simp add: visit_stopped\<close>)

lemma search_pass_stopped: "se_stop s \<Longrightarrow> se_stop (snd (search_pass cfg e uids l s))"
  by (induction cfg e uids l s rule: search_pass.induct) (simp_all add: visit_stopped)

lemma search_pass_inv:
  "search_inv cfg e uids t s \<Longrightarrow> search_inv cfg e uids t (snd (search_pass cfg e uids l s))"
proof (induction cfg e uids l s rule: search_pass.induct)
  case (3 cfg e uids pos n rest s)
  obtain new s1 where v: "visit cfg e uids pos s = (new, s1)" by fastforce
  then show ?case using 3 visit_inv [OF 3(2), of pos] by auto
qed (simp_all add: visit_inv)

lemma search_loop_stopped: "se_stop s \<Longrightarrow> se_stop (snd (search_loop cfg e uids i l s))"
proof (induction i arbitrary: l s)
  case (Suc i)
  obtain l1 s1 where p: "search_pass cfg e uids l s = (l1, s1)" by fastforce
  then show ?case using Suc search_pass_stopped [OF Suc.prems, of cfg e uids l] by auto
qed simp

lemma search_loop_inv:
  "search_inv cfg e uids t s \<Longrightarrow> search_inv cfg e uids t (snd (search_loop cfg e uids i l s))"
proof (induction i arbitrary: l s)
  case (Suc i)
  obtain l1 s1 where p: "search_pass cfg e uids l s = (l1, s1)" by fastforce
  then show ?case using Suc search_pass_inv [OF Suc.prems, of l] by auto
qed simp

lemma search_manager_cases:
  "th_appid (search_manager cfg e path depth uids t) = th_appid t \<or>
   (\<exists>apk t0. verified e apk \<and> th_appid t0 = th_appid t \<and> search_manager cfg e path depth uids t = crown_manager cfg apk uids t0)"
proof -
  have "search_inv cfg e uids t \<lparr>se_stop = False, se_magic = 0, se_throne = t\<rparr>" by (simp add: search_inv_def)
  from search_loop_inv [OF this, of "depth + 1" "[\<lparr>dp_dirpath = take (DATA_PATH_LEN - 1) path, dp_depth = depth\<rparr>]"]
  show ?thesis
    unfolding search_manager_def by (simp only: search_inv_def split: if_splits) blast+
qed

lemma search_pass_depth:
  "\<forall>p\<in>set l. dp_depth p \<le> k \<Longrightarrow> p \<in> set (fst (search_pass cfg e uids l s)) \<Longrightarrow> dp_depth p < k"
proof (induction cfg e uids l s rule: search_pass.induct)
  case (2 cfg e uids pos s)
  then show ?case using visit_depth [of p cfg e uids pos s] by auto
next
  case (3 cfg e uids pos n rest s)
  obtain new s1 where v: "visit cfg e uids pos s = (new, s1)" by fastforce
  have "\<forall>q\<in>set new. dp_depth q < dp_depth pos" using visit_depth [of _ cfg e uids pos s] v by auto
  then have "\<forall>q\<in>set (n # rest @ new). dp_depth q \<le> k" using 3(2) by auto
  then show ?case using 3(1) [OF v [symmetric]] 3(3) v by simp
qed simp

lemma search_loop_empty:
  "\<forall>p\<in>set l. dp_depth p < i \<Longrightarrow> fst (search_loop cfg e uids i l s) = []"
proof (induction i arbitrary: l s)
  case (Suc i)
  obtain l1 s1 where p: "search_pass cfg e uids l s = (l1, s1)" by fastforce
  have "\<forall>p\<in>set l1. dp_depth p < i" using search_pass_depth [of l i _ cfg e uids s] Suc.prems p by (fastforce simp: less_Suc_eq_le)
  then show ?case using Suc.IH p by simp
qed simp

inductive descends :: "ksu_config \<Rightarrow> scan_env \<Rightarrow> nat \<Rightarrow> data_path \<Rightarrow> data_path \<Rightarrow> bool"
  for cfg :: ksu_config and e :: scan_env and m :: nat where
  here: "descends cfg e m p p"
| there: "sn_dir e (dp_dirpath p) = Some (m, des) \<Longrightarrow> k \<in> set (sa_list (scan0 cfg e p des)) \<Longrightarrow>
    descends cfg e m k q \<Longrightarrow> descends cfg e m p q"

text \<open>The directory holds a verified candidate.\<close>

definition holds_manager :: "ksu_config \<Rightarrow> scan_env \<Rightarrow> nat \<Rightarrow> data_path \<Rightarrow> bool" where
  "holds_manager cfg e m p \<longleftrightarrow> (\<exists>des. sn_dir e (dp_dirpath p) = Some (m, des) \<and>
     sa_candidate (scan0 cfg e p des) \<noteq> [] \<and> verified e (sa_candidate (scan0 cfg e p des)))"

lemma visit_resolves:
  assumes m: "se_magic s = m" "m \<noteq> 0" and v: "visit cfg e uids p s = (new, s1)" and ns: "\<not> se_stop s1"
  shows "\<not> se_stop s" "se_magic s1 = m" "\<not> holds_manager cfg e m p"
    "descends cfg e m p q \<Longrightarrow> q = p \<or> (\<exists>k\<in>set new. descends cfg e m k q)"
proof -
  show n: "\<not> se_stop s" using v ns by (auto simp: visit_stopped)
  obtain c where eq: "visit cfg e uids p s = (case sn_dir e (dp_dirpath p) of
      None \<Rightarrow> ([], s)
    | Some (m', des) \<Rightarrow>
        if m' \<noteq> m then ([], s)
        else let a = scan0 cfg e p des; s2 = s\<lparr>se_throne := (se_throne s)\<lparr>th_cached := c\<rparr>\<rparr> in
          if sa_candidate a \<noteq> [] \<and> verified e (sa_candidate a)
          then (sa_list a, s2\<lparr>se_stop := True, se_throne := crown_manager cfg (sa_candidate a) uids (se_throne s2)\<rparr>)
          else (sa_list a, s2))"
    using visit_eq [OF m n] by blast
  show "se_magic s1 = m" using v m unfolding eq by (auto simp: Let_def split: option.splits if_splits)
  show "\<not> holds_manager cfg e m p"
    using v ns unfolding eq holds_manager_def by (auto simp: Let_def split: if_splits)
  show "q = p \<or> (\<exists>k\<in>set new. descends cfg e m k q)" if "descends cfg e m p q"
    using that v unfolding eq by (cases rule: descends.cases) (auto simp: Let_def split: if_splits)
qed

lemma visit_magic: "se_magic s \<noteq> 0 \<Longrightarrow> se_magic (snd (visit cfg e uids p s)) = se_magic s"
  by (simp add: visit_def Let_def split: option.split prod.split)

lemma search_pass_magic: "se_magic s \<noteq> 0 \<Longrightarrow> se_magic (snd (search_pass cfg e uids l s)) = se_magic s"
proof (induction cfg e uids l s rule: search_pass.induct)
  case (3 cfg e uids pos n rest s)
  obtain new s1 where v: "visit cfg e uids pos s = (new, s1)" by fastforce
  then show ?case using 3 visit_magic [of s cfg e uids pos] by auto
qed (simp_all add: visit_magic)

lemma search_pass_resolves:
  assumes "se_magic s = m" "m \<noteq> 0" "search_pass cfg e uids l s = (l1, s1)" "\<not> se_stop s1"
    "p \<in> set l" "descends cfg e m p q"
  shows "\<not> holds_manager cfg e m q \<or> (\<exists>k\<in>set l1. descends cfg e m k q)"
  using assms
proof (induction cfg e uids l s arbitrary: p rule: search_pass.induct)
  case (2 cfg e uids pos s)
  then have v: "visit cfg e uids pos s = (l1, s1)" and p: "p = pos" by simp_all
  note r = visit_resolves [OF 2(1,2) v 2(4)]
  from r(1-3) r(4) [of q] 2(6) p show ?case by auto
next
  case (3 cfg e uids pos n rest s)
  obtain new s2 where v: "visit cfg e uids pos s = (new, s2)" by fastforce
  have pass: "search_pass cfg e uids (n # rest @ new) s2 = (l1, s1)" using 3(4) v by simp
  have n2: "\<not> se_stop s2"
  proof
    assume "se_stop s2"
    then have "se_stop (snd (search_pass cfg e uids (n # rest @ new) s2))"
      by (rule search_pass_stopped)
    then show False using pass 3(5) by simp
  qed
  note r = visit_resolves [OF 3(2,3) v n2]
  note IH = 3(1) [OF v [symmetric] r(2) 3(3) pass 3(5)]
  show ?case
  proof (cases "p = pos \<and> (q = p \<or> \<not> (\<exists>k\<in>set new. descends cfg e m k q))")
    case True
    then have "q = pos" using r(4) [of q] 3(7) by auto
    then show ?thesis using r(3) by simp
  next
    case False
    then obtain k where "k \<in> set (n # rest @ new)" "descends cfg e m k q"
      using 3(6,7) r(4) [of q] by auto
    then show ?thesis by (rule IH)
  qed
qed simp

lemma search_loop_resolves:
  assumes "se_magic s = m" "m \<noteq> 0" "search_loop cfg e uids i l s = (l1, s1)" "\<not> se_stop s1"
    "p \<in> set l" "descends cfg e m p q" "holds_manager cfg e m q"
  shows "\<exists>k\<in>set l1. descends cfg e m k q"
  using assms
proof (induction i arbitrary: l s p)
  case (Suc i)
  obtain l2 s2 where ps: "search_pass cfg e uids l s = (l2, s2)" by fastforce
  have lp: "search_loop cfg e uids i l2 s2 = (l1, s1)" using Suc.prems(3) ps by simp
  have n2: "\<not> se_stop s2"
    using search_loop_stopped [of s2 cfg e uids i l2] lp Suc.prems(4) by auto
  have m2: "se_magic s2 = m" using search_pass_magic [of s cfg e uids l] ps Suc.prems(1,2) by simp
  obtain k where "k \<in> set l2" "descends cfg e m k q"
    using search_pass_resolves [OF Suc.prems(1,2) ps n2 Suc.prems(5,6)] Suc.prems(7) by auto
  then show ?case using Suc.IH [OF m2 Suc.prems(2) lp Suc.prems(4)] Suc.prems(7) by blast
qed auto

lemma visit_first:
  assumes "sn_dir e (dp_dirpath p) = Some (m, des)" "m \<noteq> 0" "se_magic s = 0" "\<not> se_stop s"
  shows "visit cfg e uids p s = visit cfg e uids p (s\<lparr>se_magic := m\<rparr>)"
  using assms by (simp add: visit_def Let_def)


section \<open>Lemmas: packages.list\<close>

text \<open>A line of the file: package, uid in decimal, and whatever else the package manager writes.\<close>

record pkg_line =
  pl_package :: bytes
  pl_digits :: bytes
  pl_uid :: u32
  pl_rest :: bytes

definition pkg_line_bytes :: "pkg_line \<Rightarrow> bytes" where
  "pkg_line_bytes l = pl_package l @ 32 # pl_digits l @ 32 # pl_rest l @ [10]"

definition pkg_line_ok :: "(nat \<Rightarrow> bytes \<Rightarrow> int \<times> u32) \<Rightarrow> pkg_line \<Rightarrow> bool" where
  "pkg_line_ok kstrtou32 l \<longleftrightarrow>
     (\<forall>c\<in>set (pl_package l) \<union> set (pl_digits l). c \<noteq> 0 \<and> c \<noteq> 10 \<and> c \<noteq> 32) \<and> 10 \<notin> set (pl_rest l) \<and>
     kstrtou32 10 (pl_digits l) = (0, pl_uid l) \<and>
     length (pl_package l) + length (pl_digits l) + 2 < KSU_MAX_PACKAGE_NAME"

definition pkg_line_entry :: "pkg_line \<Rightarrow> uid_data" where
  "pkg_line_entry l = \<lparr>ud_uid = pl_uid l, ud_package = strscpy_pad (pl_package l) KSU_MAX_PACKAGE_NAME\<rparr>"

lemma parse_line_ok:
  assumes "pkg_line_ok kstrtou32 l"
  shows "parse_line kstrtou32 (pl_package l @ 32 # pl_digits l @ 32 # y) = Some (pkg_line_entry l)"
proof -
  have "32 \<notin> set (pl_package l)" "32 \<notin> set (pl_digits l)" "kstrtou32 10 (pl_digits l) = (0, pl_uid l)"
    using assms by (auto simp: pkg_line_ok_def)
  then show ?thesis by (simp add: parse_line_def Let_def pkg_line_entry_def )
qed

lemma cstr_take_line:
  assumes "pkg_line_ok kstrtou32 l"
  shows "\<exists>y. cstr (take (KSU_MAX_PACKAGE_NAME - 1) (pkg_line_bytes l @ z)) = pl_package l @ 32 # pl_digits l @ 32 # y"
proof -
  let ?h = "pl_package l @ 32 # pl_digits l @ [32]" and ?r = "pl_rest l @ 10 # z"
  have len: "length ?h \<le> KSU_MAX_PACKAGE_NAME - 1" and nz: "0 \<notin> set ?h"
    using assms by (auto simp: pkg_line_ok_def)
  have eq: "pkg_line_bytes l @ z = ?h @ ?r" by (simp add: pkg_line_bytes_def)
  have "take (KSU_MAX_PACKAGE_NAME - 1) (?h @ ?r) = ?h @ take (KSU_MAX_PACKAGE_NAME - 1 - length ?h) ?r"
    unfolding take_append [of _ ?h ?r] take_all [OF len] ..
  moreover have "cstr (?h @ x) = ?h @ cstr x" for x
    using nz unfolding cstr_def by (intro takeWhile_append2) auto
  ultimately show ?thesis unfolding eq by (metis append.assoc append_Cons append_Nil)
qed

lemma packages_skip:
  "10 \<notin> set seg \<Longrightarrow> f = pre @ seg @ post \<Longrightarrow>
   packages_loop k al f (length pre) ls uids = packages_loop k al f (length pre + length seg) ls uids"
proof (induction seg arbitrary: pre)
  case (Cons c seg)
  have "packages_loop k al f (length pre) ls uids = packages_loop k al f (length (pre @ [c])) ls uids"
    using Cons.prems by (subst packages_loop.simps) (auto simp: nth_append)
  also have "\<dots> = packages_loop k al f (length (pre @ [c]) + length seg) ls uids"
    using Cons.prems by (intro Cons.IH) auto
  finally show ?case by simp
qed simp

lemma packages_line:
  assumes ok: "pkg_line_ok k l" and f: "f = pre @ pkg_line_bytes l @ post" and al: "al (length uids)"
  shows "packages_loop k al f (length pre) (length pre) uids =
    packages_loop k al f (length (pre @ pkg_line_bytes l)) (length (pre @ pkg_line_bytes l)) (uids @ [pkg_line_entry l])"
proof -
  let ?seg = "pl_package l @ 32 # pl_digits l @ 32 # pl_rest l"
  have seg: "pkg_line_bytes l = ?seg @ [10]" by (simp add: pkg_line_bytes_def)
  have "10 \<notin> set ?seg" using ok by (auto simp: pkg_line_ok_def)
  then have "packages_loop k al f (length pre) (length pre) uids =
      packages_loop k al f (length pre + length ?seg) (length pre) uids"
    using f seg by (intro packages_skip [where post = "10 # post"]) simp_all
  also have "\<dots> = packages_loop k al f (length pre + length ?seg + 1) (length pre + length ?seg + 1) (uids @ [pkg_line_entry l])"
  proof -
    have at: "f ! (length pre + length ?seg) = 10" "length pre + length ?seg < length f"
      unfolding f seg by (simp_all add: nth_append)
    have dr: "drop (length pre) f = pkg_line_bytes l @ post" using f by simp
    obtain y where y: "cstr (take (KSU_MAX_PACKAGE_NAME - 1) (drop (length pre) f)) = pl_package l @ 32 # pl_digits l @ 32 # y"
      unfolding dr using cstr_take_line [OF ok] by blast
    then have "take (KSU_MAX_PACKAGE_NAME - 1) (drop (length pre) f) \<noteq> []" by (auto simp: cstr_def)
    then show ?thesis
      using at al by (subst packages_loop.simps) (simp only: y parse_line_ok [OF ok] Let_def option.case not_less [symmetric] if_False if_True simp_thms)
  qed
  finally show ?thesis by (simp add: seg)
qed

lemma packages_lines:
  assumes "list_all (pkg_line_ok k) ls" "\<And>i. al i"
  shows "packages_loop k al (pre @ concat (map pkg_line_bytes ls)) (length pre) (length pre) uids =
    (True, uids @ map pkg_line_entry ls)"
  using assms(1)
proof (induction ls arbitrary: pre uids)
  case Nil
  then show ?case by (simp add: packages_loop.simps)
next
  case (Cons l ls)
  let ?f = "pre @ pkg_line_bytes l @ concat (map pkg_line_bytes ls)"
  have "packages_loop k al ?f (length pre) (length pre) uids =
      packages_loop k al ?f (length (pre @ pkg_line_bytes l)) (length (pre @ pkg_line_bytes l)) (uids @ [pkg_line_entry l])"
    using Cons.prems by (intro packages_line assms(2)) auto
  also have "\<dots> = (True, (uids @ [pkg_line_entry l]) @ map pkg_line_entry ls)"
    using Cons.IH [of "pre @ pkg_line_bytes l" "uids @ [pkg_line_entry l]"] Cons.prems by simp
  finally show ?case by simp
qed

section \<open>Lemmas: who is crowned\<close>

definition crowned_for :: "ksu_config \<Rightarrow> scan_env \<Rightarrow> uid_data list \<Rightarrow> u32 \<Rightarrow> bool" where
  "crowned_for cfg e uids appid \<longleftrightarrow> (\<exists>apk pkg np. verified e apk \<and> crown_target cfg apk = Some pkg \<and>
     np \<in> set uids \<and> strncmp0 (ud_package np) pkg KSU_MAX_PACKAGE_NAME \<and> appid = ud_uid np)"

lemma crown_cases:
  assumes "verified e apk"
  shows "th_appid (crown_manager cfg apk uids t) = th_appid t \<or>
    crowned_for cfg e uids (th_appid (crown_manager cfg apk uids t))"
proof (cases "crown_target cfg apk")
  case (Some pkg)
  let ?p = "\<lambda>np. strncmp0 (ud_package np) pkg KSU_MAX_PACKAGE_NAME"
  show ?thesis
  proof (cases "find ?p uids")
    case (Some np)
    then have "np \<in> set uids" "?p np" by (auto simp: find_Some_iff)
    with Some \<open>crown_target cfg apk = Some pkg\<close> assms show ?thesis
      by (auto simp: crown_manager_def ksu_set_manager_appid_def crowned_for_def)
  qed (use Some in \<open>simp add: crown_manager_def\<close>)
qed (simp add: crown_manager_def)

lemma rescan_cases:
  "th_appid (rescan cfg e uids t) = th_appid t \<or> crowned_for cfg e uids (th_appid (rescan cfg e uids t))"
proof (cases "th_cached t \<noteq> [] \<and> sn_kern_path e (th_cached t) = 0")
  case False
  then have r: "rescan cfg e uids t = search_manager cfg e (chars ''/data/app'') 2 uids t"
    unfolding rescan_def by (rule if_not_P)
  from search_manager_cases [of cfg e "chars ''/data/app''" 2 uids t] show ?thesis
    unfolding r using crown_cases by metis
qed (simp add: rescan_def)

lemma update_manager_cases:
  "th_appid (update_manager cfg e uids t) \<in> {th_appid t, KSU_INVALID_APPID} \<or>
   crowned_for cfg e uids (th_appid (update_manager cfg e uids t))"
proof -
  have inv: "ksu_invalidate_manager_uid cfg (th_appid t) \<in> {th_appid t, KSU_INVALID_APPID}"
    by (simp add: ksu_invalidate_manager_uid_def)
  show ?thesis
    using rescan_cases [of cfg e uids t] rescan_cases [of cfg e uids "t\<lparr>th_cached := []\<rparr>"] inv
      rescan_cases [of cfg e uids "\<lparr>th_appid = ksu_invalidate_manager_uid cfg (th_appid t), th_cached = []\<rparr>"]
    unfolding update_manager_def Let_def by auto
qed

section \<open>Properties\<close>


text \<open>(C17) Scanning makes nobody the manager but an app whose APK carries the manager's certificate:
  after \<open>track_throne\<close> the manager's app id is the old one, or invalid, or the uid that
  \<open>packages.list\<close> gives the package named by the directory of an APK whose only v2 signing block has
  the expected certificate first.\<close>

theorem track_throne_sound:
  assumes "track_throne cfg kstrtou32 e packages alloc boot_completed prune_only (t, s) = (t', s', m)"
  shows "th_appid t' \<in> {th_appid t, KSU_INVALID_APPID} \<or>
    (\<exists>f uids apk pkg np. packages = Some f \<and> packages_loop kstrtou32 alloc f 0 0 [] = (True, uids) \<and>
      np \<in> set uids \<and> th_appid t' = ud_uid np \<and> crown_target cfg apk = Some pkg \<and>
      strncmp0 (ud_package np) pkg KSU_MAX_PACKAGE_NAME \<and>
      (\<exists>b ps v cert. sn_file e apk = Some b \<and> apk_layout b ps \<and> filter (\<lambda>p. fst p = ID_V2) ps = [(ID_V2, v)] \<and>
        v2_value cert v \<and> cert_accepted (sn_sha e) (sn_manager_size e) (sn_manager_hash e) cert))"
proof -
  consider "t' = t" | f uids where "packages = Some f" "packages_loop kstrtou32 alloc f 0 0 [] = (True, uids)"
      "t' = update_manager cfg e uids t"
    using assms unfolding track_throne_def
    by (auto simp: Let_def split: if_splits option.splits prod.splits)
  then show ?thesis
  proof cases
    case (2 f uids)
    from update_manager_cases [of cfg e uids t] show ?thesis
    proof
      assume "crowned_for cfg e uids (th_appid (update_manager cfg e uids t))"
      then obtain apk pkg np where c: "verified e apk" "crown_target cfg apk = Some pkg" "np \<in> set uids"
        "strncmp0 (ud_package np) pkg KSU_MAX_PACKAGE_NAME" "th_appid (update_manager cfg e uids t) = ud_uid np"
        unfolding crowned_for_def by blast
      from c(1) have "check_v2_signature (sn_sha e) (sn_file e apk) (sn_manager_size e) (sn_manager_hash e)"
        by (simp add: verified_def is_manager_apk_def)
      from check_v2_sound [OF this] obtain b ps v cert where "sn_file e apk = Some b" "apk_layout b ps"
        "filter (\<lambda>p. fst p = ID_V2) ps = [(ID_V2, v)]" "v2_value cert v"
        "cert_accepted (sn_sha e) (sn_manager_size e) (sn_manager_hash e) cert" by blast
      then show ?thesis using c 2 by blast
    qed (use 2 in simp)
  qed simp
qed

text \<open>Reading \<open>packages.list\<close> gives back its lines: for any file made of lines with a package, a
  decimal uid and further fields, the list holds each package with its uid, in order.\<close>

theorem packages_list_roundtrip:
  assumes "list_all (pkg_line_ok kstrtou32) ls" "\<And>i. alloc i"
  shows "packages_loop kstrtou32 alloc (concat (map pkg_line_bytes ls)) 0 0 [] = (True, map pkg_line_entry ls)"
  using packages_lines [OF assms, where pre = "[]" and uids = "[]"] by simp


text \<open>(C19) The observer's references balance: after \<open>ksu_observer_init\<close> and \<open>ksu_observer_exit\<close> the
  inode and the mark are given back as often as they were taken, whatever fails. The path is given
  back twice when the mark cannot be added, because the failing \<open>watch_one_dir\<close> puts it and leaves
  \<open>kpath\<close> set.\<close>

theorem observer_references:
  assumes "\<not> wd_kpath w" "\<not> wd_inode w" "\<not> wd_mark w" "ksu_observer_init e w = (r, w1)"
  shows "ob_inode_refs (ksu_observer_exit w1) = ob_inode_refs w \<and>
    ob_mark_refs (ksu_observer_exit w1) = ob_mark_refs w \<and>
    ob_path_refs (ksu_observer_exit w1) = ob_path_refs w -
      (if we_group e \<ge> 0 \<and> we_kern_path e = 0 \<and> (\<not> we_mark_alloc e \<or> we_add_mark e \<noteq> 0) then 1 else 0)"
  using assms
  by (auto simp: ksu_observer_init_def ksu_observer_exit_def watch_one_dir_def unwatch_one_dir_def
      add_mark_on_inode_def Let_def split: if_splits)

definition env0 :: scan_env where
  "env0 = \<lparr>sn_dir = (\<lambda>p. if p = chars ''/data/app'' then Some (1, [\<lparr>de_name = chars ''p-1'', de_type = DT_DIR\<rparr>])
       else if p = chars ''/data/app/p-1'' then Some (1, [\<lparr>de_name = chars ''base.apk'', de_type = DT_REG\<rparr>]) else None),
     sn_alloc = (\<lambda>_. True), sn_kern_path = (\<lambda>_. - ENOENT), sn_file = (\<lambda>_. Some apk0), sn_sha = sha0,
     sn_manager_size = 1, sn_manager_hash = chars ''ab''\<rparr>"

definition line0 :: pkg_line where
  "line0 = \<lparr>pl_package = chars ''p'', pl_digits = chars ''7'', pl_uid = 7, pl_rest = chars ''x''\<rparr>"

definition kstr0 :: "nat \<Rightarrow> bytes \<Rightarrow> int \<times> u32" where
  "kstr0 b d = (0, of_nat (le_dec d) - 48)"

definition throne0 :: throne where
  "throne0 = \<lparr>th_appid = KSU_INVALID_APPID, th_cached = []\<rparr>"

lemma line0_ok: "list_all (pkg_line_ok kstr0) [line0]"
  by (simp add: line0_def pkg_line_ok_def kstr0_def chars_def)

lemma env0_verified: "verified env0 apk"
  using apk0_ok by (simp add: verified_def env0_def is_manager_apk_def)

lemma env0_scan:
  "scan0 cfg0 env0 \<lparr>dp_dirpath = chars ''/data/app'', dp_depth = 2\<rparr> [\<lparr>de_name = chars ''p-1'', de_type = DT_DIR\<rparr>] =
     \<lparr>sa_list = [\<lparr>dp_dirpath = chars ''/data/app/p-1'', dp_depth = 1\<rparr>], sa_candidate = [], sa_cached = []\<rparr>"
  "scan0 cfg0 env0 \<lparr>dp_dirpath = chars ''/data/app/p-1'', dp_depth = 1\<rparr> [\<lparr>de_name = chars ''base.apk'', de_type = DT_REG\<rparr>] =
     \<lparr>sa_list = [], sa_candidate = chars ''/data/app/p-1/base.apk'', sa_cached = chars ''/data/app/p-1/base.apk''\<rparr>"
  by (simp_all add: scan0_def my_actor_def env0_def chars_def strncmp0_def cstr_def maybe_manager_apk_dir_def cfg0_def Let_def)


theorem track_throne_sound_witness:
  "\<exists>t' s' m. track_throne cfg0 kstr0 env0 (Some (pkg_line_bytes line0)) (\<lambda>_. True) True False (throne0, st1) = (t', s', m) \<and>
     (th_appid t' \<in> {th_appid throne0, KSU_INVALID_APPID} \<or> th_appid t' = 7)"
proof -
  obtain t' s' m where r: "track_throne cfg0 kstr0 env0 (Some (pkg_line_bytes line0)) (\<lambda>_. True) True False (throne0, st1) = (t', s', m)"
    by (metis prod_cases3)
  have p: "packages_loop kstr0 (\<lambda>_. True) (pkg_line_bytes line0) 0 0 [] = (True, [pkg_line_entry line0])"
    using packages_lines [OF line0_ok, where pre = "[]" and uids = "[]"] by simp
  from track_throne_sound [OF r] p show ?thesis
    unfolding r by (auto simp: pkg_line_entry_def line0_def)
qed

theorem packages_list_roundtrip_witness:
  "list_all (pkg_line_ok kstr0) [line0] \<and>
   packages_loop kstr0 (\<lambda>_. True) (chars ''p 7 x'' @ [10]) 0 0 [] = (True, [pkg_line_entry line0])"
proof -
  have "chars ''p 7 x'' @ [10] = concat (map pkg_line_bytes [line0])"
    by (simp add: pkg_line_bytes_def line0_def chars_def)
  then show ?thesis using packages_list_roundtrip [OF line0_ok, of "\<lambda>_. True"] line0_ok by simp
qed


theorem observer_references_witness:
  "ob_path_refs (ksu_observer_exit (snd (ksu_observer_init
      \<lparr>we_group = 1, we_kern_path = 0, we_mark_alloc = False, we_add_mark = 0\<rparr>
      \<lparr>wd_kpath = False, wd_inode = False, wd_mark = False, ob_path_refs = 0, ob_inode_refs = 0, ob_mark_refs = 0, ob_group = False\<rparr>))) = - 1"
  using observer_references [OF _ _ _ surjective_pairing, of
      "\<lparr>wd_kpath = False, wd_inode = False, wd_mark = False, ob_path_refs = 0, ob_inode_refs = 0, ob_mark_refs = 0, ob_group = False\<rparr>"
      "\<lparr>we_group = 1, we_kern_path = 0, we_mark_alloc = False, we_add_mark = 0\<rparr>"]
  by simp

end
