(* ===== verification/KSU_SyscallHook.thy ===== *)
theory KSU_SyscallHook
  imports KSU_Prelude
begin

text \<open>
  The syscall table hooks and the dispatcher (\<open>hook/arm64/syscall_hook.c\<close>), the redirection in the
  \<open>sys_enter\<close> tracepoint (\<open>hook/syscall_hook_manager.c\<close>) and the memory patching under them
  (\<open>hook/arm64/patch_memory.c\<close>).

  The syscall table is a list with one entry per number; a handler in it is a value of the type
  \<open>'f\<close>. The dispatcher's own table is a function from numbers. \<open>patch nr\<close> is whether
  \<open>ksu_patch_text\<close> succeeds on entry \<open>nr\<close>.
\<close>

section \<open>State\<close>

abbreviation HOOKED_MAX :: nat where "HOOKED_MAX \<equiv> 16"

record ('f, 'h) hook_state =
  hk_table :: "'f list option"
  hk_nr :: nat
  hk_dispatcher :: int
  hk_hooks :: "nat \<Rightarrow> 'h option"
  hk_entries :: "(nat \<times> 'f) list"

definition nr_ok :: "('f, 'h) hook_state \<Rightarrow> int \<Rightarrow> bool" where
  "nr_ok st nr \<longleftrightarrow> 0 \<le> nr \<and> nr < int (hk_nr st)"

section \<open>Patching the table\<close>

definition patch_syscall_table ::
  "(nat \<Rightarrow> bool) \<Rightarrow> ('f, 'h) hook_state \<Rightarrow> int \<Rightarrow> 'f \<Rightarrow> int \<times> ('f, 'h) hook_state" where
  "patch_syscall_table patch st nr fn = (case hk_table st of
     None \<Rightarrow> (- ENOENT, st)
   | Some tab \<Rightarrow>
       if \<not> nr_ok st nr then (- EINVAL, st)
       else if \<not> patch (nat nr) then (- EIO, st)
       else (0, st\<lparr>hk_table := Some (tab[nat nr := fn])\<rparr>))"

text \<open>The new state and the handler stored through \<open>old\<close>.\<close>

definition ksu_syscall_table_hook ::
  "(nat \<Rightarrow> bool) \<Rightarrow> int \<Rightarrow> 'f \<Rightarrow> ('f, 'h) hook_state \<Rightarrow> ('f, 'h) hook_state \<times> 'f option" where
  "ksu_syscall_table_hook patch nr fn st = (case hk_table st of
     None \<Rightarrow> (st, None)
   | Some tab \<Rightarrow>
       if \<not> nr_ok st nr then (st, None)
       else
         let orig = tab ! nat nr;
             found = list_ex (\<lambda>e. fst e = nat nr) (hk_entries st);
             st1 = (if found then st
                    else if length (hk_entries st) < HOOKED_MAX
                    then st\<lparr>hk_entries := hk_entries st @ [(nat nr, orig)]\<rparr> else st)
         in (snd (patch_syscall_table patch st1 nr fn), Some orig))"

text \<open>The position of the first entry for a number.\<close>

fun entry_index :: "nat \<Rightarrow> (nat \<times> 'f) list \<Rightarrow> nat option" where
  "entry_index nr [] = None"
| "entry_index nr (e # es) = (if fst e = nr then Some 0 else map_option Suc (entry_index nr es))"

definition ksu_syscall_table_unhook ::
  "(nat \<Rightarrow> bool) \<Rightarrow> int \<Rightarrow> ('f, 'h) hook_state \<Rightarrow> ('f, 'h) hook_state" where
  "ksu_syscall_table_unhook patch nr st = (case hk_table st of
     None \<Rightarrow> st
   | Some tab \<Rightarrow>
       if \<not> nr_ok st nr then st
       else (case entry_index (nat nr) (hk_entries st) of
          None \<Rightarrow> st
        | Some i \<Rightarrow>
            let st1 = snd (patch_syscall_table patch st nr (snd (hk_entries st ! i)))
            in st1\<lparr>hk_entries := butlast ((hk_entries st1)[i := last (hk_entries st1)])\<rparr>))"

section \<open>The dispatcher\<close>

text \<open>The registers the code touches: the number the kernel dispatches on, and \<open>x8\<close>.\<close>

record regs =
  rg_syscallno :: int
  rg_orig :: u64

abbreviation int_of_u64 :: "u64 \<Rightarrow> int" where
  "int_of_u64 w \<equiv> sint (ucast w :: u32)"

type_synonym 'w hook_fn = "int \<Rightarrow> regs \<Rightarrow> 'w \<Rightarrow> int \<times> regs \<times> 'w"

definition ksu_find_ni_syscall_slots :: "('f, 'h) hook_state \<Rightarrow> 'f option \<Rightarrow> nat \<Rightarrow> nat list" where
  "ksu_find_ni_syscall_slots st ni max_slots = (case hk_table st of
     None \<Rightarrow> []
   | Some tab \<Rightarrow>
       (case ni of None \<Rightarrow> []
        | Some f \<Rightarrow> take max_slots (filter (\<lambda>i. tab ! i = f) [0..<hk_nr st])))"

definition ksu_syscall_dispatcher ::
  "('f, 'w hook_fn) hook_state \<Rightarrow> regs \<Rightarrow> 'w \<Rightarrow> int \<times> regs \<times> 'w" where
  "ksu_syscall_dispatcher st r w =
     (if rg_syscallno r \<noteq> hk_dispatcher st then (- ENOSYS, r, w)
      else
        let orig_nr = int_of_u64 (rg_orig r) in
        if rg_syscallno r = orig_nr then (- ENOSYS, r, w)
        else
          let r1 = r\<lparr>rg_syscallno := orig_nr, rg_orig := word_of_int orig_nr\<rparr> in
          if nr_ok st orig_nr then
            (case hk_hooks st (nat orig_nr) of
               Some fn \<Rightarrow> fn orig_nr r1 w
             | None \<Rightarrow> (- ENOSYS, r1, w))
          else (- ENOSYS, r1, w))"

definition ksu_register_syscall_hook :: "int \<Rightarrow> 'h \<Rightarrow> ('f, 'h) hook_state \<Rightarrow> int \<times> ('f, 'h) hook_state" where
  "ksu_register_syscall_hook nr fn st =
     (if \<not> nr_ok st nr then (- EINVAL, st)
      else if hk_hooks st (nat nr) \<noteq> None then (- EEXIST, st)
      else (0, st\<lparr>hk_hooks := (hk_hooks st)(nat nr := Some fn)\<rparr>))"

definition ksu_unregister_syscall_hook :: "int \<Rightarrow> ('f, 'h) hook_state \<Rightarrow> ('f, 'h) hook_state" where
  "ksu_unregister_syscall_hook nr st =
     (if \<not> nr_ok st nr then st else st\<lparr>hk_hooks := (hk_hooks st)(nat nr := None)\<rparr>)"

definition ksu_has_syscall_hook :: "('f, 'h) hook_state \<Rightarrow> int \<Rightarrow> bool" where
  "ksu_has_syscall_hook st nr = (nr_ok st nr \<and> hk_hooks st (nat nr) \<noteq> None)"

text \<open>\<open>table\<close> is the resolved \<open>sys_call_table\<close>, \<open>ni\<close> the resolved \<open>__arm64_sys_ni_syscall\<close>.\<close>

definition ksu_syscall_hook_init ::
  "(nat \<Rightarrow> bool) \<Rightarrow> 'f list option \<Rightarrow> 'f option \<Rightarrow> 'f \<Rightarrow> ('f, 'h) hook_state \<Rightarrow> ('f, 'h) hook_state" where
  "ksu_syscall_hook_init patch table ni dispatcher st =
     (let st1 = st\<lparr>hk_hooks := (\<lambda>_. None), hk_table := table\<rparr> in
      if table = None then st1
      else (case ksu_find_ni_syscall_slots st1 ni 1 of
         [] \<Rightarrow> st1
       | slot # _ \<Rightarrow>
           fst (ksu_syscall_table_hook patch (int slot) dispatcher (st1\<lparr>hk_dispatcher := int slot\<rparr>))))"

fun restore_entries :: "(nat \<Rightarrow> bool) \<Rightarrow> (nat \<times> 'f) list \<Rightarrow> 'f list \<Rightarrow> 'f list" where
  "restore_entries patch [] tab = tab"
| "restore_entries patch ((nr, orig) # es) tab =
     restore_entries patch es (if patch nr then tab[nr := orig] else tab)"

definition ksu_syscall_hook_exit :: "(nat \<Rightarrow> bool) \<Rightarrow> ('f, 'h) hook_state \<Rightarrow> ('f, 'h) hook_state" where
  "ksu_syscall_hook_exit patch st =
     (let st1 = (case hk_table st of
            None \<Rightarrow> st
          | Some tab \<Rightarrow> st\<lparr>hk_table := Some (restore_entries patch (hk_entries st) tab), hk_entries := []\<rparr>)
      in st1\<lparr>hk_hooks := (\<lambda>_. None), hk_dispatcher := - 1\<rparr>)"

text \<open>The tracepoint handler; \<open>is_compat\<close> is whether the task runs a 32-bit syscall.\<close>

definition ksu_sys_enter_handler :: "bool \<Rightarrow> ('f, 'h) hook_state \<Rightarrow> int \<Rightarrow> regs \<Rightarrow> regs" where
  "ksu_sys_enter_handler is_compat st sysid r =
     (if is_compat then r
      else if hk_dispatcher st < 0 then r
      else if ksu_has_syscall_hook st sysid
      then r\<lparr>rg_orig := word_of_int sysid, rg_syscallno := hk_dispatcher st\<rparr>
      else r)"

section \<open>Patching memory\<close>

text \<open>The rendezvous of \<open>ksu_patch_text_cb\<close>: each processor counts itself in; the last one patches and
  counts once more, the others wait until the counter exceeds the number of processors. \<open>patched\<close>
  counts the runs of \<open>ksu_patch_text_nosync\<close>.\<close>

datatype cpu_pc = Start | Waiting | Patching | Notify | Done

record rendezvous =
  rv_count :: nat
  rv_patched :: nat
  rv_pc :: "cpu_pc list"

inductive patch_step :: "rendezvous \<Rightarrow> rendezvous \<Rightarrow> bool" where
  arrive_last: "i < length (rv_pc s) \<Longrightarrow> rv_pc s ! i = Start \<Longrightarrow> rv_count s + 1 = length (rv_pc s) \<Longrightarrow>
    patch_step s (s\<lparr>rv_count := rv_count s + 1, rv_pc := (rv_pc s)[i := Patching]\<rparr>)"
| arrive: "i < length (rv_pc s) \<Longrightarrow> rv_pc s ! i = Start \<Longrightarrow> rv_count s + 1 \<noteq> length (rv_pc s) \<Longrightarrow>
    patch_step s (s\<lparr>rv_count := rv_count s + 1, rv_pc := (rv_pc s)[i := Waiting]\<rparr>)"
| poke: "i < length (rv_pc s) \<Longrightarrow> rv_pc s ! i = Patching \<Longrightarrow>
    patch_step s (s\<lparr>rv_patched := rv_patched s + 1, rv_pc := (rv_pc s)[i := Notify]\<rparr>)"
| notify: "i < length (rv_pc s) \<Longrightarrow> rv_pc s ! i = Notify \<Longrightarrow>
    patch_step s (s\<lparr>rv_count := rv_count s + 1, rv_pc := (rv_pc s)[i := Done]\<rparr>)"
| leave: "i < length (rv_pc s) \<Longrightarrow> rv_pc s ! i = Waiting \<Longrightarrow> rv_count s > length (rv_pc s) \<Longrightarrow>
    patch_step s (s\<lparr>rv_pc := (rv_pc s)[i := Done]\<rparr>)"

inductive_cases patch_stepE: "patch_step s s'"

definition patch_init :: "nat \<Rightarrow> rendezvous" where
  "patch_init n = \<lparr>rv_count = 0, rv_patched = 0, rv_pc = replicate n Start\<rparr>"

inductive patch_reach :: "nat \<Rightarrow> rendezvous \<Rightarrow> bool" for n :: nat where
  init: "patch_reach n (patch_init n)"
| step: "patch_reach n s \<Longrightarrow> patch_step s s' \<Longrightarrow> patch_reach n s'"

text \<open>The scan for a branch: the instruction words from \<open>start\<close> on, each four bytes further.\<close>

definition bl_target :: "u64 \<Rightarrow> u32 \<Rightarrow> u64" where
  "bl_target pc insn =
     (let imm26 = signed_drop_bit 6 (push_bit 6 (insn AND 0x03FFFFFF) :: u32)
      in pc + push_bit 2 (scast imm26))"

fun scan_call_to :: "u64 \<Rightarrow> u32 list \<Rightarrow> u64 \<Rightarrow> u64 option" where
  "scan_call_to start [] target = None"
| "scan_call_to start (insn # rest) target =
     (if insn AND 0xFC000000 = 0x94000000 \<and> bl_target start insn = target then Some start
      else scan_call_to (start + 4) rest target)"

section \<open>Lemmas: the table is restored\<close>

datatype ('f, 'h) hook_op = Hook int 'f | Unhook int | Register int 'h | Unregister int

fun hook_run :: "(nat \<Rightarrow> bool) \<Rightarrow> ('f, 'h) hook_op list \<Rightarrow> ('f, 'h) hook_state \<Rightarrow> ('f, 'h) hook_state" where
  "hook_run patch [] st = st"
| "hook_run patch (Hook nr fn # ops) st = hook_run patch ops (fst (ksu_syscall_table_hook patch nr fn st))"
| "hook_run patch (Unhook nr # ops) st = hook_run patch ops (ksu_syscall_table_unhook patch nr st)"
| "hook_run patch (Register nr h # ops) st = hook_run patch ops (snd (ksu_register_syscall_hook nr h st))"
| "hook_run patch (Unregister nr # ops) st = hook_run patch ops (ksu_unregister_syscall_hook nr st)"

fun hooked_nrs :: "('f, 'h) hook_op list \<Rightarrow> nat set" where
  "hooked_nrs [] = {}"
| "hooked_nrs (Hook nr fn # ops) = insert (nat nr) (hooked_nrs ops)"
| "hooked_nrs (_ # ops) = hooked_nrs ops"

lemma finite_hooked_nrs: "finite (hooked_nrs ops)"
  by (induction ops rule: hooked_nrs.induct) auto

text \<open>Every entry remembers the original handler, and an entry that is not tracked is original.\<close>

definition hook_inv :: "'f list \<Rightarrow> nat set \<Rightarrow> ('f, 'h) hook_state \<Rightarrow> bool" where
  "hook_inv tab0 N st \<longleftrightarrow>
     (\<exists>tab. hk_table st = Some tab \<and> length tab = length tab0 \<and> hk_nr st = length tab0 \<and>
        distinct (map fst (hk_entries st)) \<and> fst ` set (hk_entries st) \<subseteq> N \<and>
        (\<forall>e\<in>set (hk_entries st). fst e < length tab0 \<and> snd e = tab0 ! fst e) \<and>
        (\<forall>i<length tab0. i \<notin> fst ` set (hk_entries st) \<longrightarrow> tab ! i = tab0 ! i))"

lemma hook_inv_hook:
  assumes inv: "hook_inv tab0 N st" and N: "nat nr \<in> N" "finite N" "card N \<le> HOOKED_MAX"
  shows "hook_inv tab0 N (fst (ksu_syscall_table_hook (\<lambda>_. True) nr fn st))"
proof -
  obtain tab where tab: "hk_table st = Some tab" "length tab = length tab0" "hk_nr st = length tab0"
    "distinct (map fst (hk_entries st))" "fst ` set (hk_entries st) \<subseteq> N"
    "\<forall>e\<in>set (hk_entries st). fst e < length tab0 \<and> snd e = tab0 ! fst e"
    "\<forall>i<length tab0. i \<notin> fst ` set (hk_entries st) \<longrightarrow> tab ! i = tab0 ! i"
    using inv unfolding hook_inv_def by blast
  show ?thesis
  proof (cases "nr_ok st nr")
    case True
    then have nr: "nat nr < length tab0" using tab(3) by (auto simp: nr_ok_def)
    show ?thesis
    proof (cases "list_ex (\<lambda>e. fst e = nat nr) (hk_entries st)")
      case found: True
      then have "nat nr \<in> fst ` set (hk_entries st)" by (force simp: list_ex_iff)
      then show ?thesis
        using tab True found nr
        by (auto simp: hook_inv_def ksu_syscall_table_hook_def patch_syscall_table_def Let_def nr_ok_def nth_list_update)
    next
      case False
      then have new: "nat nr \<notin> fst ` set (hk_entries st)" by (auto simp: list_ex_iff)
      have "length (hk_entries st) = card (fst ` set (hk_entries st))"
        using distinct_card [OF tab(4)] by simp
      also have "\<dots> < card (insert (nat nr) (fst ` set (hk_entries st)))" using new by simp
      also have "\<dots> \<le> card N" using tab(5) N by (intro card_mono) auto
      finally have room: "length (hk_entries st) < HOOKED_MAX" using N(3) by simp
      show ?thesis
        using tab True False room new nr N(1)
        by (auto simp: hook_inv_def ksu_syscall_table_hook_def patch_syscall_table_def Let_def nr_ok_def nth_list_update)
    qed
  qed (use tab inv in \<open>simp add: ksu_syscall_table_hook_def\<close>)
qed

lemma entry_index_SomeD:
  "entry_index nr es = Some i \<Longrightarrow> i < length es \<and> fst (es ! i) = nr"
  by (induction es arbitrary: i) (auto split: if_splits)

lemma set_swap_remove:
  assumes "i < length es" "distinct (map fst es)"
  shows "distinct (map fst (butlast (es[i := last es]))) \<and>
    set (butlast (es[i := last es])) = {e \<in> set es. fst e \<noteq> fst (es ! i)}"
proof -
  obtain xs l where es: "es = xs @ [l]" using assms(1) by (cases es rule: rev_cases) auto
  show ?thesis
  proof (cases "i = length xs")
    case True
    then show ?thesis using assms(2) by (auto simp: es image_iff)
  next
    case False
    then have i: "i < length xs" using assms(1) es by simp
    obtain a b where xs: "xs = a @ xs ! i # b" "length a = i"
      using id_take_nth_drop [OF i] i by (metis length_take min.absorb4)
    have all: "es = a @ xs ! i # b @ [l]" using es xs(1) by (metis append.assoc append_Cons)
    have upd: "butlast (es[i := last es]) = a @ l # b"
      unfolding all using xs(2) by (auto simp: butlast_append)
    have ei: "es ! i = xs ! i" using es i by (simp add: nth_append)
    have d: "distinct (map fst (a @ xs ! i # b @ [l]))" using assms(2) all by metis
    show ?thesis unfolding upd ei
    proof
      show "distinct (map fst (a @ l # b))" using d by auto
      have "set es = set (a @ xs ! i # b @ [l])" using all by metis
      then show "set (a @ l # b) = {e \<in> set es. fst e \<noteq> fst (xs ! i)}" using d by (auto simp: image_iff)
    qed
  qed
qed

lemma hook_inv_unhook:
  assumes inv: "hook_inv tab0 N st"
  shows "hook_inv tab0 N (ksu_syscall_table_unhook (\<lambda>_. True) nr st)"
proof -
  obtain tab where tab: "hk_table st = Some tab" "length tab = length tab0" "hk_nr st = length tab0"
    "distinct (map fst (hk_entries st))" "fst ` set (hk_entries st) \<subseteq> N"
    "\<forall>e\<in>set (hk_entries st). fst e < length tab0 \<and> snd e = tab0 ! fst e"
    "\<forall>i<length tab0. i \<notin> fst ` set (hk_entries st) \<longrightarrow> tab ! i = tab0 ! i"
    using inv unfolding hook_inv_def by blast
  show ?thesis
  proof (cases "nr_ok st nr \<and> entry_index (nat nr) (hk_entries st) \<noteq> None")
    case True
    then obtain i where i: "entry_index (nat nr) (hk_entries st) = Some i" and ok: "nr_ok st nr" by auto
    let ?es = "hk_entries st"
    have ei: "i < length ?es" "fst (?es ! i) = nat nr" using entry_index_SomeD [OF i] by simp_all
    have orig: "snd (?es ! i) = tab0 ! nat nr" "nat nr < length tab0" using tab(6) ei by (metis nth_mem)+
    note sw = set_swap_remove [OF ei(1) tab(4)]
    have un: "ksu_syscall_table_unhook (\<lambda>_. True) nr st =
      st\<lparr>hk_table := Some (tab[nat nr := tab0 ! nat nr]), hk_entries := butlast (?es[i := last ?es])\<rparr>"
      using tab(1) ok i orig by (simp add: ksu_syscall_table_unhook_def patch_syscall_table_def nr_ok_def Let_def)
    have "k < length tab0 \<Longrightarrow> k \<notin> fst ` {e \<in> set ?es. fst e \<noteq> nat nr} \<Longrightarrow> tab[nat nr := tab0 ! nat nr] ! k = tab0 ! k" for k
      using tab(2,7) by (cases "k = nat nr") (auto simp: image_iff)
    then show ?thesis
      unfolding un hook_inv_def using tab sw ei(2) by (auto simp: image_iff)
  qed (use tab(1) inv in \<open>auto simp: ksu_syscall_table_unhook_def\<close>)
qed

lemma hook_inv_other:
  "hook_inv tab0 N st \<Longrightarrow> hook_inv tab0 N (snd (ksu_register_syscall_hook nr h st))"
  "hook_inv tab0 N st \<Longrightarrow> hook_inv tab0 N (ksu_unregister_syscall_hook nr st)"
  by (simp_all add: hook_inv_def ksu_register_syscall_hook_def ksu_unregister_syscall_hook_def)

lemma hook_run_inv:
  "hook_inv tab0 N st \<Longrightarrow> hooked_nrs ops \<subseteq> N \<Longrightarrow> finite N \<Longrightarrow> card N \<le> HOOKED_MAX \<Longrightarrow>
   hook_inv tab0 N (hook_run (\<lambda>_. True) ops st)"
proof (induction "\<lambda>_::nat. True" ops st rule: hook_run.induct)
  case (2 nr fn ops st)
  then show ?case using hook_inv_hook [OF 2(2), of nr fn] by simp
qed (simp_all add: hook_inv_unhook hook_inv_other)

lemma restore_entries_nth:
  "k < length tab \<Longrightarrow> distinct (map fst es) \<Longrightarrow>
   restore_entries (\<lambda>_. True) es tab ! k = (case map_of es k of None \<Rightarrow> tab ! k | Some f \<Rightarrow> f) \<and>
   length (restore_entries (\<lambda>_. True) es tab) = length tab"
proof (induction es arbitrary: tab)
  case (Cons e es)
  obtain nr orig where e: "e = (nr, orig)" by fastforce
  have "map_of es nr = None" using Cons.prems(2) e by (simp add: map_of_eq_None_iff)
  then show ?case using Cons.IH [of "tab[nr := orig]"] Cons.prems e by (auto split: option.split)
qed simp

lemma hook_exit_restores:
  assumes "hook_inv tab0 N st"
  shows "hk_table (ksu_syscall_hook_exit (\<lambda>_. True) st) = Some tab0"
proof -
  obtain tab where tab: "hk_table st = Some tab" "length tab = length tab0"
    "distinct (map fst (hk_entries st))"
    "\<forall>e\<in>set (hk_entries st). fst e < length tab0 \<and> snd e = tab0 ! fst e"
    "\<forall>i<length tab0. i \<notin> fst ` set (hk_entries st) \<longrightarrow> tab ! i = tab0 ! i"
    using assms unfolding hook_inv_def by blast
  have "restore_entries (\<lambda>_. True) (hk_entries st) tab = tab0"
  proof (cases "tab = []")
    case True
    then have "hk_entries st = []" using tab(2,4) by (cases "hk_entries st") auto
    then show ?thesis using True tab(2) by simp
  next
    case False
    have nth: "restore_entries (\<lambda>_. True) (hk_entries st) tab ! k = tab0 ! k" if "k < length tab" for k
    proof (cases "map_of (hk_entries st) k")
      case None
      then have "k \<notin> fst ` set (hk_entries st)" by (simp add: map_of_eq_None_iff)
      then show ?thesis using restore_entries_nth [OF that tab(3)] None tab(2,5) that by simp
    next
      case (Some f)
      then have "(k, f) \<in> set (hk_entries st)" by (rule map_of_SomeD)
      then have "f = tab0 ! k" using tab(4) by force
      then show ?thesis using restore_entries_nth [OF that tab(3)] Some by simp
    qed
    have "length (restore_entries (\<lambda>_. True) (hk_entries st) tab) = length tab"
      using restore_entries_nth [of 0 tab, OF _ tab(3)] False by simp
    then show ?thesis using nth tab(2) by (intro nth_equalityI) simp_all
  qed
  then show ?thesis using tab(1) by (simp add: ksu_syscall_hook_exit_def Let_def)
qed

section \<open>Lemmas: the rendezvous\<close>

definition starters :: "rendezvous \<Rightarrow> nat set" where
  "starters s = {j. j < length (rv_pc s) \<and> rv_pc s ! j = Start}"

definition rv_inv :: "nat \<Rightarrow> rendezvous \<Rightarrow> bool" where
  "rv_inv n s \<longleftrightarrow> length (rv_pc s) = n \<and>
     (if rv_count s < n
      then rv_patched s = 0 \<and> (\<forall>j<n. rv_pc s ! j \<in> {Start, Waiting}) \<and> card (starters s) = n - rv_count s
      else if rv_count s = n
      then \<exists>i<n. (\<forall>j<n. j \<noteq> i \<longrightarrow> rv_pc s ! j = Waiting) \<and>
        (rv_pc s ! i = Patching \<and> rv_patched s = 0 \<or> rv_pc s ! i = Notify \<and> rv_patched s = 1)
      else rv_count s = n + 1 \<and> rv_patched s = 1 \<and> (\<forall>j<n. rv_pc s ! j \<in> {Waiting, Done}))"

lemma rv_inv_arrive_last:
  assumes inv: "rv_inv n s" and i: "i < length (rv_pc s)" "rv_pc s ! i = Start" "rv_count s + 1 = length (rv_pc s)"
  shows "rv_inv n (s\<lparr>rv_count := rv_count s + 1, rv_pc := (rv_pc s)[i := Patching]\<rparr>)"
proof -
  have n: "length (rv_pc s) = n" "rv_count s < n" using inv i(3) by (simp_all add: rv_inv_def)
  then have c: "rv_patched s = 0" "\<forall>j<n. rv_pc s ! j \<in> {Start, Waiting}" "card (starters s) = 1"
    using inv i(3) by (auto simp: rv_inv_def)
  have "i \<in> starters s" using i by (simp add: starters_def)
  then have "starters s = {i}" using c(3) by (metis card_1_singletonE singletonD)
  then have "\<forall>j<n. j \<noteq> i \<longrightarrow> rv_pc s ! j = Waiting" using c(2) n(1) by (auto simp: starters_def)
  then show ?thesis using n i c(1) by (auto simp: rv_inv_def intro!: exI [of _ i])
qed

lemma rv_inv_arrive:
  assumes inv: "rv_inv n s" and i: "i < length (rv_pc s)" "rv_pc s ! i = Start" "rv_count s + 1 \<noteq> length (rv_pc s)"
  shows "rv_inv n (s\<lparr>rv_count := rv_count s + 1, rv_pc := (rv_pc s)[i := Waiting]\<rparr>)"
proof -
  have n: "length (rv_pc s) = n" using inv by (simp add: rv_inv_def)
  have lt: "rv_count s < n"
    using inv i(1,2) n by (auto simp: rv_inv_def split: if_splits)
  then have c: "rv_patched s = 0" "\<forall>j<n. rv_pc s ! j \<in> {Start, Waiting}" "card (starters s) = n - rv_count s"
    using inv by (auto simp: rv_inv_def)
  let ?t = "s\<lparr>rv_count := rv_count s + 1, rv_pc := (rv_pc s)[i := Waiting]\<rparr>"
  have "starters ?t = starters s - {i}" using i by (auto simp: starters_def nth_list_update)
  then have "card (starters ?t) = n - (rv_count s + 1)" using c(3) i lt by (simp add: starters_def)
  then show ?thesis using n lt i(1,3) c by (auto simp: rv_inv_def nth_list_update)
qed

lemma rv_inv_busy:
  assumes "rv_inv n s" "i < n" "rv_pc s ! i \<in> {Patching, Notify}" "j < n" "j \<noteq> i"
  shows "rv_pc s ! j = Waiting"
proof -
  from assms(1-3) obtain k where k: "k < n" "\<forall>j<n. j \<noteq> k \<longrightarrow> rv_pc s ! j = Waiting"
    by (auto simp: rv_inv_def split: if_splits)
  then have "k = i" using assms(2,3) by auto
  then show ?thesis using k assms(4,5) by blast
qed

lemma rv_inv_step:
  assumes "rv_inv n s" "patch_step s s'"
  shows "rv_inv n s'"
  using assms(2,1)
proof (cases rule: patch_step.cases)
  case (poke i)
  then show ?thesis using assms(1) by (auto simp: rv_inv_def nth_list_update split: if_splits)
next
  case (notify i)
  then have "rv_count s = n" "length (rv_pc s) = n" "i < n"
    using assms(1) by (auto simp: rv_inv_def split: if_splits)
  moreover from this have "\<forall>j<n. j \<noteq> i \<longrightarrow> rv_pc s ! j = Waiting"
    using rv_inv_busy [OF assms(1), of i] notify(3) by simp
  moreover from calculation have "rv_patched s = 1"
    using assms(1) notify(3) by (auto simp: rv_inv_def)
  ultimately show ?thesis using notify(1) by (auto simp: rv_inv_def nth_list_update)
next
  case (leave i)
  then show ?thesis using assms(1) by (auto simp: rv_inv_def nth_list_update split: if_splits)
next
  case (arrive_last i)
  then show ?thesis using rv_inv_arrive_last [OF assms(1) arrive_last(2-4)] by simp
next
  case (arrive i)
  then show ?thesis using rv_inv_arrive [OF assms(1) arrive(2-4)] by simp
qed

lemma rv_inv_reach: "patch_reach n s \<Longrightarrow> 0 < n \<Longrightarrow> rv_inv n s"
proof (induction rule: patch_reach.induct)
  case init
  have "starters (patch_init n) = {0..<n}" by (auto simp: starters_def patch_init_def)
  with init show ?case by (simp add: rv_inv_def patch_init_def)
qed (blast intro: rv_inv_step)

lemma rv_inv_progress:
  assumes "rv_inv n s" "0 < n" "\<forall>s'. \<not> patch_step s s'"
  shows "(\<forall>j<n. rv_pc s ! j = Done) \<and> rv_patched s = 1"
proof -
  have len: "length (rv_pc s) = n" using assms(1) by (simp add: rv_inv_def)
  have noS: "rv_pc s ! j \<noteq> Start" "rv_pc s ! j \<noteq> Patching" "rv_pc s ! j \<noteq> Notify" if "j < n" for j
    using assms(3) that len patch_step.arrive_last [of j s] patch_step.arrive [of j s]
      patch_step.poke [of j s] patch_step.notify [of j s] by auto
  have noW: "rv_pc s ! j \<noteq> Waiting" if "j < n" "rv_count s > n" for j
    using assms(3) that len patch_step.leave [of j s] by auto
  have "\<not> rv_count s < n"
  proof
    assume lt: "rv_count s < n"
    then have "card (starters s) > 0" using assms(1) by (simp add: rv_inv_def)
    then have "starters s \<noteq> {}" by auto
    then show False using noS len by (auto simp: starters_def)
  qed
  moreover have "rv_count s \<noteq> n" using assms(1) noS by (auto simp: rv_inv_def)
  ultimately show ?thesis using assms(1) noW by (auto simp: rv_inv_def)
qed

fun cpu_rank :: "cpu_pc \<Rightarrow> nat" where
  "cpu_rank Start = 3" | "cpu_rank Patching = 2" | "cpu_rank Waiting = 1" | "cpu_rank Notify = 1" | "cpu_rank Done = 0"

lemma sum_list_decrease:
  "i < length xs \<Longrightarrow> f y < f (xs ! i) \<Longrightarrow> sum_list (map f (xs[i := y])) < sum_list (map f xs)" for f :: "'a \<Rightarrow> nat"
proof (induction xs arbitrary: i)
  case (Cons x xs)
  then show ?case by (cases i) simp_all
qed simp

lemma patch_step_rank: "patch_step s s' \<Longrightarrow> sum_list (map cpu_rank (rv_pc s')) < sum_list (map cpu_rank (rv_pc s))"
  by (erule patch_stepE) (auto intro: sum_list_decrease)

section \<open>Lemmas: branch encoding\<close>

text \<open>The encoding of a \<open>BL\<close> that jumps \<open>k\<close> instructions.\<close>

definition bl_encode :: "int \<Rightarrow> u32" where
  "bl_encode k = 0x94000000 OR (word_of_int k AND 0x03FFFFFF)"

lemma bl_imm: "bl_encode k AND 0x03FFFFFF = take_bit 26 (word_of_int k)"
proof -
  have m: "(0x03FFFFFF :: u32) = mask 26" by (simp add: mask_eq_exp_minus_1)
  have "(0x94000000 :: u32) AND 0x03FFFFFF = 0" by simp
  then show ?thesis
    unfolding bl_encode_def m by (simp add: bit.conj_disj_distrib2 take_bit_eq_mask and.assoc)
qed

lemma bl_opcode: "bl_encode k AND 0xFC000000 = 0x94000000"
proof -
  have "(0x03FFFFFF :: u32) AND 0xFC000000 = 0" by simp
  then show ?thesis unfolding bl_encode_def
    by (simp add: bit.conj_disj_distrib2 and.assoc)
qed

lemma push_take: "push_bit 6 (take_bit 26 (x::u32)) = push_bit 6 x"
  by (rule bit_eqI) (auto simp: bit_simps)

lemma bl_target_encode:
  assumes "- (2 ^ 25) \<le> k" "k < 2 ^ 25"
  shows "bl_target pc (bl_encode k) = pc + word_of_int (4 * k)"
proof -
  let ?w = "push_bit 6 (word_of_int k) :: u32"
  have w: "?w = word_of_int (64 * k)" by (simp add: push_bit_eq_mult mult.commute)
  have "sint (word_of_int (64 * k) :: u32) = signed_take_bit 31 (64 * k)"
    by (subst signed_of_int) simp
  also have "\<dots> = 64 * k" using assms by (intro signed_take_bit_int_eq_self) simp_all
  finally have "sint ?w = 64 * k" unfolding w .
  then have "sint (signed_drop_bit 6 ?w) = k"
    by (simp add: sint_signed_drop_bit_eq drop_bit_eq_div)
  then have "(scast (signed_drop_bit 6 ?w) :: u64) = word_of_int k"
    by (simp add: scast_eq)
  moreover have "bl_target pc (bl_encode k) = pc + push_bit 2 (scast (signed_drop_bit 6 ?w))"
    by (simp only: bl_target_def bl_imm push_take Let_def)
  ultimately show ?thesis by (simp only: push_bit_eq_mult) simp
qed

lemma scan_call_to_sound:
  "scan_call_to start insns target = Some a \<Longrightarrow>
   \<exists>i<length insns. a = start + 4 * of_nat i \<and> insns ! i AND 0xFC000000 = 0x94000000 \<and>
     bl_target a (insns ! i) = target"
proof (induction start insns target rule: scan_call_to.induct)
  case (2 start insn rest target)
  show ?case
  proof (cases "insn AND 0xFC000000 = 0x94000000 \<and> bl_target start insn = target")
    case True
    then have "a = start" using 2(2) by (metis option.inject scan_call_to.simps(2))
    then show ?thesis using True by (intro exI [of _ 0]) simp
  next
    case False
    then have "scan_call_to (start + 4) rest target = Some a" using 2(2) by (metis scan_call_to.simps(2))
    from 2(1) [OF False this] obtain i where "i < length rest" "a = start + 4 + 4 * of_nat i"
      "rest ! i AND 0xFC000000 = 0x94000000" "bl_target a (rest ! i) = target" by blast
    then show ?thesis by (intro exI [of _ "Suc i"]) (simp add: algebra_simps)
  qed
qed simp

lemma scan_call_to_finds:
  "i < length insns \<Longrightarrow> insns ! i AND 0xFC000000 = 0x94000000 \<Longrightarrow> bl_target (start + 4 * of_nat i) (insns ! i) = target \<Longrightarrow>
   \<exists>a. scan_call_to start insns target = Some a"
proof (induction start insns target arbitrary: i rule: scan_call_to.induct)
  case (2 start insn rest target)
  show ?case
  proof (cases "insn AND 0xFC000000 = 0x94000000 \<and> bl_target start insn = target")
    case True
    then show ?thesis by (metis scan_call_to.simps(2))
  next
    case False
    obtain j where j: "i = Suc j" using 2(2-4) False by (cases i) auto
    then have "\<exists>a. scan_call_to (start + 4) rest target = Some a"
      using 2(2-4) by (intro 2(1) [OF False, of j]) (simp_all add: algebra_simps)
    then show ?thesis using False by (metis scan_call_to.simps(2))
  qed
qed simp

section \<open>Properties\<close>

text \<open>(C20) Unloading leaves the syscall table as it was found: after initialisation on a table, any
  sequence of hooking, unhooking, registering and unregistering that hooks at most 15 different numbers
  (the tracking array has 16 entries and the dispatcher's slot takes one), and exit, the table has
  every original handler again, provided memory can be patched.\<close>

theorem syscall_table_restored:
  fixes st :: "('f, 'h) hook_state"
  assumes "hk_nr st = length tab0" "hk_entries st = []" "card (hooked_nrs ops) < HOOKED_MAX"
  shows "hk_table (ksu_syscall_hook_exit (\<lambda>_. True)
      (hook_run (\<lambda>_. True) ops (ksu_syscall_hook_init (\<lambda>_. True) (Some tab0) ni dispatcher st))) = Some tab0"
proof -
  let ?st1 = "st\<lparr>hk_hooks := (\<lambda>_. None), hk_table := Some tab0\<rparr>"
  have inv1: "hook_inv tab0 N ?st1" "hook_inv tab0 N (?st1\<lparr>hk_dispatcher := d\<rparr>)" for N d
    using assms(1,2) by (simp_all add: hook_inv_def)
  have "\<exists>N. hook_inv tab0 N (ksu_syscall_hook_init (\<lambda>_. True) (Some tab0) ni dispatcher st) \<and>
      hooked_nrs ops \<subseteq> N \<and> finite N \<and> card N \<le> HOOKED_MAX"
  proof (cases "ksu_find_ni_syscall_slots ?st1 ni 1")
    case Nil
    then show ?thesis using inv1(1) assms(3) finite_hooked_nrs
      by (intro exI [of _ "hooked_nrs ops"]) (simp add: ksu_syscall_hook_init_def Let_def)
  next
    case (Cons slot rest)
    let ?N = "insert slot (hooked_nrs ops)"
    have N: "finite ?N" "card ?N \<le> HOOKED_MAX"
      using assms(3) finite_hooked_nrs [of ops] card_insert_le_m1 [of HOOKED_MAX "hooked_nrs ops" slot] by auto
    have "hook_inv tab0 ?N (fst (ksu_syscall_table_hook (\<lambda>_. True) (int slot) dispatcher (?st1\<lparr>hk_dispatcher := int slot\<rparr>)))"
      using N by (intro hook_inv_hook inv1) simp_all
    then show ?thesis using N Cons
      by (intro exI [of _ ?N]) (auto simp: ksu_syscall_hook_init_def Let_def)
  qed
  then obtain N where "hook_inv tab0 N (ksu_syscall_hook_init (\<lambda>_. True) (Some tab0) ni dispatcher st)"
    "hooked_nrs ops \<subseteq> N" "finite N" "card N \<le> HOOKED_MAX" by blast
  from hook_exit_restores [OF hook_run_inv [OF this]] show ?thesis .
qed

definition hst0 :: "(nat, nat) hook_state" where
  "hst0 = \<lparr>hk_table = None, hk_nr = 4, hk_dispatcher = - 1, hk_hooks = (\<lambda>_. None), hk_entries = []\<rparr>"

theorem syscall_table_restored_witness:
  "hk_table (hook_run (\<lambda>_. True) [Hook 2 77] (ksu_syscall_hook_init (\<lambda>_. True) (Some [10, 11, 12, 13]) (Some 11) 99 hst0))
     = Some [10, 99, 77, 13] \<and>
   hk_table (ksu_syscall_hook_exit (\<lambda>_. True)
      (hook_run (\<lambda>_. True) [Hook 2 77] (ksu_syscall_hook_init (\<lambda>_. True) (Some [10, 11, 12, 13]) (Some 11) 99 hst0))) = Some [10, 11, 12, 13]"
proof
  show "hk_table (ksu_syscall_hook_exit (\<lambda>_. True)
      (hook_run (\<lambda>_. True) [Hook 2 77] (ksu_syscall_hook_init (\<lambda>_. True) (Some [10, 11, 12, 13]) (Some 11) 99 hst0))) = Some [10, 11, 12, 13]"
    by (rule syscall_table_restored) (simp_all add: hst0_def)
qed (simp add: hst0_def ksu_syscall_hook_init_def ksu_find_ni_syscall_slots_def ksu_syscall_table_hook_def
    patch_syscall_table_def nr_ok_def upt_rec Let_def)

text \<open>(C21) The redirection is transparent: for a native syscall with a registered handler the
  tracepoint and the dispatcher together run that handler with the syscall's own number and with the
  registers the task had; a syscall without a handler keeps its registers; and a task that calls the
  dispatcher's own number itself gets \<open>-ENOSYS\<close> with nothing changed.\<close>

theorem dispatcher_transparent:
  fixes st :: "('f, 'w hook_fn) hook_state"
  assumes "hk_nr st < 2 ^ 31" "0 \<le> hk_dispatcher st" "hk_dispatcher st < int (hk_nr st)"
    and "hk_hooks st (nat (hk_dispatcher st)) = None"
    and "0 \<le> nr" "nr < int (hk_nr st)" "rg_syscallno r = nr" "rg_orig r = word_of_int nr"
  shows "(\<forall>fn. hk_hooks st (nat nr) = Some fn \<longrightarrow>
      ksu_syscall_dispatcher st (ksu_sys_enter_handler False st nr r) w = fn nr r w) \<and>
    (hk_hooks st (nat nr) = None \<longrightarrow> ksu_sys_enter_handler False st nr r = r) \<and>
    (nr = hk_dispatcher st \<longrightarrow> ksu_syscall_dispatcher st r w = (- ENOSYS, r, w))"
proof -
  have cast: "int_of_u64 (word_of_int nr) = nr"
  proof -
    have "(ucast (word_of_int nr :: u64) :: u32) = word_of_int nr"
      using assms(1,5,6) by (subst unsigned_of_int) (simp add: take_bit_int_eq_self)
    moreover have "sint (word_of_int nr :: u32) = nr"
      using assms(1,5,6) by (subst signed_of_int) (simp add: signed_take_bit_int_eq_self)
    ultimately show ?thesis by simp
  qed
  have id_r: "r\<lparr>rg_syscallno := nr, rg_orig := word_of_int nr\<rparr> = r" using assms(7,8) by (cases r) simp
  show ?thesis
  proof (intro conjI allI impI)
    fix fn assume fn: "hk_hooks st (nat nr) = Some fn"
    then have "nr \<noteq> hk_dispatcher st" using assms(4) by auto
    then show "ksu_syscall_dispatcher st (ksu_sys_enter_handler False st nr r) w = fn nr r w"
      using fn assms cast
      by (simp add: ksu_syscall_dispatcher_def ksu_sys_enter_handler_def ksu_has_syscall_hook_def nr_ok_def Let_def)
        (simp only: id_r)
  qed (use assms cast in \<open>auto simp: ksu_syscall_dispatcher_def ksu_sys_enter_handler_def ksu_has_syscall_hook_def\<close>)
qed

definition hook0 :: "unit hook_fn" where
  "hook0 nr r w = (nr + 100, r, w)"

definition hst1 :: "(nat, unit hook_fn) hook_state" where
  "hst1 = \<lparr>hk_table = Some [10, 99, 12, 13], hk_nr = 4, hk_dispatcher = 1, hk_hooks = [2 \<mapsto> hook0], hk_entries = [(1, 11)]\<rparr>"

theorem dispatcher_transparent_witness:
  "ksu_syscall_dispatcher hst1 (ksu_sys_enter_handler False hst1 2 \<lparr>rg_syscallno = 2, rg_orig = 2\<rparr>) () =
     (102, \<lparr>rg_syscallno = 2, rg_orig = 2\<rparr>, ())"
  using dispatcher_transparent [of hst1 2 "\<lparr>rg_syscallno = 2, rg_orig = 2\<rparr>" "()"]
  by (simp add: hst1_def hook0_def)

text \<open>(C22) The patching rendezvous is correct for every number of processors and every interleaving:
  memory is patched at most once, only when every other processor is waiting, no processor goes on
  before it is patched; when no step is left every processor has gone on and memory was patched; and
  every run ends, because each step lowers a rank.\<close>

theorem patch_rendezvous:
  assumes "patch_reach n s" "0 < n"
  shows "rv_patched s \<le> 1 \<and> ((\<exists>j<n. rv_pc s ! j = Done) \<longrightarrow> rv_patched s = 1) \<and>
    (\<forall>i<n. rv_pc s ! i = Patching \<longrightarrow> (\<forall>j<n. j \<noteq> i \<longrightarrow> rv_pc s ! j = Waiting)) \<and>
    ((\<forall>s'. \<not> patch_step s s') \<longrightarrow> (\<forall>j<n. rv_pc s ! j = Done) \<and> rv_patched s = 1) \<and>
    (\<forall>s'. patch_step s s' \<longrightarrow> sum_list (map cpu_rank (rv_pc s')) < sum_list (map cpu_rank (rv_pc s)))"
proof -
  have inv: "rv_inv n s" using assms by (rule rv_inv_reach)
  have "rv_patched s \<le> 1" using inv by (auto simp: rv_inv_def split: if_splits)
  moreover have "rv_patched s = 1" if "j < n" "rv_pc s ! j = Done" for j
    using inv that by (auto simp: rv_inv_def split: if_splits)
  moreover have "rv_pc s ! j = Waiting" if "i < n" "rv_pc s ! i = Patching" "j < n" "j \<noteq> i" for i j
    using rv_inv_busy [OF inv that(1) _ that(3,4)] that(2) by simp
  ultimately show ?thesis using rv_inv_progress [OF inv assms(2)] patch_step_rank by blast
qed

theorem patch_rendezvous_witness:
  "patch_reach 2 \<lparr>rv_count = 2, rv_patched = 0, rv_pc = [Waiting, Patching]\<rparr> \<and>
   rv_pc \<lparr>rv_count = 2, rv_patched = 0, rv_pc = [Waiting, Patching]\<rparr> ! 0 = Waiting"
proof -
  let ?s1 = "\<lparr>rv_count = 1, rv_patched = 0, rv_pc = [Waiting, Start]\<rparr>"
  let ?s2 = "\<lparr>rv_count = 2, rv_patched = 0, rv_pc = [Waiting, Patching]\<rparr>"
  have "patch_step (patch_init 2) ?s1"
    using patch_step.arrive [of 0 "patch_init 2"] by (simp add: patch_init_def numeral_2_eq_2)
  moreover have "patch_step ?s1 ?s2" using patch_step.arrive_last [of 1 ?s1] by (simp add: numeral_2_eq_2)
  ultimately have r: "patch_reach 2 ?s2" by (meson patch_reach.intros)
  have "\<forall>i<2. rv_pc ?s2 ! i = Patching \<longrightarrow> (\<forall>j<2. j \<noteq> i \<longrightarrow> rv_pc ?s2 ! j = Waiting)"
    using patch_rendezvous [OF r] by simp
  then have "\<forall>j<2. j \<noteq> 1 \<longrightarrow> rv_pc ?s2 ! j = Waiting" by (elim allE [of _ 1]) simp
  then have "rv_pc ?s2 ! 0 = Waiting" by (elim allE [of _ 0]) simp
  with r show ?thesis by (rule conjI)
qed

text \<open>(C23) The scan for a call finds branches by their encoding: an address it returns holds a \<open>BL\<close>
  whose target is the one asked for, and it finds a \<open>BL\<close> to the target wherever there is one, at any
  distance the 26-bit signed offset can express.\<close>

theorem scan_call_to_spec:
  "(scan_call_to start insns target = Some a \<longrightarrow>
     (\<exists>i<length insns. a = start + 4 * of_nat i \<and> insns ! i AND 0xFC000000 = 0x94000000 \<and> bl_target a (insns ! i) = target)) \<and>
   (i < length insns \<and> insns ! i = bl_encode k \<and> - (2 ^ 25) \<le> k \<and> k < 2 ^ 25 \<and>
      target = start + 4 * of_nat i + word_of_int (4 * k) \<longrightarrow> scan_call_to start insns target \<noteq> None)"
proof (intro conjI impI)
  assume "i < length insns \<and> insns ! i = bl_encode k \<and> - (2 ^ 25) \<le> k \<and> k < 2 ^ 25 \<and>
      target = start + 4 * of_nat i + word_of_int (4 * k)"
  then have i: "i < length insns" "insns ! i = bl_encode k" "- (2 ^ 25) \<le> k" "k < 2 ^ 25"
    "target = start + 4 * of_nat i + word_of_int (4 * k)" by simp_all
  have "\<exists>a. scan_call_to start insns target = Some a"
    by (rule scan_call_to_finds [OF i(1)]) (simp_all only: i(2,5) bl_opcode bl_target_encode [OF i(3,4)])
  then show "scan_call_to start insns target \<noteq> None" by auto
qed (rule scan_call_to_sound)

theorem scan_call_to_spec_witness:
  "scan_call_to 0x1000 [0xd503201f, bl_encode (- 2)] 0xffc \<noteq> None"
  using conjunct2 [OF scan_call_to_spec [of "0x1000" "[0xd503201f, bl_encode (- 2)]" "0xffc" 0 1 "- 2"]]
  by (rule mp) simp

end
