(* ===== verification/KSU_Mark.thy ===== *)
theory KSU_Mark
  imports KSU_Escape
begin

text \<open>
  Which tasks are watched and what happens when a task changes its uid: the tracepoint marks
  (\<open>hook/tp_marker.c\<close>) with the probes on tracepoint registration
  (\<open>hook/syscall_hook_manager.c\<close>), the umount on app start (\<open>feature/kernel_umount.c\<close>), the driver
  descriptors (\<open>supercall/supercall.c\<close>) and the setresuid hook (\<open>hook/setuid_hook.c\<close>,
  \<open>hook/syscall_event_bridge.c\<close>).

  The module's run-time state is \<open>ksu_world\<close>; what does not change, and what the kernel answers, is
  \<open>ksu_env\<close>. The tasks of the system are \<open>kw_live\<close>, their data is in the process table.
\<close>

section \<open>State\<close>

record ksu_env =
  ke_cfg :: ksu_config
  ke_allow_shell :: bool
  ke_hf :: "u32 \<Rightarrow> nat"
  ke_lsm :: lsm
  ke_sc :: sid_cache
  ke_adb_only :: bool
  ke_native_nr :: nat
  ke_compat_nr :: nat
  ke_reboot_nr :: int
  ke_ctx_alloc :: bool
  ke_unused_fd :: int
  ke_anon_file :: int
  ke_kern_path :: "bytes \<Rightarrow> int"
  ke_mnt_root :: "bytes \<Rightarrow> bool"

text \<open>A driver descriptor: the task that has it and its permission word.\<close>

record ksu_world =
  kw_esc :: esc_state
  kw_live :: "nat list"
  kw_reg_count :: int
  kw_caches :: "nat \<Rightarrow> action_cache option"
  kw_mounts :: "(bytes \<times> u32) list"
  kw_unmounted :: "(bytes \<times> u32) list"
  kw_module_mounted :: bool
  kw_umount_enabled :: bool
  kw_appid :: u32
  kw_fds :: "(nat \<times> u64) list"

abbreviation kw_tasks :: "ksu_world \<Rightarrow> proc_table" where "kw_tasks w \<equiv> xs_tasks (kw_esc w)"
abbreviation kw_current :: "ksu_world \<Rightarrow> nat" where "kw_current w \<equiv> xs_current (kw_esc w)"
abbreviation kw_allow :: "ksu_world \<Rightarrow> allow_state" where "kw_allow w \<equiv> xs_allow (kw_esc w)"
abbreviation current_cred :: "ksu_world \<Rightarrow> cred" where "current_cred w \<equiv> tk_cred (kw_tasks w (kw_current w))"

definition upd_tasks :: "(proc_table \<Rightarrow> proc_table) \<Rightarrow> ksu_world \<Rightarrow> ksu_world" where
  "upd_tasks f w = w\<lparr>kw_esc := (kw_esc w)\<lparr>xs_tasks := f (xs_tasks (kw_esc w))\<rparr>\<rparr>"

section \<open>Marks\<close>

definition ksu_set_task_tracepoint_flag :: "nat \<Rightarrow> ksu_world \<Rightarrow> ksu_world" where
  "ksu_set_task_tracepoint_flag t = upd_tasks (set_task t (\<lambda>x. x\<lparr>tk_tracepoint := True\<rparr>))"

definition ksu_clear_task_tracepoint_flag :: "nat \<Rightarrow> ksu_world \<Rightarrow> ksu_world" where
  "ksu_clear_task_tracepoint_flag t = upd_tasks (set_task t (\<lambda>x. x\<lparr>tk_tracepoint := False\<rparr>))"

definition ksu_clear_task_tracepoint_flag_if_needed :: "nat \<Rightarrow> ksu_world \<Rightarrow> ksu_world" where
  "ksu_clear_task_tracepoint_flag_if_needed t w =
     (if kw_reg_count w \<le> 1 then ksu_clear_task_tracepoint_flag t w else w)"

definition handle_process_mark :: "bool \<Rightarrow> ksu_world \<Rightarrow> ksu_world" where
  "handle_process_mark mark w =
     fold (if mark then ksu_set_task_tracepoint_flag else ksu_clear_task_tracepoint_flag) (kw_live w) w"

definition ksu_mark_all_process :: "ksu_world \<Rightarrow> ksu_world" where
  "ksu_mark_all_process = handle_process_mark True"

definition ksu_unmark_all_process :: "ksu_world \<Rightarrow> ksu_world" where
  "ksu_unmark_all_process = handle_process_mark False"

definition should_mark :: "ksu_env \<Rightarrow> ksu_world \<Rightarrow> nat \<Rightarrow> bool" where
  "should_mark e w t =
     (let tk = kw_tasks w t; uid = cr_uid (tk_cred tk);
          ksu_root_process = (uid = 0 \<and> is_task_ksu_domain (ke_lsm e) (ke_sc e) (Some (tk_cred tk)));
          is_zygote_process = is_zygote (ke_lsm e) (ke_sc e) (Some (tk_cred tk));
          is_shell = (uid = 2000);
          is_init = (tk_pid tk = 1)
      in ksu_root_process \<or> is_zygote_process \<or> is_shell \<or> is_init \<or>
         ksu_is_allow_uid (ke_cfg e) (kw_appid w) (ke_allow_shell e) (ke_hf e) (kw_allow w) uid)"

definition mark_running_one :: "ksu_env \<Rightarrow> nat \<Rightarrow> ksu_world \<Rightarrow> ksu_world" where
  "mark_running_one e t w =
     (if tk_pid (kw_tasks w t) \<noteq> 1 \<and> \<not> tk_mm (kw_tasks w t) then w
      else if should_mark e w t then ksu_set_task_tracepoint_flag t w
      else ksu_clear_task_tracepoint_flag t w)"

definition ksu_mark_running_process_locked :: "ksu_env \<Rightarrow> ksu_world \<Rightarrow> ksu_world" where
  "ksu_mark_running_process_locked e w = fold (mark_running_one e) (kw_live w) w"

definition ksu_mark_running_process :: "ksu_env \<Rightarrow> ksu_world \<Rightarrow> ksu_world" where
  "ksu_mark_running_process e w =
     (if kw_reg_count w \<le> 1 then ksu_mark_running_process_locked e w else w)"

text \<open>\<open>find_task_by_vpid\<close> is the kernel's lookup of a pid in the caller's namespace.\<close>

definition ksu_get_task_mark :: "(int \<Rightarrow> nat option) \<Rightarrow> int \<Rightarrow> ksu_world \<Rightarrow> int" where
  "ksu_get_task_mark find_task_by_vpid pid w = (case find_task_by_vpid pid of
     None \<Rightarrow> - ESRCH
   | Some t \<Rightarrow> if tk_tracepoint (kw_tasks w t) then 1 else 0)"

definition ksu_set_task_mark :: "(int \<Rightarrow> nat option) \<Rightarrow> int \<Rightarrow> bool \<Rightarrow> ksu_world \<Rightarrow> int \<times> ksu_world" where
  "ksu_set_task_mark find_task_by_vpid pid mark w = (case find_task_by_vpid pid of
     None \<Rightarrow> (- ESRCH, w)
   | Some t \<Rightarrow> (0, if mark then ksu_set_task_tracepoint_flag t w else ksu_clear_task_tracepoint_flag t w))"

definition syscall_regfunc_handler :: "ksu_env \<Rightarrow> ksu_world \<Rightarrow> ksu_world" where
  "syscall_regfunc_handler e w =
     (let w1 = (if kw_reg_count w < 1 then ksu_mark_running_process_locked e w
                else if kw_reg_count w = 1 then ksu_mark_all_process w else w)
      in w1\<lparr>kw_reg_count := kw_reg_count w1 + 1\<rparr>)"

definition syscall_unregfunc_handler :: "ksu_env \<Rightarrow> ksu_world \<Rightarrow> ksu_world" where
  "syscall_unregfunc_handler e w =
     (let w1 = w\<lparr>kw_reg_count := kw_reg_count w - 1\<rparr> in
      if kw_reg_count w1 \<le> 0 then ksu_unmark_all_process w1
      else if kw_reg_count w1 = 1 then ksu_mark_running_process_locked e w1 else w1)"

section \<open>Driver descriptors\<close>

abbreviation KSU_DRIVER_PERMISSION_SU_SESSION :: u64 where "KSU_DRIVER_PERMISSION_SU_SESSION \<equiv> 1"

definition ksu_install_fd_with_permissions :: "ksu_env \<Rightarrow> u64 \<Rightarrow> ksu_world \<Rightarrow> int \<times> ksu_world" where
  "ksu_install_fd_with_permissions e permissions w =
     (if \<not> ke_ctx_alloc e then (- ENOMEM, w)
      else if ke_unused_fd e < 0 then (ke_unused_fd e, w)
      else if ke_anon_file e < 0 then (ke_anon_file e, w)
      else (ke_unused_fd e, w\<lparr>kw_fds := (kw_current w, permissions) # kw_fds w\<rparr>))"

definition ksu_install_fd :: "ksu_env \<Rightarrow> ksu_world \<Rightarrow> int \<times> ksu_world" where
  "ksu_install_fd e = ksu_install_fd_with_permissions e 0"

definition ksu_install_su_fd :: "ksu_env \<Rightarrow> ksu_world \<Rightarrow> int \<times> ksu_world" where
  "ksu_install_su_fd e = ksu_install_fd_with_permissions e KSU_DRIVER_PERMISSION_SU_SESSION"

section \<open>Umount on app start\<close>

definition try_umount :: "ksu_env \<Rightarrow> bytes \<Rightarrow> u32 \<Rightarrow> ksu_world \<Rightarrow> ksu_world" where
  "try_umount e mnt flags w =
     (if ke_kern_path e mnt \<noteq> 0 then w
      else if \<not> ke_mnt_root e mnt then w
      else w\<lparr>kw_unmounted := kw_unmounted w @ [(mnt, flags)]\<rparr>)"

text \<open>The return code and the state; nothing where the profile lookup does not return.\<close>

definition ksu_handle_umount :: "ksu_env \<Rightarrow> u32 \<Rightarrow> ksu_world \<Rightarrow> (int \<times> ksu_world) option" where
  "ksu_handle_umount e new_uid w =
     (if \<not> kw_module_mounted w then Some (0, w)
      else if \<not> kw_umount_enabled w then Some (0, w)
      else if \<not> is_appuid new_uid \<and> new_uid \<noteq> WEBVIEW_ZYGOTE_UID \<and> \<not> is_isolated_process new_uid
      then Some (0, w)
      else (case ksu_uid_should_umount (ke_cfg e) (kw_appid w) (ke_allow_shell e) (ke_hf e) (kw_allow w) new_uid of
         None \<Rightarrow> None
       | Some (should, a1) \<Rightarrow>
           let w1 = w\<lparr>kw_esc := (kw_esc w)\<lparr>xs_allow := a1\<rparr>\<rparr> in
           if \<not> should \<and> \<not> is_isolated_process new_uid then Some (0, w1)
           else if \<not> is_zygote (ke_lsm e) (ke_sc e) (Some (current_cred w1)) then Some (0, w1)
           else Some (0, fold (\<lambda>(mnt, flags). try_umount e mnt flags) (kw_mounts w1) w1)))"

section \<open>The setresuid hook\<close>

definition allow_cache_current :: "ksu_env \<Rightarrow> ksu_world \<Rightarrow> ksu_world" where
  "allow_cache_current e w = w\<lparr>kw_caches := (kw_caches w)(kw_current w :=
     ksu_seccomp_allow_cache (ke_native_nr e) (ke_compat_nr e) (kw_caches w (kw_current w)) (ke_reboot_nr e))\<rparr>"

abbreviation SECCOMP_MODE_FILTER :: nat where "SECCOMP_MODE_FILTER \<equiv> 2"

definition ksu_handle_setresuid :: "ksu_env \<Rightarrow> u32 \<Rightarrow> u32 \<Rightarrow> ksu_world \<Rightarrow> (int \<times> ksu_world) option" where
  "ksu_handle_setresuid e old_uid new_uid w =
     (if is_uid_manager (ke_cfg e) (kw_appid w) new_uid then
        Some (0, snd (ksu_install_fd e (ksu_set_task_tracepoint_flag (kw_current w) (allow_cache_current e w))))
      else
        let w1 = (if ksu_is_allow_uid_for_current (ke_cfg e) (kw_appid w) (ke_allow_shell e) (ke_hf e) (kw_allow w)
                       (ke_lsm e) (ke_sc e) (ke_adb_only e) (kw_tasks w) (kw_current w) new_uid
                  then ksu_set_task_tracepoint_flag (kw_current w)
                         (if tk_seccomp_mode (kw_tasks w (kw_current w)) = SECCOMP_MODE_FILTER \<and>
                             kw_caches w (kw_current w) \<noteq> None
                          then allow_cache_current e w else w)
                  else ksu_clear_task_tracepoint_flag_if_needed (kw_current w) w)
        in (case ksu_handle_umount e new_uid w1 of None \<Rightarrow> None | Some (_, w2) \<Rightarrow> Some (0, w2)))"

text \<open>\<open>orig\<close> is the kernel's \<open>setresuid\<close>, which changes the credentials of the current task.\<close>

definition ksu_hook_setresuid ::
  "ksu_env \<Rightarrow> (ksu_world \<Rightarrow> int \<times> ksu_world) \<Rightarrow> ksu_world \<Rightarrow> (int \<times> ksu_world) option" where
  "ksu_hook_setresuid e orig w =
     (let old_uid = cr_uid (current_cred w) in
      case orig w of (ret, w1) \<Rightarrow>
        if ret < 0 then Some (ret, w1)
        else (case ksu_handle_setresuid e old_uid (cr_uid (current_cred w1)) w1 of
                None \<Rightarrow> None | Some (_, w2) \<Rightarrow> Some (ret, w2)))"

section \<open>Lemmas: marks\<close>

definition with_flag :: "bool \<Rightarrow> task \<Rightarrow> task" where
  "with_flag b t = t\<lparr>tk_tracepoint := b\<rparr>"

lemma with_flag_simps [simp]:
  "tk_tracepoint (with_flag b t) = b" "tk_pid (with_flag b t) = tk_pid t" "tk_mm (with_flag b t) = tk_mm t"
  "tk_cred (with_flag b t) = tk_cred t" "with_flag b (with_flag c t) = with_flag b t"
  by (simp_all add: with_flag_def)

lemma flag_tasks [simp]:
  "kw_tasks (ksu_set_task_tracepoint_flag t w) = (kw_tasks w)(t := with_flag True (kw_tasks w t))"
  "kw_tasks (ksu_clear_task_tracepoint_flag t w) = (kw_tasks w)(t := with_flag False (kw_tasks w t))"
  by (simp_all add: ksu_set_task_tracepoint_flag_def ksu_clear_task_tracepoint_flag_def upd_tasks_def set_task_def with_flag_def)

text \<open>What a change of marks leaves alone.\<close>

definition same_but_flags :: "ksu_world \<Rightarrow> ksu_world \<Rightarrow> bool" where
  "same_but_flags w w' \<longleftrightarrow> kw_live w' = kw_live w \<and> kw_reg_count w' = kw_reg_count w \<and> kw_caches w' = kw_caches w \<and>
     kw_mounts w' = kw_mounts w \<and> kw_unmounted w' = kw_unmounted w \<and> kw_module_mounted w' = kw_module_mounted w \<and>
     kw_umount_enabled w' = kw_umount_enabled w \<and> kw_appid w' = kw_appid w \<and> kw_fds w' = kw_fds w \<and>
     kw_allow w' = kw_allow w \<and> kw_current w' = kw_current w \<and> xs_mnt (kw_esc w') = xs_mnt (kw_esc w) \<and>
     (\<forall>t. \<exists>b. kw_tasks w' t = with_flag b (kw_tasks w t))"

lemma with_flag_self: "with_flag (tk_tracepoint t) t = t"
  by (simp add: with_flag_def)

lemma same_but_flags_refl: "same_but_flags w w"
  unfolding same_but_flags_def by (auto intro: with_flag_self [symmetric])

lemma same_but_flags_trans: "same_but_flags w w' \<Longrightarrow> same_but_flags w' w'' \<Longrightarrow> same_but_flags w w''"
  unfolding same_but_flags_def by (metis with_flag_simps(5))

lemma flag_same:
  "same_but_flags w (ksu_set_task_tracepoint_flag t w)"
  "same_but_flags w (ksu_clear_task_tracepoint_flag t w)"
  by (auto simp: same_but_flags_def ksu_set_task_tracepoint_flag_def ksu_clear_task_tracepoint_flag_def
      upd_tasks_def set_task_def with_flag_def [symmetric] intro: with_flag_self [symmetric])

lemma same_tasks:
  assumes "same_but_flags w w'"
  shows "tk_cred (kw_tasks w' t) = tk_cred (kw_tasks w t)" "tk_pid (kw_tasks w' t) = tk_pid (kw_tasks w t)"
    "tk_mm (kw_tasks w' t) = tk_mm (kw_tasks w t)"
proof -
  obtain b where "kw_tasks w' t = with_flag b (kw_tasks w t)" using assms by (auto simp: same_but_flags_def)
  then show "tk_cred (kw_tasks w' t) = tk_cred (kw_tasks w t)" "tk_pid (kw_tasks w' t) = tk_pid (kw_tasks w t)"
    "tk_mm (kw_tasks w' t) = tk_mm (kw_tasks w t)" by simp_all
qed

lemma should_mark_same: "same_but_flags w w' \<Longrightarrow> should_mark e w' t = should_mark e w t"
  using same_tasks [of w w' t] by (simp add: should_mark_def Let_def same_but_flags_def)

text \<open>A task that is no kernel thread, or is init.\<close>

definition user_task :: "ksu_world \<Rightarrow> nat \<Rightarrow> bool" where
  "user_task w t \<longleftrightarrow> tk_pid (kw_tasks w t) = 1 \<or> tk_mm (kw_tasks w t)"

lemma user_task_same: "same_but_flags w w' \<Longrightarrow> user_task w' t = user_task w t"
  using same_tasks [of w w' t] by (simp add: user_task_def)

lemma mark_running_one_same: "same_but_flags w (mark_running_one e t w)"
  by (simp add: mark_running_one_def flag_same same_but_flags_refl)

lemma mark_running_one_flag:
  "tk_tracepoint (kw_tasks (mark_running_one e t w) x) =
     (if x = t \<and> user_task w t then should_mark e w t else tk_tracepoint (kw_tasks w x))"
  by (auto simp: mark_running_one_def user_task_def)

lemma fold_mark_running:
  "same_but_flags w (fold (mark_running_one e) l w) \<and>
   (\<forall>x. tk_tracepoint (kw_tasks (fold (mark_running_one e) l w) x) =
     (if x \<in> set l \<and> user_task w x then should_mark e w x else tk_tracepoint (kw_tasks w x)))"
proof (induction l arbitrary: w)
  case (Cons t l)
  let ?w = "mark_running_one e t w"
  have s: "same_but_flags w ?w" by (rule mark_running_one_same)
  show ?case
    using Cons.IH [of ?w] same_but_flags_trans [OF s] user_task_same [OF s] should_mark_same [OF s, of e]
      mark_running_one_flag [of e t w] by auto
qed (simp add: same_but_flags_refl)

lemma fold_process_mark:
  "same_but_flags w (fold (if b then ksu_set_task_tracepoint_flag else ksu_clear_task_tracepoint_flag) l w) \<and>
   (\<forall>x. tk_tracepoint (kw_tasks (fold (if b then ksu_set_task_tracepoint_flag else ksu_clear_task_tracepoint_flag) l w) x) =
     (if x \<in> set l then b else tk_tracepoint (kw_tasks w x)))"
proof (induction l arbitrary: w)
  case (Cons t l)
  let ?f = "if b then ksu_set_task_tracepoint_flag else ksu_clear_task_tracepoint_flag"
  have s: "same_but_flags w (?f t w)" by (simp add: flag_same)
  have "tk_tracepoint (kw_tasks (?f t w) x) = (if x = t then b else tk_tracepoint (kw_tasks w x))" for x by simp
  then show ?case using Cons.IH [of "?f t w"] same_but_flags_trans [OF s] by auto
qed (simp add: same_but_flags_refl)

text \<open>The registrations of the syscall tracepoint, ours and others'.\<close>

datatype tp_event = Reg | Unreg

fun tp_run :: "ksu_env \<Rightarrow> tp_event list \<Rightarrow> ksu_world \<Rightarrow> ksu_world" where
  "tp_run e [] w = w"
| "tp_run e (Reg # evs) w = tp_run e evs (syscall_regfunc_handler e w)"
| "tp_run e (Unreg # evs) w = tp_run e evs (syscall_unregfunc_handler e w)"

fun balanced :: "nat \<Rightarrow> tp_event list \<Rightarrow> nat option" where
  "balanced n [] = Some n"
| "balanced n (Reg # evs) = balanced (Suc n) evs"
| "balanced n (Unreg # evs) = (if n = 0 then None else balanced (n - 1) evs)"

definition marks_inv :: "ksu_env \<Rightarrow> nat \<Rightarrow> ksu_world \<Rightarrow> bool" where
  "marks_inv e n w \<longleftrightarrow> kw_reg_count w = int n \<and>
     (\<forall>t\<in>set (kw_live w). user_task w t \<longrightarrow>
        tk_tracepoint (kw_tasks w t) = (if n = 0 then False else if n = 1 then should_mark e w t else True))"

lemma locked_marks:
  assumes "kw_reg_count w' = 1" "w' = (ksu_mark_running_process_locked e w)\<lparr>kw_reg_count := 1\<rparr>"
  shows "marks_inv e 1 w'"
proof -
  let ?w = "ksu_mark_running_process_locked e w"
  have f: "same_but_flags w ?w"
    "\<And>x. tk_tracepoint (kw_tasks ?w x) = (if x \<in> set (kw_live w) \<and> user_task w x then should_mark e w x else tk_tracepoint (kw_tasks w x))"
    using fold_mark_running [of w e "kw_live w"] by (simp_all add: ksu_mark_running_process_locked_def)
  have live: "kw_live ?w = kw_live w" using f(1) by (simp add: same_but_flags_def)
  have u: "user_task w' t = user_task w t" "should_mark e w' t = should_mark e w t" for t
    using user_task_same [OF f(1), of t] should_mark_same [OF f(1), of e t] assms(2)
    by (simp_all add: user_task_def should_mark_def)
  show ?thesis using assms u f(2) live by (simp add: marks_inv_def)
qed
lemma reg_count_self: "kw_reg_count w = c \<Longrightarrow> w\<lparr>kw_reg_count := c\<rparr> = w"
  by (cases w) simp

lemma all_marks:
  "kw_live (handle_process_mark b w) = kw_live w" "kw_reg_count (handle_process_mark b w) = kw_reg_count w"
  "t \<in> set (kw_live w) \<Longrightarrow> tk_tracepoint (kw_tasks (handle_process_mark b w) t) = b"
  using fold_process_mark [of w b "kw_live w"] by (simp_all add: handle_process_mark_def same_but_flags_def)

lemma locked_count: "kw_reg_count (ksu_mark_running_process_locked e w) = kw_reg_count w"
  using fold_mark_running [of w e "kw_live w"] by (simp add: ksu_mark_running_process_locked_def same_but_flags_def)

lemma regfunc_marks:
  assumes "marks_inv e n w"
  shows "marks_inv e (Suc n) (syscall_regfunc_handler e w)"
proof -
  have c: "kw_reg_count w = int n" using assms by (simp add: marks_inv_def)
  consider "n = 0" | "n = 1" | "n \<ge> 2" by linarith
  then show ?thesis
  proof cases
    case 1
    then show ?thesis
      using locked_marks [of "syscall_regfunc_handler e w" e w] c locked_count [of e w]
      by (simp add: syscall_regfunc_handler_def Let_def)
  next
    case 2
    then show ?thesis
      using c all_marks [where b = True and w = w] by (simp add: syscall_regfunc_handler_def Let_def marks_inv_def ksu_mark_all_process_def)
  next
    case 3
    then have "syscall_regfunc_handler e w = w\<lparr>kw_reg_count := int (Suc n)\<rparr>"
      using c by (simp add: syscall_regfunc_handler_def Let_def)
    then show ?thesis using 3 assms by (auto simp: marks_inv_def user_task_def)
  qed
qed

lemma unregfunc_marks:
  assumes "marks_inv e (Suc n) w"
  shows "marks_inv e n (syscall_unregfunc_handler e w)"
proof -
  have c: "kw_reg_count w = int n + 1" using assms by (simp add: marks_inv_def)
  let ?w = "w\<lparr>kw_reg_count := int n\<rparr>"
  consider "n = 0" | "n = 1" | "n \<ge> 2" by linarith
  then show ?thesis
  proof cases
    case 1
    then have "syscall_unregfunc_handler e w = handle_process_mark False ?w"
      using c by (simp add: syscall_unregfunc_handler_def Let_def ksu_unmark_all_process_def)
    then show ?thesis using 1 all_marks [where b = False and w = ?w] by (simp add: marks_inv_def)
  next
    case 2
    then have "syscall_unregfunc_handler e w = ksu_mark_running_process_locked e ?w"
      using c by (simp add: syscall_unregfunc_handler_def Let_def)
    moreover have "marks_inv e 1 (ksu_mark_running_process_locked e ?w)"
      using 2 locked_count [of e ?w] by (intro locked_marks [where w = ?w]) (simp_all add: reg_count_self)
    ultimately show ?thesis using 2 by simp
  next
    case 3
    then have "syscall_unregfunc_handler e w = ?w"
      using c by (simp add: syscall_unregfunc_handler_def Let_def)
    then show ?thesis using 3 assms by (auto simp: marks_inv_def user_task_def)
  qed
qed

lemma tp_run_marks: "marks_inv e n w \<Longrightarrow> balanced n evs = Some m \<Longrightarrow> marks_inv e m (tp_run e evs w)"
proof (induction n evs arbitrary: w rule: balanced.induct)
  case (2 n evs)
  then show ?case using regfunc_marks [OF 2(2)] by simp
next
  case (3 n evs)
  then obtain k where "n = Suc k" by (cases n) auto
  then show ?case using 3 unregfunc_marks [of e k w] by simp
qed simp

section \<open>Lemmas: umount\<close>

lemma fold_try_umount:
  "fold (\<lambda>(mnt, flags). try_umount e mnt flags) l w =
     w\<lparr>kw_unmounted := kw_unmounted w @ filter (\<lambda>(mnt, flags). ke_kern_path e mnt = 0 \<and> ke_mnt_root e mnt) l\<rparr>"
  by (induction l arbitrary: w) (auto simp: try_umount_def split: prod.split)

text \<open>The decision to unmount, over the abstract profile map.\<close>

definition profile_wants_umount :: "(u32 \<Rightarrow> nat) \<Rightarrow> allow_state \<Rightarrow> u32 \<Rightarrow> bool" where
  "profile_wants_umount hf s uid = (case al_abs hf s uid of
     None \<Rightarrow> al_default_umount s
   | Some a \<Rightarrow> \<not> ap_allow_su a \<and> (if ap_use_default a then al_default_umount s else nrp_umount_modules a))"

definition wants_umount :: "ksu_env \<Rightarrow> u32 \<Rightarrow> ksu_world \<Rightarrow> bool" where
  "wants_umount e uid w \<longleftrightarrow>
     kw_module_mounted w \<and> kw_umount_enabled w \<and>
     (is_appuid uid \<or> uid = WEBVIEW_ZYGOTE_UID \<or> is_isolated_process uid) \<and>
     is_zygote (ke_lsm e) (ke_sc e) (Some (current_cred w)) \<and>
     (is_isolated_process uid \<or>
      \<not> (ksu_is_manager_appid_valid (ke_cfg e) (kw_appid w) \<and>
         ksu_get_manager_appid (ke_cfg e) (kw_appid w) = uid mod PER_USER_RANGE) \<and>
      profile_wants_umount (ke_hf e) (kw_allow w) uid)"

definition env_ok :: "ksu_env \<Rightarrow> ksu_world \<Rightarrow> bool" where
  "env_ok e w \<longleftrightarrow> allow_inv (ke_cfg e) (ke_hf e) (kw_allow w) \<and> (\<forall>u. ke_hf e u < ALLOW_LIST_SIZE) \<and>
     \<not> cfg_disable_policy (ke_cfg e)"

lemma handle_umount_eq:
  assumes "env_ok e w"
  shows "ksu_handle_umount e uid w = Some (0,
    if wants_umount e uid w
    then w\<lparr>kw_unmounted := kw_unmounted w @ filter (\<lambda>(mnt, flags). ke_kern_path e mnt = 0 \<and> ke_mnt_root e mnt) (kw_mounts w)\<rparr>
    else w)"
proof -
  have inv: "allow_inv (ke_cfg e) (ke_hf e) (kw_allow w)" "ke_hf e uid < ALLOW_LIST_SIZE" "\<not> cfg_disable_policy (ke_cfg e)"
    using assms by (auto simp: env_ok_def)
  have self: "w\<lparr>kw_esc := (kw_esc w)\<lparr>xs_allow := kw_allow w\<rparr>\<rparr> = w" by (cases w; cases "kw_esc w") simp
  show ?thesis
    unfolding ksu_handle_umount_def should_umount_eq [OF inv, folded profile_wants_umount_def] wants_umount_def option.case prod.case Let_def self fold_try_umount
    by auto
qed

lemma env_ok_same: "same_but_flags w w' \<Longrightarrow> env_ok e w' = env_ok e w"
  by (simp add: env_ok_def same_but_flags_def)

lemma wants_umount_same: "same_but_flags w w' \<Longrightarrow> wants_umount e uid w' = wants_umount e uid w"
  using same_tasks(1) [of w w' "kw_current w"] by (simp add: wants_umount_def same_but_flags_def)

lemma env_ok_caches: "env_ok e (w\<lparr>kw_caches := k\<rparr>) = env_ok e w"
  by (simp add: env_ok_def)

lemma wants_umount_caches: "wants_umount e uid (w\<lparr>kw_caches := k\<rparr>) = wants_umount e uid w"
  by (simp add: wants_umount_def)

section \<open>Properties\<close>

text \<open>(C24) The marks follow the registrations of the syscall tracepoint: after any sequence of
  registrations and unregistrations in which nobody unregisters what was not registered, no user task
  is marked when nothing is registered, exactly the tasks the module wants to watch are marked when
  its own tracepoint is the only one, and all are marked when others use the tracepoint too.\<close>

theorem marks_follow_registrations:
  assumes "kw_reg_count w = 0" "\<forall>t\<in>set (kw_live w). \<not> tk_tracepoint (kw_tasks w t)" "balanced 0 evs = Some n"
  shows "\<forall>t\<in>set (kw_live (tp_run e evs w)). user_task (tp_run e evs w) t \<longrightarrow>
    tk_tracepoint (kw_tasks (tp_run e evs w) t) =
      (if n = 0 then False else if n = 1 then should_mark e (tp_run e evs w) t else True)"
proof -
  have "marks_inv e 0 w" using assms(1,2) by (simp add: marks_inv_def)
  from tp_run_marks [OF this assms(3)] show ?thesis by (simp add: marks_inv_def)
qed

text \<open>(C25) A task that changes its uid without becoming the manager is marked if its new uid is
  granted root, and otherwise keeps a mark only while somebody else traces too. The module's mounts are
  unmounted exactly when a module is mounted, the feature is on, the task is a child of zygote, and it
  is isolated or an app (or the webview zygote) whose profile asks for it; then the umount is asked for
  exactly the listed paths that are mount points, in order. Driver descriptors, allowlist and mount list
  are left alone.\<close>

theorem setresuid_umount:
  assumes "env_ok e w" "\<not> is_uid_manager (ke_cfg e) (kw_appid w) uid"
  shows "\<exists>w'. ksu_handle_setresuid e old uid w = Some (0, w') \<and>
    kw_unmounted w' = kw_unmounted w @
      (if wants_umount e uid w
       then filter (\<lambda>(mnt, flags). ke_kern_path e mnt = 0 \<and> ke_mnt_root e mnt) (kw_mounts w) else []) \<and>
    kw_fds w' = kw_fds w \<and> kw_allow w' = kw_allow w \<and> kw_mounts w' = kw_mounts w \<and>
    tk_tracepoint (kw_tasks w' (kw_current w)) =
      (ksu_is_allow_uid_for_current (ke_cfg e) (kw_appid w) (ke_allow_shell e) (ke_hf e) (kw_allow w)
         (ke_lsm e) (ke_sc e) (ke_adb_only e) (kw_tasks w) (kw_current w) uid \<or>
       kw_reg_count w > 1 \<and> tk_tracepoint (kw_tasks w (kw_current w)))"
proof -
  let ?al = "ksu_is_allow_uid_for_current (ke_cfg e) (kw_appid w) (ke_allow_shell e) (ke_hf e) (kw_allow w)
         (ke_lsm e) (ke_sc e) (ke_adb_only e) (kw_tasks w) (kw_current w) uid"
  let ?c = "if tk_seccomp_mode (kw_tasks w (kw_current w)) = SECCOMP_MODE_FILTER \<and> kw_caches w (kw_current w) \<noteq> None
            then allow_cache_current e w else w"
  let ?w1 = "if ?al then ksu_set_task_tracepoint_flag (kw_current w) ?c
             else ksu_clear_task_tracepoint_flag_if_needed (kw_current w) w"
  have ks: "\<exists>k. ?c = w\<lparr>kw_caches := k\<rparr>"
    by (cases "tk_seccomp_mode (kw_tasks w (kw_current w)) = SECCOMP_MODE_FILTER \<and> kw_caches w (kw_current w) \<noteq> None")
      (auto simp: allow_cache_current_def intro: exI [of _ "kw_caches w"])
  then obtain k where k: "?c = w\<lparr>kw_caches := k\<rparr>" by blast
  let ?w0 = "if ?al then w\<lparr>kw_caches := k\<rparr> else w"
  have sb: "same_but_flags ?w0 ?w1"
    unfolding k by (simp add: flag_same same_but_flags_refl ksu_clear_task_tracepoint_flag_if_needed_def)
  have "env_ok e ?w0" "wants_umount e uid ?w0 = wants_umount e uid w"
    using assms(1) by (simp_all add: env_ok_caches wants_umount_caches)
  then have env: "env_ok e ?w1" and wu: "wants_umount e uid ?w1 = wants_umount e uid w"
    using env_ok_same [OF sb] wants_umount_same [OF sb] by (simp_all only:)
  have w1: "kw_unmounted ?w1 = kw_unmounted w" "kw_mounts ?w1 = kw_mounts w" "kw_fds ?w1 = kw_fds w" "kw_allow ?w1 = kw_allow w"
    "tk_tracepoint (kw_tasks ?w1 (kw_current w)) = (?al \<or> kw_reg_count w > 1 \<and> tk_tracepoint (kw_tasks w (kw_current w)))"
    unfolding k
    by (auto simp: ksu_clear_task_tracepoint_flag_if_needed_def
        ksu_set_task_tracepoint_flag_def ksu_clear_task_tracepoint_flag_def upd_tasks_def set_task_def)
  have "ksu_handle_setresuid e old uid w = Some (0, if wants_umount e uid w
      then ?w1\<lparr>kw_unmounted := kw_unmounted ?w1 @ filter (\<lambda>(mnt, flags). ke_kern_path e mnt = 0 \<and> ke_mnt_root e mnt) (kw_mounts ?w1)\<rparr>
      else ?w1)"
    unfolding ksu_handle_setresuid_def if_not_P [OF assms(2)] Let_def handle_umount_eq [OF env] wu option.case prod.case ..
  moreover define v where "v = ?w1"
  moreover note w1 [folded v_def]
  ultimately show ?thesis by (cases "wants_umount e uid w") simp_all
qed

definition kenv0 :: ksu_env where
  "kenv0 = \<lparr>ke_cfg = cfg0, ke_allow_shell = False, ke_hf = hf0, ke_lsm = lsm0,
     ke_sc = \<lparr>cached_su_sid = 1, cached_zygote_sid = 2, cached_init_sid = 3, cached_adbd_sid = 4, ksu_file_sid = 5\<rparr>,
     ke_adb_only = False, ke_native_nr = 400, ke_compat_nr = 0, ke_reboot_nr = 142, ke_ctx_alloc = True, ke_unused_fd = 3,
     ke_anon_file = 0, ke_kern_path = (\<lambda>_. 0), ke_mnt_root = (\<lambda>p. p = chars ''/m'')\<rparr>"

definition kworld0 :: ksu_world where
  "kworld0 = \<lparr>kw_esc = esc0\<lparr>xs_tasks := (\<lambda>a. (xs_tasks esc0 a)\<lparr>tk_cred := (tk_cred (xs_tasks esc0 a))\<lparr>cr_tsec :=
       Some \<lparr>ts_sid = 2, ts_exec_sid = 0, ts_create_sid = 0, ts_keycreate_sid = 0, ts_sockcreate_sid = 0\<rparr>\<rparr>\<rparr>)\<rparr>, kw_live = [7], kw_reg_count = 0, kw_caches = (\<lambda>_. None),
     kw_mounts = [(chars ''/m'', 2), (chars ''/n'', 0)], kw_unmounted = [], kw_module_mounted = True,
     kw_umount_enabled = True, kw_appid = KSU_INVALID_APPID, kw_fds = []\<rparr>"

lemma env_ok0: "env_ok kenv0 kworld0"
  using st1_inv hf0_bound by (simp add: env_ok_def kenv0_def kworld0_def esc0_def cfg0_def)

theorem marks_follow_registrations_witness:
  "tk_tracepoint (kw_tasks (tp_run kenv0 [Reg, Reg] kworld0) 7) \<and> \<not> tk_tracepoint (kw_tasks kworld0 7)"
proof -
  have "7 \<in> set (kw_live (tp_run kenv0 [Reg, Reg] kworld0))" "user_task (tp_run kenv0 [Reg, Reg] kworld0) 7"
    by (simp_all add: kworld0_def syscall_regfunc_handler_def Let_def ksu_mark_running_process_locked_def mark_running_one_def
        should_mark_def ksu_mark_all_process_def handle_process_mark_def ksu_set_task_tracepoint_flag_def upd_tasks_def
        set_task_def user_task_def esc0_def task0_def)
  moreover have "\<not> tk_tracepoint (kw_tasks kworld0 7)" by (simp add: kworld0_def esc0_def task0_def)
  ultimately show ?thesis
    using marks_follow_registrations [of kworld0 "[Reg, Reg]" 2 kenv0] by (auto simp: kworld0_def)
qed

theorem setresuid_umount_witness:
  "\<exists>w'. ksu_handle_setresuid kenv0 0 99001 kworld0 = Some (0, w') \<and> kw_unmounted w' = [(chars ''/m'', 2)]"
proof -
  have "\<not> is_uid_manager (ke_cfg kenv0) (kw_appid kworld0) 99001"
    by (simp add: kenv0_def kworld0_def cfg0_def is_uid_manager_def)
  moreover have "wants_umount kenv0 99001 kworld0"
    by (simp add: wants_umount_def kworld0_def kenv0_def is_isolated_process_def is_zygote_def is_sid_match_def esc0_def task0_def)
  moreover have "filter (\<lambda>(mnt, flags). ke_kern_path kenv0 mnt = 0 \<and> ke_mnt_root kenv0 mnt) (kw_mounts kworld0) = [(chars ''/m'', 2)]"
    "kw_unmounted kworld0 = []"
    by (simp_all add: kworld0_def kenv0_def chars_def)
  ultimately show ?thesis
    using setresuid_umount [OF env_ok0, of 99001 0] by auto
qed

end
