(* ===== verification/KSU_Sucompat.thy ===== *)
theory KSU_Sucompat
  imports KSU_Mark KSU_Sulog
begin

text \<open>
  Running \<open>su\<close> (\<open>feature/sucompat.c\<close>, with the stat and access hooks of
  \<open>hook/syscall_event_bridge.c\<close>) and adb as root (\<open>feature/adb_root.c\<close>).

  The five syscall arguments are \<open>uregs\<close>. A string in user memory is a \<open>ustring\<close>: the bytes before its
  NUL or before the address that cannot be read, whether it ends in such an address, and how much of it
  a failing copy leaves behind. \<open>su_env\<close> is what the kernel answers: whether \<open>ksud\<close> is there, the
  addresses of the two stack buffers, the temporary descriptor and the result of opening \<open>ksud\<close>. The
  original syscalls are the parameter \<open>sys\<close>, called with a number, whether the module's credentials are
  in force, and the registers. Where an operation returns an option, nothing means that it stored
  outside a buffer or did not return.
\<close>

section \<open>Strings in user memory\<close>

record ustring =
  us_str :: bytes
  us_fault :: bool
  us_partial :: nat

text \<open>The result and the bytes stored, without a terminating NUL.\<close>

definition strncpy_from_user :: "ustring \<Rightarrow> nat \<Rightarrow> int \<times> bytes" where
  "strncpy_from_user u n =
     (let s = cstr (us_str u) in
      if n \<le> length s then (int n, take n s)
      else if us_fault u then (- EFAULT, take (us_partial u) s)
      else (int (length s), s))"

definition strncpy_from_user_nofault :: "ustring \<Rightarrow> nat \<Rightarrow> int \<times> bytes" where
  "strncpy_from_user_nofault u n =
     (case strncpy_from_user u n of (ret, bs) \<Rightarrow>
        if ret \<ge> int n then (int n, take (n - 1) bs) else if ret \<ge> 0 then (ret + 1, bs) else (ret, bs))"

definition zeroed :: "nat \<Rightarrow> bytes \<Rightarrow> bytes" where
  "zeroed n bs = bs @ replicate (n - length bs) 0"

fun strstr0 :: "bytes \<Rightarrow> bytes \<Rightarrow> bool" where
  "strstr0 [] needle = (needle = [])"
| "strstr0 (c # hay) needle = (take (length needle) (c # hay) = needle \<or> strstr0 hay needle)"

section \<open>State\<close>

definition SU_PATH :: bytes where "SU_PATH = chars ''/system/bin/su''"
definition KSUD_PATH :: bytes where "KSUD_PATH = chars ''/data/adb/ksud''"

record uregs =
  ur_p1 :: u64
  ur_p2 :: u64
  ur_p3 :: u64
  ur_p4 :: u64
  ur_p5 :: u64

record log_env =
  lg_user :: uenv
  lg_task :: task_info
  lg_alloc1 :: bool
  lg_alloc2 :: bool
  lg_push_alloc :: bool
  lg_now :: u64
  lg_now_sec :: u64

record su_env =
  se_env :: ksu_env
  se_esc :: esc_env
  se_ns :: ns_env
  se_log :: log_env
  se_ustr :: "u64 \<Rightarrow> ustring"
  se_untagged :: "u64 \<Rightarrow> u64"
  se_ksu_uid :: u32
  se_ksud_exists :: bool
  se_ksud_ptr :: u64
  se_empty_ptr :: u64
  se_tmp_fd :: int
  se_open_ksud :: int
  se_execveat_nr :: int

record su_world =
  sw_ksu :: ksu_world
  sw_log :: sulog_state
  sw_su_compat :: bool
  sw_adb_root :: bool
  sw_tmp_fds :: "int list"

type_synonym sys_fn = "int \<Rightarrow> bool \<Rightarrow> uregs \<Rightarrow> su_world \<Rightarrow> int \<times> su_world"

section \<open>The feature switches\<close>

definition su_compat_feature_get :: "su_world \<Rightarrow> u64 \<Rightarrow> int \<times> u64" where
  "su_compat_feature_get w _ = (0, if sw_su_compat w then 1 else 0)"

definition su_compat_feature_set :: "u64 \<Rightarrow> su_world \<Rightarrow> int \<times> su_world" where
  "su_compat_feature_set value w = (0, w\<lparr>sw_su_compat := (value \<noteq> 0)\<rparr>)"

definition su_compat_handler :: "su_world feature_handler" where
  "su_compat_handler = \<lparr>fh_id = KSU_FEATURE_SU_COMPAT, fh_name = Some (chars ''su_compat''),
     fh_get = Some su_compat_feature_get, fh_set = Some su_compat_feature_set\<rparr>"

definition kernel_adb_root_feature_get :: "su_world \<Rightarrow> u64 \<Rightarrow> int \<times> u64" where
  "kernel_adb_root_feature_get w _ = (0, if sw_adb_root w then 1 else 0)"

definition kernel_adb_root_feature_set :: "u64 \<Rightarrow> su_world \<Rightarrow> int \<times> su_world" where
  "kernel_adb_root_feature_set value w = (0, w\<lparr>sw_adb_root := (value \<noteq> 0)\<rparr>)"

definition ksu_adb_root_handler :: "su_world feature_handler" where
  "ksu_adb_root_handler = \<lparr>fh_id = KSU_FEATURE_ADB_ROOT, fh_name = Some (chars ''adb_root''),
     fh_get = Some kernel_adb_root_feature_get, fh_set = Some kernel_adb_root_feature_set\<rparr>"

definition kernel_umount_feature_get :: "su_world \<Rightarrow> u64 \<Rightarrow> int \<times> u64" where
  "kernel_umount_feature_get w _ = (0, if kw_umount_enabled (sw_ksu w) then 1 else 0)"

definition kernel_umount_feature_set :: "u64 \<Rightarrow> su_world \<Rightarrow> int \<times> su_world" where
  "kernel_umount_feature_set value w = (0, w\<lparr>sw_ksu := (sw_ksu w)\<lparr>kw_umount_enabled := (value \<noteq> 0)\<rparr>\<rparr>)"

definition kernel_umount_handler :: "su_world feature_handler" where
  "kernel_umount_handler = \<lparr>fh_id = KSU_FEATURE_KERNEL_UMOUNT, fh_name = Some (chars ''kernel_umount''),
     fh_get = Some kernel_umount_feature_get, fh_set = Some kernel_umount_feature_set\<rparr>"

section \<open>Hiding su from stat and access\<close>

definition allowed_current :: "ksu_env \<Rightarrow> ksu_world \<Rightarrow> bool" where
  "allowed_current e w = ksu_is_allow_uid_for_current (ke_cfg e) (kw_appid w) (ke_allow_shell e) (ke_hf e) (kw_allow w)
     (ke_lsm e) (ke_sc e) (ke_adb_only e) (kw_tasks w) (kw_current w) (cr_uid (current_cred w))"

text \<open>\<open>ksu_compat_sulog\<close> takes the uid of the credentials in force.\<close>

definition compat_log :: "su_env \<Rightarrow> u32 \<Rightarrow> u8 \<Rightarrow> su_world \<Rightarrow> su_world" where
  "compat_log e uid symb w = w\<lparr>sw_log := ksu_compat_sulog uid (lg_now_sec (se_log e)) symb (sw_log w)\<rparr>"

text \<open>The comparison of the path buffer, one byte longer than the string with its NUL, with the path of su.\<close>

definition is_su_path :: "bytes \<Rightarrow> bool" where
  "is_su_path copied = (take (length SU_PATH + 1) (zeroed (length SU_PATH + 2) copied) = SU_PATH @ [0])"

text \<open>The result, the registers afterwards and the state.\<close>

definition ksu_handle_faccessat_sucompat ::
  "su_env \<Rightarrow> sys_fn \<Rightarrow> int \<Rightarrow> uregs \<Rightarrow> su_world \<Rightarrow> int \<times> uregs \<times> su_world" where
  "ksu_handle_faccessat_sucompat e sys orig_nr r w =
     (let orig = (case sys orig_nr False r w of (ret, w1) \<Rightarrow> (ret, r, w1)) in
      if \<not> allowed_current (se_env e) (sw_ksu w) then orig
      else if is_su_path (snd (strncpy_from_user_nofault (se_ustr e (ur_p2 r)) (length SU_PATH + 2))) then
        if se_ksud_exists e then
          let orig_filename = ur_p2 r; r1 = r\<lparr>ur_p2 := se_ksud_ptr e\<rparr> in
          (case sys orig_nr True r1 (compat_log e (se_ksu_uid e) 97 w) of (ret, w1) \<Rightarrow> (ret, r1\<lparr>ur_p2 := orig_filename\<rparr>, w1))
        else orig
      else orig)"

definition ksu_handle_stat_sucompat ::
  "su_env \<Rightarrow> sys_fn \<Rightarrow> int \<Rightarrow> uregs \<Rightarrow> su_world \<Rightarrow> int \<times> uregs \<times> su_world" where
  "ksu_handle_stat_sucompat e sys orig_nr r w =
     (let orig = (case sys orig_nr False r w of (ret, w1) \<Rightarrow> (ret, r, w1)) in
      if \<not> allowed_current (se_env e) (sw_ksu w) then orig
      else if is_su_path (snd (strncpy_from_user_nofault (se_ustr e (ur_p2 r)) (length SU_PATH + 2))) then
        if se_ksud_exists e then
          let orig_filename = ur_p2 r; r1 = r\<lparr>ur_p2 := se_ksud_ptr e\<rparr> in
          (case sys orig_nr True r1 (compat_log e (se_ksu_uid e) 115 w) of (ret, w1) \<Rightarrow> (ret, r1\<lparr>ur_p2 := orig_filename\<rparr>, w1))
        else orig
      else orig)"

definition ksu_hook_newfstatat ::
  "su_env \<Rightarrow> sys_fn \<Rightarrow> int \<Rightarrow> uregs \<Rightarrow> su_world \<Rightarrow> int \<times> uregs \<times> su_world" where
  "ksu_hook_newfstatat e sys orig_nr r w =
     (if \<not> sw_su_compat w then (case sys orig_nr False r w of (ret, w1) \<Rightarrow> (ret, r, w1))
      else ksu_handle_stat_sucompat e sys orig_nr r w)"

definition ksu_hook_faccessat ::
  "su_env \<Rightarrow> sys_fn \<Rightarrow> int \<Rightarrow> uregs \<Rightarrow> su_world \<Rightarrow> int \<times> uregs \<times> su_world" where
  "ksu_hook_faccessat e sys orig_nr r w =
     (if \<not> sw_su_compat w then (case sys orig_nr False r w of (ret, w1) \<Rightarrow> (ret, r, w1))
      else ksu_handle_faccessat_sucompat e sys orig_nr r w)"

section \<open>Running su\<close>

abbreviation AT_FDCWD :: int where "AT_FDCWD \<equiv> - 100"
abbreviation AT_EMPTY_PATH :: u64 where "AT_EMPTY_PATH \<equiv> 0x1000"

definition int_of_arg :: "u64 \<Rightarrow> int" where
  "int_of_arg x = sint (ucast x :: u32)"

text \<open>From the point where \<open>su\<close> was recognised and \<open>ksud\<close> is open on the temporary descriptor.\<close>

definition run_ksud ::
  "su_env \<Rightarrow> sys_fn \<Rightarrow> u64 \<Rightarrow> u64 \<Rightarrow> u64 \<Rightarrow> uregs \<Rightarrow> su_world \<Rightarrow> (int \<times> uregs \<times> su_world) option" where
  "run_ksud e sys filename argv_user envp r w =
     (let lg = se_log e; k = se_env e in
      case ksu_sulog_capture_sucompat (lg_user lg) (lg_task lg) (lg_alloc1 lg) (lg_alloc2 lg)
             (Some (unat filename)) (argv_user \<noteq> 0) (sw_log w) of
        None \<Rightarrow> None
      | Some (pending, log1) \<Rightarrow>
          let r1 = r\<lparr>ur_p5 := AT_EMPTY_PATH, ur_p4 := envp, ur_p3 := argv_user, ur_p2 := se_empty_ptr e,
                     ur_p1 := word_of_int (se_tmp_fd e)\<rparr> in
          (case escape_with_root_profile (ke_cfg k) (kw_appid (sw_ksu w)) (ke_allow_shell k) (ke_hf k)
                  (se_esc e) (se_ns e) (ke_lsm k) (kw_esc (sw_ksu w)) of
             None \<Rightarrow> None
           | Some (ret, es) \<Rightarrow>
               let w1 = w\<lparr>sw_ksu := (sw_ksu w)\<lparr>kw_esc := es\<rparr>,
                          sw_log := ksu_sulog_emit_pending (lg_push_alloc lg) (lg_now lg) pending ret log1\<rparr> in
               (case sys (se_execveat_nr e) False r1 w1 of (ret, w2) \<Rightarrow>
                  if ret < 0
                  then Some (ret, r1\<lparr>ur_p1 := ur_p1 r, ur_p2 := ur_p2 r, ur_p3 := ur_p3 r, ur_p4 := ur_p4 r, ur_p5 := ur_p5 r\<rparr>,
                         w2\<lparr>sw_tmp_fds := removeAll (se_tmp_fd e) (sw_tmp_fds w2)\<rparr>)
                  else Some (ret, r1, w2\<lparr>sw_ksu := snd (ksu_install_su_fd k (sw_ksu w2))\<rparr>))))"

text \<open>\<open>filename\<close> is the address of the argument that names the file; it is never NULL in the callers.\<close>

definition ksu_handle_execve_sucompat_common ::
  "su_env \<Rightarrow> sys_fn \<Rightarrow> u64 \<Rightarrow> u64 \<Rightarrow> u64 \<Rightarrow> bool \<Rightarrow> int \<Rightarrow> uregs \<Rightarrow> su_world \<Rightarrow> (int \<times> uregs \<times> su_world) option" where
  "ksu_handle_execve_sucompat_common e sys filename argv_user envp execveat orig_nr r w =
     (let orig = (\<lambda>w. case sys orig_nr False r w of (ret, w1) \<Rightarrow> Some (ret, r, w1)) in
      if execveat \<and> (int_of_arg (ur_p1 r) \<noteq> AT_FDCWD \<or> int_of_arg (ur_p5 r) \<noteq> 0) then orig w
      else if \<not> allowed_current (se_env e) (sw_ksu w) then orig w
      else (case strncpy_from_user (se_ustr e (se_untagged e filename)) (length SU_PATH + 2) of (n, path) \<Rightarrow>
        if n < 0 then orig w
        else if \<not> is_su_path path then orig w
        else let w1 = compat_log e (cr_uid (current_cred (sw_ksu w))) 120 w in
        if se_tmp_fd e < 0 then orig w1
        else if se_open_ksud e < 0 then orig w1
        else run_ksud e sys filename argv_user envp r (w1\<lparr>sw_tmp_fds := se_tmp_fd e # sw_tmp_fds w1\<rparr>)))"

definition ksu_handle_execve_sucompat ::
  "su_env \<Rightarrow> sys_fn \<Rightarrow> int \<Rightarrow> uregs \<Rightarrow> su_world \<Rightarrow> (int \<times> uregs \<times> su_world) option" where
  "ksu_handle_execve_sucompat e sys orig_nr r w =
     ksu_handle_execve_sucompat_common e sys (ur_p1 r) (ur_p2 r) (ur_p3 r) False orig_nr r w"

definition ksu_handle_execveat_sucompat ::
  "su_env \<Rightarrow> sys_fn \<Rightarrow> int \<Rightarrow> uregs \<Rightarrow> su_world \<Rightarrow> (int \<times> uregs \<times> su_world) option" where
  "ksu_handle_execveat_sucompat e sys orig_nr r w =
     ksu_handle_execve_sucompat_common e sys (ur_p2 r) (ur_p3 r) (ur_p4 r) True orig_nr r w"

section \<open>adb as root\<close>

text \<open>What user memory answers to the environment rewrite: the words of the array at \<open>envp\<close>, the number
  of its bytes that can be read, and which addresses can be written.\<close>

record adb_env =
  ad_kern_path :: int
  ad_stack :: u64
  ad_words :: "nat \<Rightarrow> u64"
  ad_avail :: nat
  ad_alloc :: "nat \<Rightarrow> bool"
  ad_write :: "u64 \<Rightarrow> nat \<Rightarrow> bool"
  ad_prepare :: bool

definition is_exec_adbd :: "ustring \<Rightarrow> int" where
  "is_exec_adbd fn =
     (case strncpy_from_user fn 40 of (ret, bs) \<Rightarrow>
        if ret < 0 then ret
        else if ret < 5 \<or> ret \<ge> 40 \<or> take 6 (drop (nat ret - 5) (zeroed 40 bs)) \<noteq> chars ''/adbd'' @ [0] then 0 else 1)"

definition is_libadbroot_ok :: "adb_env \<Rightarrow> int" where
  "is_libadbroot_ok a =
     (if ad_kern_path a < 0 then (if ad_kern_path a = - ENOENT then 0 else ad_kern_path a) else 1)"

abbreviation kReadEnvBatch :: nat where "kReadEnvBatch \<equiv> 16"
abbreviation kPtrSize :: nat where "kPtrSize \<equiv> 8"

text \<open>The loop that reads the array in batches: an error, or the number of entries and the number of
  words allocated for the copy.\<close>

function env_loop :: "adb_env \<Rightarrow> nat \<Rightarrow> int + (nat \<times> nat)" where
  "env_loop a env_count =
     (if \<not> ad_alloc a env_count then Inl (- ENOMEM)
      else
        let read_count = min (kReadEnvBatch * kPtrSize) (ad_avail a - env_count * kPtrSize);
            max_new_env_count = read_count div kPtrSize;
            new_env_count = length (takeWhile (\<lambda>i. ad_words a i \<noteq> 0) [env_count..<env_count + max_new_env_count])
        in if new_env_count < max_new_env_count
           then Inr (env_count + new_env_count, env_count + kReadEnvBatch + 2)
           else if read_count mod kPtrSize \<noteq> 0 then Inl (- EFAULT)
           else if read_count \<noteq> kReadEnvBatch * kPtrSize then Inl (- EFAULT)
           else env_loop a (env_count + new_env_count))"
  by pat_completeness auto
termination
  by (relation "measure (\<lambda>(a, n). ad_avail a - n * kPtrSize)")
     (auto simp: Let_def min_def split: if_splits)

declare env_loop.simps [simp del]

definition ALIGN_DOWN8 :: "u64 \<Rightarrow> u64" where
  "ALIGN_DOWN8 x = x AND NOT 7"

definition kLdPreload :: bytes where "kLdPreload = chars ''LD_PRELOAD=/data/adb/ksu/lib/libadbroot.so'' @ [0]"
definition kLdLibraryPath :: bytes where "kLdLibraryPath = chars ''LD_LIBRARY_PATH=/data/adb/ksu/lib'' @ [0]"

text \<open>A failing result, or the address and the words of the new environment array. The words are stored
  into the copy one after the other; storing past its end has no result.\<close>

definition store_env :: "adb_env \<Rightarrow> nat \<Rightarrow> nat \<Rightarrow> u64 \<Rightarrow> u64 \<Rightarrow> u64 list option" where
  "store_env a env_count allocated ld_preload_p ld_library_path_p =
     (if env_count + 3 \<le> allocated
      then Some (map (ad_words a) [0..<env_count] @ [ld_preload_p, ld_library_path_p, 0]) else None)"

definition setup_ld_preload :: "adb_env \<Rightarrow> (int + (u64 \<times> u64 list)) option" where
  "setup_ld_preload a =
     (let p1 = ALIGN_DOWN8 (ad_stack a - of_nat (length kLdPreload)) in
      if \<not> ad_write a p1 (length kLdPreload) then Some (Inl (- EFAULT))
      else
        let p2 = ALIGN_DOWN8 (p1 - of_nat (length kLdLibraryPath)) in
        if \<not> ad_write a p2 (length kLdLibraryPath) then Some (Inl (- EFAULT))
        else (case env_loop a 0 of
           Inl err \<Rightarrow> Some (Inl err)
         | Inr (env_count, allocated) \<Rightarrow>
             (case store_env a env_count allocated p1 p2 of
                None \<Rightarrow> None
              | Some env \<Rightarrow>
                  let stackp = p2 - of_nat (length env * kPtrSize) in
                  if \<not> ad_write a stackp (length env * kPtrSize) then Some (Inl (- EFAULT)) else Some (Inr (stackp, env)))))"

text \<open>The result, the new environment address if it changed, and the state; \<open>prepare_creds\<close> copies the
  current credentials.\<close>

definition set_current_cred :: "cred option \<Rightarrow> ksu_world \<Rightarrow> ksu_world" where
  "set_current_cred committed w = (case committed of
     None \<Rightarrow> w
   | Some c \<Rightarrow> upd_tasks (set_task (kw_current w) (\<lambda>x. x\<lparr>tk_cred := c\<rparr>)) w)"

definition do_ksu_adb_root_handle_execve ::
  "adb_env \<Rightarrow> lsm \<Rightarrow> ustring \<Rightarrow> ksu_world \<Rightarrow> (int \<times> u64 option \<times> ksu_world) option" where
  "do_ksu_adb_root_handle_execve a l filename w =
     (if is_exec_adbd filename \<noteq> 1 then Some (0, None, w)
      else if is_libadbroot_ok a \<noteq> 1 then Some (0, None, w)
      else (case setup_ld_preload a of
         None \<Rightarrow> None
       | Some (Inl err) \<Rightarrow> Some (err, None, w)
       | Some (Inr (stackp, env)) \<Rightarrow>
           Some (0, Some stackp, set_current_cred (escape_to_root_for_adb_root l
             (if ad_prepare a then Some (current_cred w) else None)) w)))"

definition ksu_adb_root_handle_execve ::
  "bool \<Rightarrow> su_env \<Rightarrow> adb_env \<Rightarrow> uregs \<Rightarrow> ksu_world \<Rightarrow> (int \<times> uregs \<times> ksu_world) option" where
  "ksu_adb_root_handle_execve ksu_adb_root e a r w =
     (if ksu_adb_root
      then map_option (\<lambda>(ret, envp, w1). (ret, (case envp of None \<Rightarrow> r | Some p \<Rightarrow> r\<lparr>ur_p3 := p\<rparr>), w1))
        (do_ksu_adb_root_handle_execve a (ke_lsm (se_env e)) (se_ustr e (se_untagged e (ur_p1 r))) w)
      else Some (0, r, w))"

definition ksu_adb_root_handle_execveat ::
  "bool \<Rightarrow> su_env \<Rightarrow> adb_env \<Rightarrow> uregs \<Rightarrow> ksu_world \<Rightarrow> (int \<times> uregs \<times> ksu_world) option" where
  "ksu_adb_root_handle_execveat ksu_adb_root e a r w =
     (if ksu_adb_root
      then map_option (\<lambda>(ret, envp, w1). (ret, (case envp of None \<Rightarrow> r | Some p \<Rightarrow> r\<lparr>ur_p4 := p\<rparr>), w1))
        (do_ksu_adb_root_handle_execve a (ke_lsm (se_env e)) (se_ustr e (se_untagged e (ur_p2 r))) w)
      else Some (0, r, w))"

section \<open>What init executes\<close>

text \<open>The path buffer is not cleared, but a successful copy terminates the string or fills the buffer,
  whose last byte is then overwritten.\<close>

definition ksu_handle_init_mark_tracker :: "lsm \<Rightarrow> bool \<Rightarrow> ustring \<Rightarrow> ksu_world \<Rightarrow> int \<times> ksu_world" where
  "ksu_handle_init_mark_tracker l prepare filename w =
     (case strncpy_from_user filename 64 of (ret, bs) \<Rightarrow>
        if ret < 0 then (0, w)
        else let path = take 63 bs in
          if path = KSUD_PATH
          then (0, set_current_cred (escape_to_root_for_init l (if prepare then Some (current_cred w) else None)) w)
          else if \<not> strstr0 path (chars ''/app_process'') \<and> \<not> strstr0 path (chars ''/adbd'') \<and>
             \<not> strstr0 path (chars ''/stub_zygote'')
          then (0, ksu_clear_task_tracepoint_flag_if_needed (kw_current w) w)
          else (0, w))"

section \<open>Lemmas: paths\<close>

lemma su_path_nonzero: "0 \<notin> set SU_PATH"
  by (simp add: SU_PATH_def chars_def)

lemma take_eq_snoc_zero:
  assumes "0 \<notin> set p" "0 \<notin> set c"
  shows "take (Suc (length p)) (c @ replicate m 0) = p @ [0] \<longleftrightarrow> c = p \<and> 0 < m"
  using assms
proof (induction p arbitrary: c)
  case Nil
  then show ?case by (cases c; cases m) auto
next
  case (Cons a p)
  then show ?case by (cases c; cases m) auto
qed

lemma is_su_path_iff:
  assumes "0 \<notin> set c"
  shows "is_su_path c \<longleftrightarrow> c = SU_PATH"
proof -
  have "is_su_path c \<longleftrightarrow> c = SU_PATH \<and> 0 < length SU_PATH + 2 - length c"
    unfolding is_su_path_def zeroed_def Suc_eq_plus1 [symmetric]
    by (rule take_eq_snoc_zero [OF su_path_nonzero assms])
  then show ?thesis by auto
qed

lemma strncpy_nonzero: "0 \<notin> set (snd (strncpy_from_user u n))"
  using cstr_nonzero [of "us_str u"] by (auto simp: strncpy_from_user_def Let_def dest: in_set_takeD)

lemma take_longer: "n \<le> length s \<Longrightarrow> length p < n \<Longrightarrow> take n s \<noteq> p"
  by auto

text \<open>The execve hooks recognise exactly the readable strings that are the path of su.\<close>

lemma su_string_iff:
  "0 \<le> fst (strncpy_from_user u (length SU_PATH + 2)) \<and> is_su_path (snd (strncpy_from_user u (length SU_PATH + 2))) \<longleftrightarrow>
   \<not> us_fault u \<and> cstr (us_str u) = SU_PATH"
  unfolding is_su_path_iff [OF strncpy_nonzero]
  using take_longer [of "length SU_PATH + 2" "cstr (us_str u)" SU_PATH]
  by (auto simp: strncpy_from_user_def Let_def)

section \<open>Lemmas: the environment array\<close>

text \<open>The number of entries of the array, where it ends within what can be read.\<close>

definition env_length :: "adb_env \<Rightarrow> nat \<Rightarrow> bool" where
  "env_length a n \<longleftrightarrow> (n + 1) * kPtrSize \<le> ad_avail a \<and> ad_words a n = 0 \<and> (\<forall>i<n. ad_words a i \<noteq> 0)"

lemma takeWhile_upt_less:
  assumes "length (takeWhile P [i..<j]) < j - i"
  shows "\<not> P (i + length (takeWhile P [i..<j]))" "\<forall>k. i \<le> k \<and> k < i + length (takeWhile P [i..<j]) \<longrightarrow> P k"
proof -
  let ?n = "length (takeWhile P [i..<j])"
  show "\<not> P (i + ?n)" using nth_length_takeWhile [of P "[i..<j]"] assms by simp
  show "\<forall>k. i \<le> k \<and> k < i + ?n \<longrightarrow> P k"
  proof (intro allI impI)
    fix k assume k: "i \<le> k \<and> k < i + ?n"
    then have l: "k - i < ?n" by linarith
    have "takeWhile P [i..<j] ! (k - i) = [i..<j] ! (k - i)" by (rule takeWhile_nth [OF l])
    moreover have "i + (k - i) < j" "i + (k - i) = k" using k assms by linarith+
    ultimately have "takeWhile P [i..<j] ! (k - i) = k" by (simp only: nth_upt)
    moreover have "P (takeWhile P [i..<j] ! (k - i))" using nth_mem [OF l] by (rule set_takeWhileD [THEN conjunct2])
    ultimately show "P k" by simp
  qed
qed

lemma takeWhile_upt_full:
  assumes "\<not> length (takeWhile P [i..<j]) < j - i"
  shows "\<forall>k. i \<le> k \<and> k < j \<longrightarrow> P k"
proof -
  have "length (takeWhile P [i..<j]) = length [i..<j]"
    using assms length_takeWhile_le [of P "[i..<j]"] by simp
  then have "takeWhile P [i..<j] = [i..<j]" by (metis takeWhile_eq_take take_all_iff order_refl)
  then show ?thesis by (auto simp: takeWhile_eq_all_conv)
qed

lemma env_loop_spec:
  assumes "\<forall>i<n. ad_words a i \<noteq> 0"
  shows "(\<forall>k m. env_loop a n = Inr (k, m) \<longrightarrow> env_length a k \<and> k + 3 \<le> m) \<and>
    (\<forall>err. env_loop a n = Inl err \<longrightarrow> err = - ENOMEM \<and> (\<exists>j. \<not> ad_alloc a j) \<or> err = - EFAULT \<and> (\<forall>k. \<not> env_length a k))"
  using assms
proof (induction a n rule: env_loop.induct)
  case (1 a n)
  define rc where "rc = min (kReadEnvBatch * kPtrSize) (ad_avail a - n * kPtrSize)"
  define mx where "mx = rc div kPtrSize"
  define nw where "nw = length (takeWhile (\<lambda>i. ad_words a i \<noteq> 0) [n..<n + mx])"
  have step: "env_loop a n = (if \<not> ad_alloc a n then Inl (- ENOMEM) else if nw < mx then Inr (n + nw, n + kReadEnvBatch + 2)
      else if rc mod kPtrSize \<noteq> 0 then Inl (- EFAULT) else if rc \<noteq> kReadEnvBatch * kPtrSize then Inl (- EFAULT)
      else env_loop a (n + nw))"
    by (subst env_loop.simps) (simp only: Let_def nw_def mx_def rc_def)
  have rc: "rc \<le> 128" "n * 8 + rc \<le> ad_avail a \<or> rc = 0" "rc < 128 \<Longrightarrow> ad_avail a \<le> n * 8 + rc" by (auto simp: rc_def)
  have all: "\<forall>i<n + mx. ad_words a i \<noteq> 0" if "\<not> nw < mx"
  proof (intro allI impI)
    fix i assume i: "i < n + mx"
    have "\<forall>k. n \<le> k \<and> k < n + mx \<longrightarrow> ad_words a k \<noteq> 0"
      by (rule takeWhile_upt_full) (use that in \<open>simp only: nw_def add_diff_cancel_left' not_False_eq_True\<close>)
    then show "ad_words a i \<noteq> 0" using 1(2) i by (cases "i < n") simp_all
  qed
  have none: "\<not> env_length a k" if "\<not> nw < mx" "rc < 128" for k
  proof (cases "k < n + mx")
    case True
    then show ?thesis using all [OF that(1)] by (simp add: env_length_def)
  next
    case False
    then have "n * 8 + rc < (k + 1) * 8" unfolding mx_def by simp
    then show ?thesis using rc(3) [OF that(2)] by (simp add: env_length_def)
  qed
  consider "\<not> ad_alloc a n" | "ad_alloc a n" "nw < mx" | "ad_alloc a n" "\<not> nw < mx" "rc < 128" | "ad_alloc a n" "\<not> nw < mx" "rc = 128"
    using rc(1) by linarith
  then show ?case
  proof cases
    case 2
    have lt: "length (takeWhile (\<lambda>i. ad_words a i \<noteq> 0) [n..<n + mx]) < n + mx - n" using 2(2) by (simp only: nw_def add_diff_cancel_left')
    have "ad_words a (n + nw) = 0" "\<forall>k. n \<le> k \<and> k < n + nw \<longrightarrow> ad_words a k \<noteq> 0"
      using takeWhile_upt_less [OF lt] by (simp_all only: nw_def not_not)
    moreover have "(n + nw + 1) * 8 \<le> ad_avail a" using 2(2) rc(2) unfolding mx_def by auto
    ultimately have "env_length a (n + nw)" using 1(2) unfolding env_length_def by (meson not_le)
    moreover have "mx \<le> 16" using rc(1) by (simp add: mx_def)
    ultimately show ?thesis using 2 by (simp add: step)
  next
    case 3
    then show ?thesis using none [OF 3(2,3)] by (simp add: step)
  next
    case 4
    have mx: "mx = 16" using 4(3) by (simp add: mx_def)
    have "length (takeWhile (\<lambda>i. ad_words a i \<noteq> 0) [n..<n + mx]) \<le> mx"
      by (rule order.trans [OF length_takeWhile_le]) simp
    then have "nw = mx" using 4(2) by (simp add: nw_def)
    then have "\<forall>i<n + nw. ad_words a i \<noteq> 0" using all [OF 4(2)] by simp
    moreover have "env_loop a n = env_loop a (n + nw)" using 4 by (simp add: step)
    ultimately show ?thesis using 1(1) [OF _ rc_def mx_def nw_def] 4 by simp
  qed (auto simp: step)
qed


lemma ALIGN_DOWN8_eq: "ALIGN_DOWN8 x = x div 8 * 8"
proof -
  have "x AND NOT (mask 3) = push_bit 3 (drop_bit 3 x)"
    by (rule bit_word_eqI) (auto simp: bit_simps)
  then show ?thesis by (simp add: ALIGN_DOWN8_def mask_eq_exp_minus_1 push_bit_eq_mult drop_bit_eq_div)
qed

lemma unat_u64: "unat (x :: u64) < 2 ^ 64"
proof -
  have "unat x < 2 ^ LENGTH(64)" by (rule unsigned_less)
  then show ?thesis by simp
qed

lemma unat_of_nat_u64: "n < 2 ^ 64 \<Longrightarrow> unat (of_nat n :: u64) = n"
  by (simp add: unat_of_nat)

lemma unat_ALIGN_DOWN8: "unat (ALIGN_DOWN8 x) = unat x div 8 * 8"
proof -
  have "unat x < 2 ^ 64" by (rule unat_u64)
  moreover have "unat x div 8 * 8 \<le> unat x" by (rule div_times_less_eq_dividend)
  ultimately have "unat x div 8 * 8 < 2 ^ 64" by linarith
  then show ?thesis by (simp add: ALIGN_DOWN8_eq unat_mult_lem [THEN iffD1] unat_div)
qed

text \<open>A block of \<open>n\<close> bytes is put below an address and aligned.\<close>

lemma align_below:
  fixes x :: u64
  assumes "n + 8 \<le> unat x" "n < 2 ^ 32"
  shows "unat (ALIGN_DOWN8 (x - of_nat n)) + n \<le> unat x" "unat x \<le> unat (ALIGN_DOWN8 (x - of_nat n)) + n + 7"
    "8 dvd unat (ALIGN_DOWN8 (x - of_nat n))"
proof -
  have n: "unat (of_nat n :: u64) = n" using assms(2) by (simp add: unat_of_nat)
  then have "(of_nat n :: u64) \<le> x" using assms(1) by (simp add: word_le_nat_alt)
  then have "unat (x - of_nat n) = unat x - n" by (simp add: unat_sub n)
  then show "unat (ALIGN_DOWN8 (x - of_nat n)) + n \<le> unat x" "unat x \<le> unat (ALIGN_DOWN8 (x - of_nat n)) + n + 7"
    "8 dvd unat (ALIGN_DOWN8 (x - of_nat n))"
    using assms(1) by (simp_all add: unat_ALIGN_DOWN8)
qed

lemma ld_lengths: "length kLdPreload = 43" "length kLdLibraryPath = 34"
  by (simp_all add: kLdPreload_def kLdLibraryPath_def chars_def)


lemma layout:
  fixes sp :: u64
  defines "p1 \<equiv> ALIGN_DOWN8 (sp - of_nat (length kLdPreload))"
  defines "p2 \<equiv> ALIGN_DOWN8 (p1 - of_nat (length kLdLibraryPath))"
  assumes "8 * (k + 3) + 93 \<le> unat sp"
  shows "unat p1 + length kLdPreload \<le> unat sp \<and> unat p2 + length kLdLibraryPath \<le> unat p1 \<and>
    unat (p2 - of_nat ((k + 3) * kPtrSize)) + 8 * (k + 3) = unat p2 \<and> 8 dvd unat p1 \<and> 8 dvd unat p2 \<and>
    8 dvd unat (p2 - of_nat ((k + 3) * kPtrSize))"
proof -
  let ?n = "(k + 3) * kPtrSize"
  have a: "unat p1 + 43 \<le> unat sp" "unat sp \<le> unat p1 + 43 + 7" "8 dvd unat p1"
    using align_below [of 43 sp] assms(3) unfolding p1_def ld_lengths by simp_all
  then have b: "unat p2 + 34 \<le> unat p1" "unat p1 \<le> unat p2 + 34 + 7" "8 dvd unat p2"
    using align_below [of 34 p1] assms(3) unfolding p2_def ld_lengths by simp_all
  have le: "?n \<le> unat p2" using a b assms(3) by simp
  have "?n < 2 ^ 64" using le unat_u64 [of p2] by (rule order.strict_trans1)
  then have n: "unat (of_nat ?n :: u64) = ?n" by (rule unat_of_nat_u64)
  then have "(of_nat ?n :: u64) \<le> p2" using le by (simp only: word_le_nat_alt)
  then have "unat (p2 - of_nat ?n) = unat p2 - ?n" by (simp only: unat_sub n)
  moreover have "8 dvd unat p2 - ?n" using b(3) by (intro dvd_diff_nat) simp_all
  ultimately show ?thesis using a b le by (simp only: ld_lengths) simp
qed
text \<open>(C28) Rewriting the environment of adbd stays inside its buffer and below the stack pointer: it
  always returns, without a store outside the copy it allocated. On success the array has exactly the
  old entries, then the two new strings, then NULL; where the stack pointer leaves room, the two strings
  and the array lie below it one under the other without overlap, at aligned addresses. It fails with
  \<open>-EFAULT\<close> only when user memory cannot be written or the array does not end in what can be read, and
  with \<open>-ENOMEM\<close> only when there is no memory.\<close>

theorem adb_env_rewrite:
  "setup_ld_preload a \<noteq> None \<and>
   (setup_ld_preload a = Some (Inr (sp, env)) \<longrightarrow>
     (\<exists>k p1 p2. env_length a k \<and> env = map (ad_words a) [0..<k] @ [p1, p2, 0] \<and>
       (8 * (k + 3) + 93 \<le> unat (ad_stack a) \<longrightarrow>
          unat p1 + length kLdPreload \<le> unat (ad_stack a) \<and> unat p2 + length kLdLibraryPath \<le> unat p1 \<and>
          unat sp + 8 * length env = unat p2 \<and> 8 dvd unat p1 \<and> 8 dvd unat p2 \<and> 8 dvd unat sp))) \<and>
   (setup_ld_preload a = Some (Inl err) \<longrightarrow>
     err = - ENOMEM \<and> (\<exists>n. \<not> ad_alloc a n) \<or>
     err = - EFAULT \<and> ((\<forall>k. \<not> env_length a k) \<or> (\<exists>p n. \<not> ad_write a p n)))"
proof -
  define p1 where "p1 = ALIGN_DOWN8 (ad_stack a - of_nat (length kLdPreload))"
  define p2 where "p2 = ALIGN_DOWN8 (p1 - of_nat (length kLdLibraryPath))"
  define st where "st = (\<lambda>k. p2 - of_nat ((k + 3) * kPtrSize))"
  have eq: "setup_ld_preload a =
    (if \<not> ad_write a p1 (length kLdPreload) then Some (Inl (- EFAULT))
     else if \<not> ad_write a p2 (length kLdLibraryPath) then Some (Inl (- EFAULT))
     else case env_loop a 0 of Inl e \<Rightarrow> Some (Inl e)
       | Inr (k, m) \<Rightarrow> (case store_env a k m p1 p2 of None \<Rightarrow> None
          | Some env \<Rightarrow> if \<not> ad_write a (p2 - of_nat (length env * kPtrSize)) (length env * kPtrSize) then Some (Inl (- EFAULT))
              else Some (Inr (p2 - of_nat (length env * kPtrSize), env))))"
    unfolding setup_ld_preload_def Let_def p1_def p2_def ..
  show ?thesis
  proof (cases "env_loop a 0")
    case (Inl e)
    then have "e = - ENOMEM \<and> (\<exists>j. \<not> ad_alloc a j) \<or> e = - EFAULT \<and> (\<forall>k. \<not> env_length a k)"
      using env_loop_spec [of 0 a] by simp
    then show ?thesis unfolding eq Inl by (auto split: if_splits)
  next
    case (Inr km)
    obtain k m where km: "km = (k, m)" by fastforce
    then have k: "env_length a k" "k + 3 \<le> m" using env_loop_spec [of 0 a] Inr by simp_all
    have lay: "unat p1 + length kLdPreload \<le> unat (ad_stack a) \<and> unat p2 + length kLdLibraryPath \<le> unat p1 \<and>
        unat (p2 - of_nat ((k + 3) * kPtrSize)) + 8 * (k + 3) = unat p2 \<and> 8 dvd unat p1 \<and> 8 dvd unat p2 \<and>
        8 dvd unat (p2 - of_nat ((k + 3) * kPtrSize))"
      if "8 * (k + 3) + 93 \<le> unat (ad_stack a)"
      using that unfolding p1_def p2_def by (rule layout)
    have len: "length (map (ad_words a) [0..<k] @ [p1, p2, 0]) = k + 3" by simp
    show ?thesis unfolding eq Inr km sum.case prod.case store_env_def if_P [OF k(2)] option.case len
      using k(1) lay by (auto simp: algebra_simps split: if_splits intro!: exI [of _ k])
  qed
qed

section \<open>Lemmas: running su\<close>

text \<open>What the handlers rely on from the original syscalls: they add no driver descriptor (an exec may
  close some) and return to the same task.\<close>

definition sys_ok :: "sys_fn \<Rightarrow> bool" where
  "sys_ok sys \<longleftrightarrow> (\<forall>nr c r w. set (kw_fds (sw_ksu (snd (sys nr c r w)))) \<subseteq> set (kw_fds (sw_ksu w)) \<and>
     kw_current (sw_ksu (snd (sys nr c r w))) = kw_current (sw_ksu w))"

definition runs_su :: "su_env \<Rightarrow> u64 \<Rightarrow> bool \<Rightarrow> uregs \<Rightarrow> su_world \<Rightarrow> bool" where
  "runs_su e filename execveat r w \<longleftrightarrow>
     (execveat \<longrightarrow> int_of_arg (ur_p1 r) = AT_FDCWD \<and> int_of_arg (ur_p5 r) = 0) \<and>
     allowed_current (se_env e) (sw_ksu w) \<and> \<not> us_fault (se_ustr e (se_untagged e filename)) \<and>
     cstr (us_str (se_ustr e (se_untagged e filename))) = SU_PATH"

lemma capture_returns:
  assumes "uenv_ok u"
  obtains p s' where "ksu_sulog_capture u t a1 a2 ty f av s = Some (p, s')"
proof (cases "sl_enabled s \<and> a1 \<and> a2")
  case True
  then show ?thesis using capture_cases [OF assms, of s a1 a2 t ty f av] that by metis
next
  case False
  then have "\<exists>p s'. ksu_sulog_capture u t a1 a2 ty f av s = Some (p, s')"
    by (cases "sl_enabled s"; cases a1; cases a2) (simp_all add: ksu_sulog_capture_def ksu_sulog_is_enabled_def Let_def)
  then show ?thesis using that by blast
qed

lemma escape_current:
  "escape_with_root_profile cfg ap sh hf ee n l s = Some (ret, s') \<Longrightarrow> xs_current s' = xs_current s"
  by (auto simp: escape_with_root_profile_def commit_profile_def Let_def split: if_splits option.splits prod.splits)

lemma execve_cases:
  "ksu_handle_execve_sucompat_common e sys filename argv envp execveat nr r w =
    (let w1 = compat_log e (cr_uid (current_cred (sw_ksu w))) 120 w in
     if \<not> runs_su e filename execveat r w then Some (fst (sys nr False r w), r, snd (sys nr False r w))
     else if se_tmp_fd e < 0 \<or> se_open_ksud e < 0 then Some (fst (sys nr False r w1), r, snd (sys nr False r w1))
     else run_ksud e sys filename argv envp r (w1\<lparr>sw_tmp_fds := se_tmp_fd e # sw_tmp_fds w1\<rparr>))"
  using su_string_iff [of "se_ustr e (se_untagged e filename)"]
  by (cases "strncpy_from_user (se_ustr e (se_untagged e filename)) (length SU_PATH + 2)")
     (auto simp: ksu_handle_execve_sucompat_common_def runs_su_def Let_def case_prod_beta)

lemma run_ksud_spec:
  assumes "env_ok (se_env e) (sw_ksu w)" "uenv_ok (lg_user (se_log e))" "sys_ok sys"
  shows "\<exists>ret r' w'. run_ksud e sys filename argv envp r w = Some (ret, r', w') \<and>
    (ret < 0 \<longrightarrow> r' = r \<and> se_tmp_fd e \<notin> set (sw_tmp_fds w') \<and> set (kw_fds (sw_ksu w')) \<subseteq> set (kw_fds (sw_ksu w))) \<and>
    (0 \<le> ret \<longrightarrow>
      (let su_fd = fst (ksu_install_su_fd (se_env e) (sw_ksu w)) in
       if su_fd < 0 then set (kw_fds (sw_ksu w')) \<subseteq> set (kw_fds (sw_ksu w))
       else (kw_current (sw_ksu w), KSU_DRIVER_PERMISSION_SU_SESSION) \<in> set (kw_fds (sw_ksu w')) \<and>
         set (kw_fds (sw_ksu w')) \<subseteq> insert (kw_current (sw_ksu w), KSU_DRIVER_PERMISSION_SU_SESSION) (set (kw_fds (sw_ksu w)))))"
proof -
  let ?k = "se_env e" and ?lg = "se_log e"
  obtain p log1 where cap: "ksu_sulog_capture_sucompat (lg_user ?lg) (lg_task ?lg) (lg_alloc1 ?lg) (lg_alloc2 ?lg)
      (Some (unat filename)) (argv \<noteq> 0) (sw_log w) = Some (p, log1)"
    unfolding ksu_sulog_capture_sucompat_def by (rule capture_returns [OF assms(2)])
  obtain ret1 es where esc: "escape_with_root_profile (ke_cfg ?k) (kw_appid (sw_ksu w)) (ke_allow_shell ?k) (ke_hf ?k)
      (se_esc e) (se_ns e) (ke_lsm ?k) (kw_esc (sw_ksu w)) = Some (ret1, es)"
    using escape_spec [of "ke_cfg ?k" "ke_hf ?k" "kw_esc (sw_ksu w)"] assms(1) unfolding env_ok_def by blast
  have cur: "xs_current es = kw_current (sw_ksu w)" by (rule escape_current [OF esc])
  define r1 where "r1 = r\<lparr>ur_p5 := AT_EMPTY_PATH, ur_p4 := envp, ur_p3 := argv, ur_p2 := se_empty_ptr e,
                     ur_p1 := word_of_int (se_tmp_fd e)\<rparr>"
  define w1 where "w1 = w\<lparr>sw_ksu := (sw_ksu w)\<lparr>kw_esc := es\<rparr>,
      sw_log := ksu_sulog_emit_pending (lg_push_alloc ?lg) (lg_now ?lg) p ret1 log1\<rparr>"
  obtain ret w2 where s: "sys (se_execveat_nr e) False r1 w1 = (ret, w2)" by fastforce
  have eq: "run_ksud e sys filename argv envp r w = (if ret < 0
      then Some (ret, r1\<lparr>ur_p1 := ur_p1 r, ur_p2 := ur_p2 r, ur_p3 := ur_p3 r, ur_p4 := ur_p4 r, ur_p5 := ur_p5 r\<rparr>,
             w2\<lparr>sw_tmp_fds := removeAll (se_tmp_fd e) (sw_tmp_fds w2)\<rparr>)
      else Some (ret, r1, w2\<lparr>sw_ksu := snd (ksu_install_su_fd ?k (sw_ksu w2))\<rparr>))"
    unfolding run_ksud_def Let_def cap esc option.case prod.case r1_def [symmetric] w1_def [symmetric] s ..
  have w2: "set (kw_fds (sw_ksu w2)) \<subseteq> set (kw_fds (sw_ksu w))" "kw_current (sw_ksu w2) = kw_current (sw_ksu w)"
  proof -
    have "set (kw_fds (sw_ksu w2)) \<subseteq> set (kw_fds (sw_ksu w1)) \<and> kw_current (sw_ksu w2) = kw_current (sw_ksu w1)"
      using assms(3) s unfolding sys_ok_def by (metis snd_conv)
    then show "set (kw_fds (sw_ksu w2)) \<subseteq> set (kw_fds (sw_ksu w))" "kw_current (sw_ksu w2) = kw_current (sw_ksu w)"
      by (simp_all add: w1_def cur)
  qed
  have r: "r1\<lparr>ur_p1 := ur_p1 r, ur_p2 := ur_p2 r, ur_p3 := ur_p3 r, ur_p4 := ur_p4 r, ur_p5 := ur_p5 r\<rparr> = r"
    by (cases r) (simp add: r1_def)
  show ?thesis
  proof (cases "ret < 0")
    case True
    then show ?thesis unfolding eq r using w2 by simp
  next
    case False
    then show ?thesis unfolding eq using w2
      by (auto simp: ksu_install_su_fd_def ksu_install_fd_with_permissions_def Let_def)
  qed
qed

text \<open>The stat and access hooks do not look at the result of the copy, so a string whose copy failed
  is compared as far as it was copied.\<close>

lemma nofault_su:
  "is_su_path (snd (strncpy_from_user_nofault u (length SU_PATH + 2))) \<longleftrightarrow>
   snd (strncpy_from_user u (length SU_PATH + 2)) = SU_PATH"
proof -
  obtain ret bs where s: "strncpy_from_user u (length SU_PATH + 2) = (ret, bs)" by fastforce
  have nz: "0 \<notin> set bs" using strncpy_nonzero [of u "length SU_PATH + 2"] s by simp
  show ?thesis
  proof (cases "int (length SU_PATH + 2) \<le> ret")
    case True
    then have "length bs = length SU_PATH + 2"
      using s by (auto simp: strncpy_from_user_def Let_def split: if_splits)
    then have ne: "bs \<noteq> SU_PATH" "take (length SU_PATH + 2 - 1) bs \<noteq> SU_PATH"
      using take_longer [of "length SU_PATH + 2 - 1" bs SU_PATH] by auto
    have "0 \<notin> set (take (length SU_PATH + 2 - 1) bs)" using nz by (meson in_set_takeD)
    from is_su_path_iff [OF this] ne show ?thesis
      unfolding strncpy_from_user_nofault_def s prod.case if_P [OF True] snd_conv by blast
  next
    case False
    have "snd (if 0 \<le> ret then (ret + 1, bs) else (ret, bs)) = bs" by simp
    then show ?thesis
      unfolding strncpy_from_user_nofault_def s prod.case if_not_P [OF False] snd_conv using is_su_path_iff [OF nz] by simp
  qed
qed

definition redirects_su :: "su_env \<Rightarrow> uregs \<Rightarrow> su_world \<Rightarrow> bool" where
  "redirects_su e r w \<longleftrightarrow> sw_su_compat w \<and> allowed_current (se_env e) (sw_ksu w) \<and>
     snd (strncpy_from_user (se_ustr e (ur_p2 r)) (length SU_PATH + 2)) = SU_PATH \<and> se_ksud_exists e"

lemma compat_log_ksu [simp]: "sw_ksu (compat_log e uid symb w) = sw_ksu w"
  by (simp add: compat_log_def)

section \<open>Properties\<close>


text \<open>(C27) Asking for \<open>su\<close> with stat or access is answered for \<open>ksud\<close>: exactly when the feature is on, the
  caller is allowed root, what was copied of the path is \<open>/system/bin/su\<close> and \<open>ksud\<close> exists, the original
  syscall runs with the address of the path of \<open>ksud\<close> under the module's credentials, after an entry in
  the older log that carries the uid of those credentials. In every other case it runs unchanged. The
  registers are always given back as they were.\<close>

theorem su_path_redirect:
  "(let c = redirects_su e r w; r1 = (if c then r\<lparr>ur_p2 := se_ksud_ptr e\<rparr> else r);
        outcome = (\<lambda>symb. sys nr c r1 (if c then compat_log e (se_ksu_uid e) symb w else w)) in
    ksu_hook_newfstatat e sys nr r w = (fst (outcome 115), r, snd (outcome 115)) \<and>
    ksu_hook_faccessat e sys nr r w = (fst (outcome 97), r, snd (outcome 97)))"
  using nofault_su [of "se_ustr e (ur_p2 r)"]
  by (simp add: ksu_hook_newfstatat_def ksu_hook_faccessat_def ksu_handle_stat_sucompat_def
      ksu_handle_faccessat_sucompat_def redirects_su_def Let_def case_prod_beta)

definition adb0 :: adb_env where
  "adb0 = \<lparr>ad_kern_path = 0, ad_stack = 0x10000, ad_words = (\<lambda>i. if i = 0 then 0x7000 else if i = 1 then 0x7010 else 0),
     ad_avail = 30, ad_alloc = (\<lambda>_. True), ad_write = (\<lambda>_ _. True), ad_prepare = True\<rparr>"

theorem adb_env_rewrite_witness:
  "setup_ld_preload adb0 = Some (Inr (0xff80, [0x7000, 0x7010, 0xffd0, 0xffa8, 0])) \<and>
   (\<exists>k. env_length adb0 k \<and> k + 3 = 5)"
proof -
  have "env_loop adb0 0 = Inr (2, 18)"
    by (subst env_loop.simps) (simp add: adb0_def Let_def upt_rec)
  moreover have "ALIGN_DOWN8 (0x10000 - 43) = 0xffd0" "ALIGN_DOWN8 (0xffd0 - 34) = 0xffa8" by (simp_all add: ALIGN_DOWN8_eq)
  ultimately have e: "setup_ld_preload adb0 = Some (Inr (0xff80, [0x7000, 0x7010, 0xffd0, 0xffa8, 0]))"
    by (simp add: setup_ld_preload_def store_env_def adb0_def ld_lengths Let_def upt_rec)
  with adb_env_rewrite [of adb0 "0xff80" "[0x7000, 0x7010, 0xffd0, 0xffa8, 0]" 0]
  obtain k p1 p2 where k: "env_length adb0 k" "[0x7000, 0x7010, 0xffd0, 0xffa8, 0] = map (ad_words adb0) [0..<k] @ [p1, p2, 0]"
    by blast
  from arg_cong [OF k(2), of length] have "k + 3 = 5" by simp
  with e k(1) show ?thesis by blast
qed

definition su0 :: su_env where
  "su0 = \<lparr>se_env = kenv0, se_esc = eenv0, se_ns = nenv0,
     se_log = \<lparr>lg_user = uenv0, lg_task = tinfo0, lg_alloc1 = True, lg_alloc2 = True, lg_push_alloc = True, lg_now = 0, lg_now_sec = 0\<rparr>,
     se_ustr = (\<lambda>_. \<lparr>us_str = SU_PATH @ [0], us_fault = False, us_partial = 0\<rparr>), se_untagged = (\<lambda>a. a), se_ksu_uid = 0,
     se_ksud_exists = True, se_ksud_ptr = 0x7f00, se_empty_ptr = 0x7f20, se_tmp_fd = 5, se_open_ksud = 0, se_execveat_nr = 281\<rparr>"

definition suw0 :: su_world where
  "suw0 = \<lparr>sw_ksu = kworld0, sw_log = sulog0, sw_su_compat = True, sw_adb_root = False, sw_tmp_fds = []\<rparr>"

definition ur0 :: uregs where
  "ur0 = \<lparr>ur_p1 = 0x5000, ur_p2 = 0x6000, ur_p3 = 0x7000, ur_p4 = 0, ur_p5 = 0\<rparr>"


end
