(* ===== verification/KSU_Runtime.thy ===== *)
theory KSU_Runtime
  imports KSU_Sucompat KSU_SyscallHook
begin

text \<open>
  Boot: the lines added to init.rc while init reads it, and the boot events
  (\<open>runtime/ksud_integration.c\<close>, \<open>runtime/boot_event.c\<close>).

  The file behind init.rc is a state of its own type with the kernel's read operation \<open>orig\<close>, which
  returns a code, the bytes and the new state. Boot events start operations of other parts; these calls
  are recorded in order in \<open>bt_calls\<close>, the flags they guard are state.
\<close>

section \<open>State\<close>

definition KERNEL_SU_RC :: bytes where
  "KERNEL_SU_RC =
     [10] @ chars ''on post-fs-data'' @ [10] @ chars ''    start logd'' @ [10] @
     chars ''    exec u:r:ksu:s0 root -- /data/adb/ksud post-fs-data'' @ [10] @ [10] @
     chars ''on nonencrypted'' @ [10] @
     chars ''    exec u:r:ksu:s0 root -- /data/adb/ksud services'' @ [10] @ [10] @
     chars ''on property:vold.decrypt=trigger_restart_framework'' @ [10] @
     chars ''    exec u:r:ksu:s0 root -- /data/adb/ksud services'' @ [10] @ [10] @
     chars ''on property:sys.boot_completed=1'' @ [10] @
     chars ''    exec u:r:ksu:s0 root -- /data/adb/ksud boot-completed'' @ [10] @ [10] @ [10]"

abbreviation ksu_rc_len :: nat where "ksu_rc_len \<equiv> length KERNEL_SU_RC"

text \<open>The buffer of the module lines is nothing where it is NULL; its length is the number of bytes that
  were read into it.\<close>

record rc_state =
  rc_pos :: nat
  rc_mod_buf :: "bytes option"
  rc_mod_len :: nat
  rc_mod_pos :: nat
  rc_loaded :: bool
  rc_hooked :: bool
  rc_proxied :: bool
  rc_hook :: "(nat, nat) hook_state"

record rc_env =
  re_no_custom_rc :: bool
  re_open_vold :: bool
  re_open_watchdog :: bool
  re_open_default :: bool
  re_regular :: bool
  re_size :: nat
  re_alloc :: bool
  re_read :: int
  re_bytes :: bytes
  re_patch :: "nat \<Rightarrow> bool"
  re_nr_read :: int
  re_nr_fstat :: int

text \<open>What \<open>is_init_rc\<close> looks at: the task's name, the kind of the file, and its path.\<close>

record rc_file =
  rf_comm :: bytes
  rf_reg :: bool
  rf_dpath :: "bytes option"

section \<open>Loading the lines of the modules\<close>

definition open_module_rc :: "rc_env \<Rightarrow> bool" where
  "open_module_rc e = (if re_open_vold e then True else if re_open_watchdog e then True else re_open_default e)"

definition load_module_rc_once :: "rc_env \<Rightarrow> rc_state \<Rightarrow> rc_state" where
  "load_module_rc_once e s =
     (if rc_loaded s then s
      else
        let s1 = s\<lparr>rc_loaded := True\<rparr> in
        if re_no_custom_rc e then s1
        else if \<not> open_module_rc e then s1
        else if \<not> re_regular e then s1
        else if re_size e = 0 then s1
        else if \<not> re_alloc e then s1\<lparr>rc_mod_buf := None\<rparr>
        else if re_read e \<le> 0 then s1\<lparr>rc_mod_buf := None\<rparr>
        else s1\<lparr>rc_mod_buf := Some (take (nat (re_read e)) (re_bytes e)), rc_mod_len := nat (re_read e)\<rparr>)"

definition free_module_rc :: "rc_state \<Rightarrow> rc_state" where
  "free_module_rc s = s\<lparr>rc_mod_buf := None, rc_mod_len := 0\<rparr>"

definition module_bytes :: "rc_state \<Rightarrow> bytes" where
  "module_bytes s = (case rc_mod_buf s of None \<Rightarrow> [] | Some b \<Rightarrow> b)"

section \<open>Reading with the added lines\<close>

text \<open>\<open>copy1\<close> and \<open>copy2\<close> are whether \<open>copy_to_user\<close> of the two parts succeeds; \<open>out\<close> is what the buffer
  holds so far, its length is \<open>ret\<close>.\<close>

definition append_module_rc :: "bool \<Rightarrow> nat \<Rightarrow> bytes \<Rightarrow> rc_state \<Rightarrow> bytes \<times> rc_state" where
  "append_module_rc copy2 count out s =
     (if rc_mod_pos s < rc_mod_len s \<and> length out < count then
        let append_count = min (rc_mod_len s - rc_mod_pos s) (count - length out) in
        if \<not> copy2 then (out, s)
        else
          let s1 = s\<lparr>rc_mod_pos := rc_mod_pos s + append_count\<rparr> in
          (out @ take append_count (drop (rc_mod_pos s) (module_bytes s)),
           if rc_mod_pos s1 = rc_mod_len s1 then free_module_rc s1 else s1)
      else (out, s))"

definition append_ksu_rc :: "bool \<Rightarrow> bool \<Rightarrow> nat \<Rightarrow> rc_state \<Rightarrow> bytes \<times> rc_state" where
  "append_ksu_rc copy1 copy2 count s =
     (if rc_pos s < ksu_rc_len then
        let append_count = min (ksu_rc_len - rc_pos s) count in
        if \<not> copy1 then ([], s)
        else append_module_rc copy2 count (take append_count (drop (rc_pos s) KERNEL_SU_RC))
               (s\<lparr>rc_pos := rc_pos s + append_count\<rparr>)
      else append_module_rc copy2 count [] s)"

type_synonym 'f read_fn = "nat \<Rightarrow> 'f \<Rightarrow> int \<times> bytes \<times> 'f"

definition read_proxy ::
  "'f read_fn \<Rightarrow> bool \<Rightarrow> bool \<Rightarrow> nat \<Rightarrow> 'f \<Rightarrow> rc_state \<Rightarrow> int \<times> bytes \<times> 'f \<times> rc_state" where
  "read_proxy orig_read copy1 copy2 count f s =
     (let done = (\<lambda>f (out, s). (int (length out), out, f, s)) in
      if 0 < rc_pos s \<and> rc_pos s < ksu_rc_len then done f (append_ksu_rc copy1 copy2 count s)
      else if ksu_rc_len \<le> rc_pos s \<and> rc_mod_pos s < rc_mod_len s then done f (append_module_rc copy2 count [] s)
      else (case orig_read count f of (ret, out, f1) \<Rightarrow>
        if ret \<noteq> 0 then (ret, out, f1, s)
        else if ksu_rc_len \<le> rc_pos s \<and> rc_mod_len s \<le> rc_mod_pos s then (ret, out, f1, s)
        else done f1 (append_ksu_rc copy1 copy2 count s)))"

text \<open>The vectored read: \<open>copy_to_iter\<close> copies what fits, at most \<open>cap1\<close> and \<open>cap2\<close> bytes where a fault
  stops it, and returns how much it copied.\<close>

definition iter_module_rc :: "nat \<Rightarrow> nat \<Rightarrow> bytes \<Rightarrow> rc_state \<Rightarrow> bytes \<times> rc_state" where
  "iter_module_rc cap2 count out s =
     (if rc_mod_pos s < rc_mod_len s then
        let append_count = min cap2 (min (rc_mod_len s - rc_mod_pos s) (count - length out)) in
        if append_count = 0 then (out, s)
        else
          let s1 = s\<lparr>rc_mod_pos := rc_mod_pos s + append_count\<rparr> in
          (out @ take append_count (drop (rc_mod_pos s) (module_bytes s)),
           if rc_mod_pos s1 = rc_mod_len s1 then free_module_rc s1 else s1)
      else (out, s))"

definition iter_ksu_rc :: "nat \<Rightarrow> nat \<Rightarrow> nat \<Rightarrow> rc_state \<Rightarrow> bytes \<times> rc_state" where
  "iter_ksu_rc cap1 cap2 count s =
     (if rc_pos s < ksu_rc_len then
        let append_count = min cap1 (min (ksu_rc_len - rc_pos s) count) in
        if append_count = 0 then ([], s)
        else iter_module_rc cap2 count (take append_count (drop (rc_pos s) KERNEL_SU_RC))
               (s\<lparr>rc_pos := rc_pos s + append_count\<rparr>)
      else iter_module_rc cap2 count [] s)"

definition read_iter_proxy ::
  "'f read_fn \<Rightarrow> nat \<Rightarrow> nat \<Rightarrow> nat \<Rightarrow> 'f \<Rightarrow> rc_state \<Rightarrow> int \<times> bytes \<times> 'f \<times> rc_state" where
  "read_iter_proxy orig_read_iter cap1 cap2 count f s =
     (let done = (\<lambda>f (out, s). (int (length out), out, f, s)) in
      if 0 < rc_pos s \<and> rc_pos s < ksu_rc_len then done f (iter_ksu_rc cap1 cap2 count s)
      else if ksu_rc_len \<le> rc_pos s \<and> rc_mod_pos s < rc_mod_len s then done f (iter_module_rc cap2 count [] s)
      else (case orig_read_iter count f of (ret, out, f1) \<Rightarrow>
        if ret \<noteq> 0 then (ret, out, f1, s)
        else if ksu_rc_len \<le> rc_pos s \<and> rc_mod_len s \<le> rc_mod_pos s then (ret, out, f1, s)
        else done f1 (iter_ksu_rc cap1 cap2 count s)))"

section \<open>Finding init.rc\<close>

definition is_init_rc :: "rc_file \<Rightarrow> bool" where
  "is_init_rc fp =
     (if cstr (rf_comm fp) \<noteq> chars ''init'' then False
      else if \<not> rf_reg fp then False
      else (case rf_dpath fp of None \<Rightarrow> False | Some p \<Rightarrow> cstr p = chars ''/system/etc/init/hw/init.rc''))"

definition stop_init_rc_hook :: "rc_env \<Rightarrow> rc_state \<Rightarrow> rc_state" where
  "stop_init_rc_hook e s = s\<lparr>rc_hook :=
     ksu_syscall_table_unhook (re_patch e) (re_nr_fstat e) (ksu_syscall_table_unhook (re_patch e) (re_nr_read e) (rc_hook s))\<rparr>"

definition ksu_install_rc_hook :: "rc_env \<Rightarrow> rc_file \<Rightarrow> rc_state \<Rightarrow> rc_state" where
  "ksu_install_rc_hook e fp s =
     (if \<not> is_init_rc fp then s
      else if rc_hooked s then s
      else (load_module_rc_once e (stop_init_rc_hook e (s\<lparr>rc_hooked := True\<rparr>)))\<lparr>rc_proxied := True\<rparr>)"

text \<open>\<open>fget\<close> gives the file or nothing.\<close>

definition ksu_handle_sys_read :: "rc_env \<Rightarrow> rc_file option \<Rightarrow> rc_state \<Rightarrow> rc_state" where
  "ksu_handle_sys_read e fp s = (case fp of None \<Rightarrow> s | Some fp \<Rightarrow> ksu_install_rc_hook e fp s)"

text \<open>The size that \<open>fstat\<close> reports, given the size the original syscall stored in the user's structure,
  or nothing where that cannot be read. \<open>put\<close> is whether it can be written.\<close>

definition ksu_sys_fstat :: "rc_env \<Rightarrow> rc_file option \<Rightarrow> u64 option \<Rightarrow> bool \<Rightarrow> rc_state \<Rightarrow> u64 option \<times> rc_state" where
  "ksu_sys_fstat e fp st_size put s =
     (let is_rc = (case fp of None \<Rightarrow> False | Some fp \<Rightarrow> is_init_rc fp);
          s1 = (if is_rc then load_module_rc_once e s else s)
      in if is_rc then
           (case st_size of
              None \<Rightarrow> (None, s1)
            | Some sz \<Rightarrow> (Some (if put then sz + of_nat (ksu_rc_len + rc_mod_len s1) else sz), s1))
         else (st_size, s1))"

definition ksu_ksud_init :: "rc_env \<Rightarrow> nat \<Rightarrow> nat \<Rightarrow> rc_state \<Rightarrow> rc_state" where
  "ksu_ksud_init e sys_read_fn sys_fstat_fn s =
     s\<lparr>rc_hook := fst (ksu_syscall_table_hook (re_patch e) (re_nr_fstat e) sys_fstat_fn
          (fst (ksu_syscall_table_hook (re_patch e) (re_nr_read e) sys_read_fn (rc_hook s))))\<rparr>"

definition ksu_ksud_exit :: "rc_state \<Rightarrow> rc_state" where
  "ksu_ksud_exit s = (if rc_mod_buf s \<noteq> None then free_module_rc s else s)"

section \<open>Boot events\<close>

datatype boot_call =
    LoadAllowList | ObserverInit | UnregisterInputProbe | SelinuxHidePostFsData | ApplyForced
  | TrackThrone bool | SelinuxHideDropBackup | AvcSpoofLateInit | PreinitRelease | SelinuxHideSecondStage
  | ApplyKernelsuRules | CacheSid | SetupKsuCred | StopKsudExecveHook

record boot_state =
  bt_late_loaded :: bool
  bt_input_stopped :: bool
  bt_volumedown :: u32
  bt_safe_mode :: bool
  bt_post_fs_done :: bool
  bt_boot_completed :: bool
  bt_post_fs_lock :: bool
  bt_boot_lock :: bool
  bt_services :: bool
  bt_first_zygote :: bool
  bt_second_stage :: bool
  bt_calls :: "boot_call list"

definition call :: "boot_call list \<Rightarrow> boot_state \<Rightarrow> boot_state" where
  "call cs b = b\<lparr>bt_calls := bt_calls b @ cs\<rparr>"

definition ksu_stop_input_hook_runtime :: "boot_state \<Rightarrow> boot_state" where
  "ksu_stop_input_hook_runtime b =
     (if bt_input_stopped b then b else call [UnregisterInputProbe] (b\<lparr>bt_input_stopped := True\<rparr>))"

definition on_post_fs_data :: "boot_state \<Rightarrow> boot_state" where
  "on_post_fs_data b =
     (if bt_post_fs_done b then b
      else call [SelinuxHidePostFsData, ApplyForced]
        (ksu_stop_input_hook_runtime (call [LoadAllowList, ObserverInit] (b\<lparr>bt_post_fs_done := True\<rparr>))))"

definition on_boot_completed :: "boot_state \<Rightarrow> boot_state" where
  "on_boot_completed b = call [TrackThrone True, SelinuxHideDropBackup, AvcSpoofLateInit] (b\<lparr>bt_boot_completed := True\<rparr>)"

definition on_module_mounted :: "ksu_world \<Rightarrow> ksu_world" where
  "on_module_mounted w = w\<lparr>kw_module_mounted := True\<rparr>"

text \<open>\<open>kern_path\<close> is the result of the lookup and \<open>fstype\<close> the file system's name; the result is the code
  and whether the sysfs entry was removed.\<close>

definition nuke_ext4_sysfs :: "int \<Rightarrow> bytes \<Rightarrow> int \<times> bool" where
  "nuke_ext4_sysfs kern_path fstype =
     (if kern_path \<noteq> 0 then (kern_path, False)
      else if cstr fstype \<noteq> chars ''ext4'' then (- EINVAL, False)
      else (0, True))"

abbreviation EVENT_POST_FS_DATA :: u32 where "EVENT_POST_FS_DATA \<equiv> 1"
abbreviation EVENT_BOOT_COMPLETED :: u32 where "EVENT_BOOT_COMPLETED \<equiv> 2"
abbreviation EVENT_MODULE_MOUNTED :: u32 where "EVENT_MODULE_MOUNTED \<equiv> 3"
abbreviation EVENT_SERVICES :: u32 where "EVENT_SERVICES \<equiv> 4"

text \<open>The event is nothing where the argument cannot be read.\<close>

definition do_report_event :: "u32 option \<Rightarrow> boot_state \<Rightarrow> ksu_world \<Rightarrow> int \<times> boot_state \<times> ksu_world" where
  "do_report_event cmd b w = (case cmd of
     None \<Rightarrow> (- EFAULT, b, w)
   | Some event \<Rightarrow>
       if event = EVENT_POST_FS_DATA then
         let b1 = b\<lparr>bt_services := False\<rparr> in
         (0, if bt_post_fs_lock b1 then b1
             else let b2 = b1\<lparr>bt_post_fs_lock := True\<rparr> in if bt_late_loaded b2 then b2 else on_post_fs_data b2, w)
       else if event = EVENT_BOOT_COMPLETED then
         (0, if bt_boot_lock b then b
             else let b1 = b\<lparr>bt_boot_lock := True\<rparr> in if bt_late_loaded b1 then b1 else on_boot_completed b1, w)
       else if event = EVENT_MODULE_MOUNTED then (0, b, on_module_mounted w)
       else if event = EVENT_SERVICES then
         (if bt_services b then (0, b, w) else (1, b\<lparr>bt_services := True\<rparr>, w))
       else (0, b, w))"

section \<open>Safe mode\<close>

definition is_volumedown_enough :: "u32 \<Rightarrow> bool" where
  "is_volumedown_enough count = (count \<ge> 3)"

abbreviation EV_KEY :: u32 where "EV_KEY \<equiv> 1"
abbreviation KEY_VOLUMEDOWN :: u32 where "KEY_VOLUMEDOWN \<equiv> 114"

definition ksu_handle_input_handle_event :: "u32 \<Rightarrow> u32 \<Rightarrow> int \<Rightarrow> boot_state \<Rightarrow> boot_state" where
  "ksu_handle_input_handle_event type code value b =
     (if type = EV_KEY \<and> code = KEY_VOLUMEDOWN \<and> value \<noteq> 0 then
        let b1 = b\<lparr>bt_volumedown := bt_volumedown b + 1\<rparr> in
        if is_volumedown_enough (bt_volumedown b1) then ksu_stop_input_hook_runtime b1 else b1
      else b)"

definition ksu_is_safe_mode :: "boot_state \<Rightarrow> bool \<times> boot_state" where
  "ksu_is_safe_mode b =
     (if bt_safe_mode b then (True, b)
      else if bt_late_loaded b then (False, b)
      else
        let b1 = ksu_stop_input_hook_runtime b in
        if is_volumedown_enough (bt_volumedown b1) then (True, b1\<lparr>bt_safe_mode := True\<rparr>) else (False, b1))"

section \<open>Programs that init starts\<close>

text \<open>User memory as the hook reads it: the argument array, nothing where a slot cannot be read, whether a
  fatal signal is pending after a slot, and the strings.\<close>

record argv_env =
  av_slot :: "nat \<Rightarrow> u64 option"
  av_fatal :: "nat \<Rightarrow> bool"
  av_str :: "u64 \<Rightarrow> ustring"

definition IS_ERR :: "u64 \<Rightarrow> bool" where
  "IS_ERR p = (p \<ge> - 4095)"

definition get_user_arg_ptr :: "argv_env \<Rightarrow> nat \<Rightarrow> u64" where
  "get_user_arg_ptr a nr = (case av_slot a nr of None \<Rightarrow> - 14 | Some p \<Rightarrow> p)"

abbreviation MAX_ARG_STRINGS :: nat where "MAX_ARG_STRINGS \<equiv> 0x7FFFFFFF"

function count_args :: "argv_env \<Rightarrow> nat \<Rightarrow> nat \<Rightarrow> int" where
  "count_args a max_args i =
     (let p = get_user_arg_ptr a i in
      if p = 0 then int i
      else if IS_ERR p then - EFAULT
      else if i \<ge> max_args then - 7
      else if av_fatal a (i + 1) then - 514
      else count_args a max_args (i + 1))"
  by pat_completeness auto
termination
  by (relation "measure (\<lambda>(a, max_args, i). max_args - i)") auto

declare count_args.simps [simp del]

definition check_argv :: "argv_env \<Rightarrow> nat \<Rightarrow> bytes \<Rightarrow> nat \<Rightarrow> bool" where
  "check_argv a index expected buf_len =
     (if count_args a MAX_ARG_STRINGS 0 \<le> int index then False
      else
        let p = get_user_arg_ptr a index in
        if p = 0 \<or> IS_ERR p then False
        else (case strncpy_from_user_nofault (av_str a p) buf_len of (ret, bs) \<Rightarrow>
          if ret \<le> 0 then False else cstr (take (buf_len - 1) bs) = expected))"

text \<open>\<open>argv\<close> is NULL nowhere: the callers pass the address of a local structure. An array at address 0
  counts as empty.\<close>

definition ksu_handle_execveat_ksud :: "bytes \<Rightarrow> argv_env \<Rightarrow> boot_state \<Rightarrow> boot_state" where
  "ksu_handle_execveat_ksud path a b =
     (let b1 =
        (if take 16 path = chars ''/system/bin/init'' \<and> \<not> bt_second_stage b \<and> check_argv a 1 (chars ''second_stage'') 16
         then (call [PreinitRelease, SelinuxHideSecondStage, ApplyKernelsuRules, CacheSid, SetupKsuCred, ApplyForced] b)
                \<lparr>bt_second_stage := True\<rparr>
         else b)
      in if bt_first_zygote b1 \<and> take 23 path = chars ''/system/bin/app_process'' \<and> check_argv a 1 (chars ''-Xzygote'') 16
         then call [StopKsudExecveHook] ((on_post_fs_data (call [PreinitRelease] b1))\<lparr>bt_first_zygote := False\<rparr>)
         else b1)"

definition ksu_execve_hook_ksud_common :: "u64 \<Rightarrow> (u64 \<Rightarrow> u64) \<Rightarrow> argv_env \<Rightarrow> boot_state \<Rightarrow> boot_state" where
  "ksu_execve_hook_ksud_common filename_user untagged a b =
     (if filename_user = 0 then b
      else (case strncpy_from_user (av_str a (untagged filename_user)) 32 of (ret, bs) \<Rightarrow>
        if ret < 0 then b else ksu_handle_execveat_ksud (zeroed 32 bs) a b))"

section \<open>Reading a stream\<close>

fun run_reads :: "('o \<Rightarrow> 's \<Rightarrow> bytes \<times> 's) \<Rightarrow> 'o list \<Rightarrow> 's \<Rightarrow> bytes list \<times> 's" where
  "run_reads rd [] s = ([], s)"
| "run_reads rd (op # ops) s =
     (case rd op s of (out, s1) \<Rightarrow> case run_reads rd ops s1 of (outs, s2) \<Rightarrow> (out # outs, s2))"

text \<open>What a reader relies on: every read delivers the next bytes of what is left, and at least one
  where something is left and it asked for any.\<close>

locale byte_stream =
  fixes rd :: "'o \<Rightarrow> 's \<Rightarrow> bytes \<times> 's"
    and rest :: "'s \<Rightarrow> bytes"
    and invar :: "'s \<Rightarrow> bool"
    and wants :: "'o \<Rightarrow> bool"
  assumes rd_invar: "invar s \<Longrightarrow> invar (snd (rd op s))"
    and rd_next: "invar s \<Longrightarrow> fst (rd op s) @ rest (snd (rd op s)) = rest s"
    and rd_progress: "invar s \<Longrightarrow> wants op \<Longrightarrow> rest s \<noteq> [] \<Longrightarrow> fst (rd op s) \<noteq> []"
begin

lemma reads_next: "invar s \<Longrightarrow> concat (fst (run_reads rd ops s)) @ rest (snd (run_reads rd ops s)) = rest s"
proof (induction ops arbitrary: s)
  case (Cons op ops)
  then show ?case using rd_next [of s op] rd_invar [of s op] Cons.IH [of "snd (rd op s)"]
    by (simp add: case_prod_beta)
qed simp

lemma reads_end:
  "invar s \<Longrightarrow> list_all wants ops \<Longrightarrow> length (rest s) \<le> length ops \<Longrightarrow> rest (snd (run_reads rd ops s)) = []"
proof (induction ops arbitrary: s)
  case (Cons op ops)
  let ?s = "snd (rd op s)"
  have next_s: "fst (rd op s) @ rest ?s = rest s" using Cons.prems rd_next by blast
  have "length (rest ?s) \<le> length ops"
  proof (cases "rest s = []")
    case True
    then show ?thesis using next_s by simp
  next
    case False
    then have "fst (rd op s) \<noteq> []" using rd_progress Cons.prems by simp
    then have "length (rest ?s) < length (rest s)" using arg_cong [OF next_s, of length] by (cases "fst (rd op s)") simp_all
    then show ?thesis using Cons.prems(3) by simp
  qed
  then show ?case using Cons.IH [of ?s] Cons.prems rd_invar by (simp add: case_prod_beta)
qed simp

lemma reads_all:
  assumes "invar s"
  shows "take (length (concat (fst (run_reads rd ops s)))) (rest s) = concat (fst (run_reads rd ops s))"
    "list_all wants ops \<Longrightarrow> length (rest s) \<le> length ops \<Longrightarrow> concat (fst (run_reads rd ops s)) = rest s"
  using reads_next [OF assms, of ops] reads_end [OF assms, of ops] by (metis append_eq_conv_conj, metis append_Nil2)

end

section \<open>Lemmas: the proxy\<close>

datatype rc_op = Read nat | ReadIter nat

fun rc_count :: "rc_op \<Rightarrow> nat" where
  "rc_count (Read n) = n"
| "rc_count (ReadIter n) = n"

text \<open>A read where no copy to user space fails.\<close>

fun proxy_read :: "'f read_fn \<Rightarrow> rc_op \<Rightarrow> 'f \<times> rc_state \<Rightarrow> bytes \<times> 'f \<times> rc_state" where
  "proxy_read orig (Read n) (f, s) = snd (read_proxy orig True True n f s)"
| "proxy_read orig (ReadIter n) (f, s) = snd (read_iter_proxy orig n n n f s)"

text \<open>Reading a regular file: what is left of it becomes shorter by what was read, and a read of a
  positive count returns nothing only at the end.\<close>

definition regular_file :: "'f read_fn \<Rightarrow> ('f \<Rightarrow> bytes) \<Rightarrow> bool" where
  "regular_file orig content \<longleftrightarrow> (\<forall>count f. case orig count f of (ret, out, f1) \<Rightarrow>
     ret = int (length out) \<and> length out \<le> count \<and> out @ content f1 = content f \<and>
     (0 < count \<and> content f \<noteq> [] \<longrightarrow> out \<noteq> []))"

definition rc_rest :: "('f \<Rightarrow> bytes) \<Rightarrow> 'f \<times> rc_state \<Rightarrow> bytes" where
  "rc_rest content x = content (fst x) @ drop (rc_pos (snd x)) KERNEL_SU_RC @ drop (rc_mod_pos (snd x)) (module_bytes (snd x))"

definition rc_inv :: "('f \<Rightarrow> bytes) \<Rightarrow> 'f \<times> rc_state \<Rightarrow> bool" where
  "rc_inv content x \<longleftrightarrow> (0 < rc_pos (snd x) \<longrightarrow> content (fst x) = []) \<and> rc_pos (snd x) \<le> ksu_rc_len \<and>
     (0 < rc_mod_pos (snd x) \<longrightarrow> rc_pos (snd x) = ksu_rc_len) \<and> rc_mod_len (snd x) = length (module_bytes (snd x))"

lemma append_module_spec:
  assumes "rc_mod_len s = length (module_bytes s)" "append_module_rc True count out s = (o1, s1)"
  defines "d \<equiv> drop (rc_mod_pos s) (module_bytes s)"
  shows "o1 = out @ take (count - length out) d" "drop (rc_mod_pos s1) (module_bytes s1) = drop (count - length out) d"
    "rc_pos s1 = rc_pos s" "rc_mod_len s1 = length (module_bytes s1)"
    "0 < rc_mod_pos s1 \<Longrightarrow> 0 < rc_mod_pos s \<or> length out < count"
  using assms(1,2) unfolding d_def append_module_rc_def Let_def
  by (auto simp: min_def free_module_rc_def module_bytes_def add.commute split: if_splits)

lemma cap_min: "(count :: nat) \<le> cap \<Longrightarrow> min cap (min x (count - k)) = min x (count - k)"
  by (auto simp: min_def)

lemma iter_module_eq: "count \<le> cap \<Longrightarrow> iter_module_rc cap count out s = append_module_rc True count out s"
  by (auto simp: iter_module_rc_def append_module_rc_def Let_def cap_min)

lemma iter_ksu_eq: "iter_ksu_rc count count count s = append_ksu_rc True True count s"
  using cap_min [of count count "ksu_rc_len - rc_pos s" 0]
  by (auto simp: iter_ksu_rc_def append_ksu_rc_def iter_module_eq Let_def append_module_rc_def)

lemma read_iter_eq: "read_iter_proxy orig n n n f s = read_proxy orig True True n f s"
  unfolding read_iter_proxy_def read_proxy_def iter_ksu_eq iter_module_eq [OF order_refl] ..

lemma append_ksu_spec:
  assumes "rc_mod_len s = length (module_bytes s)" "rc_pos s \<le> ksu_rc_len" "0 < rc_mod_pos s \<Longrightarrow> rc_pos s = ksu_rc_len"
    and "append_ksu_rc True True count s = (o1, s1)"
  defines "r \<equiv> drop (rc_pos s) KERNEL_SU_RC @ drop (rc_mod_pos s) (module_bytes s)"
  shows "o1 = take count r"
    "drop (rc_pos s1) KERNEL_SU_RC @ drop (rc_mod_pos s1) (module_bytes s1) = drop count r"
    "rc_pos s1 \<le> ksu_rc_len" "0 < rc_mod_pos s1 \<Longrightarrow> rc_pos s1 = ksu_rc_len" "rc_mod_len s1 = length (module_bytes s1)"
proof -
  let ?n = "min (ksu_rc_len - rc_pos s) count"
  let ?s = "s\<lparr>rc_pos := rc_pos s + ?n\<rparr>" and ?o = "take ?n (drop (rc_pos s) KERNEL_SU_RC)"
  have m: "rc_mod_len ?s = length (module_bytes ?s)" using assms(1) by (simp add: module_bytes_def)
  have e: "append_module_rc True count ?o ?s = (o1, s1)"
  proof (cases "rc_pos s < ksu_rc_len")
    case True
    then show ?thesis using assms(4) by (simp add: append_ksu_rc_def Let_def)
  next
    case False
    then have "rc_pos s + ?n = rc_pos s" by simp
    then have "?s = s" by simp
    then show ?thesis using assms(4) False by (simp add: append_ksu_rc_def)
  qed
  have len: "length ?o = ?n" by simp
  have mb: "module_bytes ?s = module_bytes s" "rc_mod_pos ?s = rc_mod_pos s" by (simp_all add: module_bytes_def)
  note sp = append_module_spec [OF m e, unfolded len mb]
  have t: "take ?n (drop (rc_pos s) KERNEL_SU_RC) = take count (drop (rc_pos s) KERNEL_SU_RC)"
    by (metis length_drop take_take take_all order_refl min.commute)
  have pos: "rc_pos s1 = rc_pos s + ?n" using sp(3) by simp
  have k: "count - ?n = count - (ksu_rc_len - rc_pos s)" by (auto simp: min_def)
  show "o1 = take count r" using sp(1) by (simp only: t k r_def take_append length_drop)
  have "drop (rc_pos s + ?n) KERNEL_SU_RC = drop count (drop (rc_pos s) KERNEL_SU_RC)"
    using assms(2) by (auto simp: min_def add.commute)
  then show "drop (rc_pos s1) KERNEL_SU_RC @ drop (rc_mod_pos s1) (module_bytes s1) = drop count r"
    unfolding pos sp(2) k r_def by (simp only: drop_append length_drop)
  show "rc_pos s1 \<le> ksu_rc_len" using pos assms(2) by simp
  show "rc_mod_len s1 = length (module_bytes s1)" by (rule sp(4))
  show "rc_pos s1 = ksu_rc_len" if "0 < rc_mod_pos s1"
    using sp(5) [OF that] assms(2,3) pos by auto
qed

lemma take_nonempty: "0 < n \<Longrightarrow> xs \<noteq> [] \<Longrightarrow> take n xs \<noteq> []"
  by simp

lemma rc_len_pos: "0 < ksu_rc_len"
  by (simp add: KERNEL_SU_RC_def)

lemma append_rest:
  assumes "rc_inv content (f, s)" "append_ksu_rc True True n s = (out, s1)" "content f1 = []"
  shows "rc_inv content (f1, s1)"
    "out @ rc_rest content (f1, s1) = drop (rc_pos s) KERNEL_SU_RC @ drop (rc_mod_pos s) (module_bytes s)"
    "0 < n \<Longrightarrow> drop (rc_pos s) KERNEL_SU_RC @ drop (rc_mod_pos s) (module_bytes s) \<noteq> [] \<Longrightarrow> out \<noteq> []"
proof -
  have inv: "rc_mod_len s = length (module_bytes s)" "rc_pos s \<le> ksu_rc_len" "0 < rc_mod_pos s \<Longrightarrow> rc_pos s = ksu_rc_len"
    using assms(1) by (simp_all add: rc_inv_def)
  note sp = append_ksu_spec [OF inv assms(2)]
  show "rc_inv content (f1, s1)" using sp(3-5) assms(3) unfolding rc_inv_def fst_conv snd_conv by blast
  show "out @ rc_rest content (f1, s1) = drop (rc_pos s) KERNEL_SU_RC @ drop (rc_mod_pos s) (module_bytes s)"
  proof -
    have "rc_rest content (f1, s1) = drop (rc_pos s1) KERNEL_SU_RC @ drop (rc_mod_pos s1) (module_bytes s1)"
      by (simp only: rc_rest_def fst_conv snd_conv assms(3) append_Nil)
    then show ?thesis using sp(1,2) append_take_drop_id by metis
  qed
  show "0 < n \<Longrightarrow> drop (rc_pos s) KERNEL_SU_RC @ drop (rc_mod_pos s) (module_bytes s) \<noteq> [] \<Longrightarrow> out \<noteq> []"
    using sp(1) take_nonempty by metis
qed

text \<open>One read through the proxy.\<close>

definition read_ok :: "('f \<Rightarrow> bytes) \<Rightarrow> nat \<Rightarrow> 'f \<times> rc_state \<Rightarrow> int \<times> bytes \<times> 'f \<times> rc_state \<Rightarrow> bool" where
  "read_ok content n x r = (case r of (ret, out, y) \<Rightarrow>
     rc_inv content y \<and> out @ rc_rest content y = rc_rest content x \<and>
     (0 < n \<and> rc_rest content x \<noteq> [] \<longrightarrow> out \<noteq> []) \<and> ret = int (length out))"

lemma read_ok_append:
  assumes "rc_inv content (f, s)" "content f = []" "content f1 = []"
  shows "read_ok content n (f, s) (case append_ksu_rc True True n s of (out, s1) \<Rightarrow> (int (length out), out, f1, s1))"
proof -
  obtain out s1 where a: "append_ksu_rc True True n s = (out, s1)" by fastforce
  have "rc_rest content (f, s) = drop (rc_pos s) KERNEL_SU_RC @ drop (rc_mod_pos s) (module_bytes s)"
    using assms(2) by (simp add: rc_rest_def)
  then show ?thesis using append_rest [OF assms(1) a assms(3)] by (simp add: read_ok_def a)
qed

lemma append_ksu_zero: "append_ksu_rc True True 0 s = ([], s)"
  by (simp add: append_ksu_rc_def append_module_rc_def Let_def)

lemma read_proxy_spec:
  assumes reg: "regular_file orig content" and inv: "rc_inv content (f, s)"
  shows "read_ok content n (f, s) (read_proxy orig True True n f s)"
proof -
  have full: "append_module_rc True n [] s = append_ksu_rc True True n s" if "ksu_rc_len \<le> rc_pos s"
    using that by (simp add: append_ksu_rc_def)
  have done_f: "content f = []" if "0 < rc_pos s" using inv that by (simp add: rc_inv_def)
  obtain ret2 o2 f2 where p: "orig n f = (ret2, o2, f2)" by (metis prod_cases3)
  have o: "orig n f = (int (length o2), o2, f2)" "o2 @ content f2 = content f" "0 < n \<and> content f \<noteq> [] \<longrightarrow> o2 \<noteq> []"
    using reg [unfolded regular_file_def, rule_format, of n f] by (simp_all add: p)
  consider "0 < rc_pos s \<and> rc_pos s < ksu_rc_len" | "ksu_rc_len \<le> rc_pos s \<and> rc_mod_pos s < rc_mod_len s"
    | "\<not> (0 < rc_pos s \<and> rc_pos s < ksu_rc_len)" "\<not> (ksu_rc_len \<le> rc_pos s \<and> rc_mod_pos s < rc_mod_len s)" by blast
  then show ?thesis
  proof cases
    case 1
    then show ?thesis using read_ok_append [OF inv done_f done_f] by (simp add: read_proxy_def)
  next
    case 2
    then have p: "0 < rc_pos s" using rc_len_pos by linarith
    show ?thesis using read_ok_append [OF inv done_f [OF p] done_f [OF p]] 2 by (simp add: read_proxy_def full)
  next
    case 3
    have orig: "read_proxy orig True True n f s = (if o2 \<noteq> [] \<or> ksu_rc_len \<le> rc_pos s \<and> rc_mod_len s \<le> rc_mod_pos s
        then (int (length o2), o2, f2, s)
        else case append_ksu_rc True True n s of (out, s1) \<Rightarrow> (int (length out), out, f2, s1))"
      unfolding read_proxy_def Let_def if_not_P [OF 3(1)] if_not_P [OF 3(2)] o(1) by auto
    have keep: "read_ok content n (f, s) (int (length o2), o2, f2, s)"
      if "o2 \<noteq> [] \<or> rc_rest content (f, s) = [] \<or> n = 0"
      using inv o(2,3) that done_f unfolding read_ok_def rc_inv_def rc_rest_def by auto
    show ?thesis
    proof (cases "o2 \<noteq> [] \<or> ksu_rc_len \<le> rc_pos s \<and> rc_mod_len s \<le> rc_mod_pos s")
      case True
      have "rc_rest content (f, s) = []" if "ksu_rc_len \<le> rc_pos s" "rc_mod_len s \<le> rc_mod_pos s"
        using that inv done_f rc_len_pos by (simp add: rc_rest_def rc_inv_def)
      then show ?thesis unfolding orig if_P [OF True] using True by (intro keep) blast
    next
      case False
      show ?thesis
      proof (cases "n = 0")
        case True
        then show ?thesis unfolding orig if_not_P [OF False] using keep False by (simp add: append_ksu_zero)
      next
        case n: False
        then have "content f = []" using o(3) False by auto
        then show ?thesis unfolding orig if_not_P [OF False] using o(2) by (intro read_ok_append [OF inv]) simp_all
      qed
    qed
  qed
qed

lemma proxy_read_spec:
  assumes "regular_file orig content" "rc_inv content x"
  shows "rc_inv content (snd (proxy_read orig op x))"
    "fst (proxy_read orig op x) @ rc_rest content (snd (proxy_read orig op x)) = rc_rest content x"
    "0 < rc_count op \<Longrightarrow> rc_rest content x \<noteq> [] \<Longrightarrow> fst (proxy_read orig op x) \<noteq> []"
proof -
  obtain f s where x: "x = (f, s)" by fastforce
  have "proxy_read orig op x = snd (read_proxy orig True True (rc_count op) f s)"
    by (cases op) (simp_all add: x read_iter_eq)
  with read_proxy_spec [OF assms(1), of f s "rc_count op"] assms(2)
  show "rc_inv content (snd (proxy_read orig op x))"
    "fst (proxy_read orig op x) @ rc_rest content (snd (proxy_read orig op x)) = rc_rest content x"
    "0 < rc_count op \<Longrightarrow> rc_rest content x \<noteq> [] \<Longrightarrow> fst (proxy_read orig op x) \<noteq> []"
    by (auto simp: x read_ok_def split: prod.splits)
qed

interpretation rc: byte_stream "proxy_read orig" "rc_rest content"
  "\<lambda>x. regular_file orig content \<and> rc_inv content x" "\<lambda>op. 0 < rc_count op"
  for orig :: "'f read_fn" and content :: "'f \<Rightarrow> bytes"
proof unfold_locales
  fix s :: "'f \<times> rc_state" and op :: rc_op
  assume i: "regular_file orig content \<and> rc_inv content s"
  note sp = proxy_read_spec [OF i [THEN conjunct1] i [THEN conjunct2]]
  show "regular_file orig content \<and> rc_inv content (snd (proxy_read orig op s))" using i sp(1) by simp
  show "fst (proxy_read orig op s) @ rc_rest content (snd (proxy_read orig op s)) = rc_rest content s" by (rule sp(2))
  show "fst (proxy_read orig op s) \<noteq> []" if "0 < rc_count op" "rc_rest content s \<noteq> []" using sp(3) that by blast
qed

section \<open>Lemmas: boot events\<close>

definition rc_fresh :: "rc_state \<Rightarrow> bool" where
  "rc_fresh s \<longleftrightarrow> rc_pos s = 0 \<and> rc_mod_pos s = 0 \<and> rc_mod_len s = 0 \<and> rc_mod_buf s = None \<and> \<not> rc_hooked s"

lemma load_fresh:
  assumes "rc_fresh s" "nat (re_read e) \<le> length (re_bytes e)"
  shows "rc_pos (load_module_rc_once e s) = 0" "rc_mod_pos (load_module_rc_once e s) = 0"
    "rc_mod_len (load_module_rc_once e s) = length (module_bytes (load_module_rc_once e s))"
    "rc_loaded (load_module_rc_once e s)"
  using assms by (auto simp: rc_fresh_def load_module_rc_once_def module_bytes_def Let_def)

lemma install_keeps:
  assumes "rc_loaded s"
  shows "rc_pos (ksu_handle_sys_read e fp s) = rc_pos s" "rc_mod_pos (ksu_handle_sys_read e fp s) = rc_mod_pos s"
    "rc_mod_len (ksu_handle_sys_read e fp s) = rc_mod_len s" "module_bytes (ksu_handle_sys_read e fp s) = module_bytes s"
  using assms by (auto simp: ksu_handle_sys_read_def ksu_install_rc_hook_def stop_init_rc_hook_def
      load_module_rc_once_def module_bytes_def split: option.split)

text \<open>A step of the boot: an event reported by ksud, a program started, an input event, or a question for
  safe mode.\<close>

datatype boot_op = Report "u32 option" | Exec u64 argv_env | Input u32 u32 int | SafeMode

fun boot_step :: "(u64 \<Rightarrow> u64) \<Rightarrow> boot_op \<Rightarrow> boot_state \<times> ksu_world \<Rightarrow> boot_state \<times> ksu_world" where
  "boot_step un (Report ev) (b, w) = snd (do_report_event ev b w)"
| "boot_step un (Exec fn a) (b, w) = (ksu_execve_hook_ksud_common fn un a b, w)"
| "boot_step un (Input t c v) (b, w) = (ksu_handle_input_handle_event t c v b, w)"
| "boot_step un SafeMode (b, w) = (snd (ksu_is_safe_mode b), w)"

definition once :: "boot_call \<Rightarrow> bool \<Rightarrow> boot_state \<Rightarrow> bool" where
  "once c flag b \<longleftrightarrow> count_list (bt_calls b) c = (if flag then 1 else 0)"

definition boot_inv :: "boot_state \<Rightarrow> bool" where
  "boot_inv b \<longleftrightarrow> once LoadAllowList (bt_post_fs_done b) b \<and> once ObserverInit (bt_post_fs_done b) b \<and>
     once UnregisterInputProbe (bt_input_stopped b) b \<and> once (TrackThrone True) (bt_boot_completed b) b \<and>
     once ApplyKernelsuRules (bt_second_stage b) b \<and> once StopKsudExecveHook (\<not> bt_first_zygote b) b \<and>
     (bt_boot_completed b \<longrightarrow> bt_boot_lock b) \<and> (bt_post_fs_done b \<longrightarrow> bt_input_stopped b)"

lemmas boot_defs = boot_inv_def once_def call_def ksu_stop_input_hook_runtime_def on_post_fs_data_def on_boot_completed_def

lemma boot_inv_stop: "boot_inv b \<Longrightarrow> boot_inv (ksu_stop_input_hook_runtime b)"
  by (auto simp: boot_defs)

lemma boot_inv_post: "boot_inv b \<Longrightarrow> boot_inv (on_post_fs_data b)"
  by (auto simp: boot_defs)

lemma boot_inv_flags:
  "boot_inv (b\<lparr>bt_services := v\<rparr>) = boot_inv b" "boot_inv (b\<lparr>bt_post_fs_lock := v\<rparr>) = boot_inv b"
  "boot_inv (b\<lparr>bt_volumedown := n\<rparr>) = boot_inv b" "boot_inv (b\<lparr>bt_safe_mode := v\<rparr>) = boot_inv b"
  "boot_inv (call [PreinitRelease] b) = boot_inv b"
  by (simp_all add: boot_defs)

lemma boot_inv_boot: "boot_inv b \<Longrightarrow> \<not> bt_boot_lock b \<Longrightarrow> boot_inv (on_boot_completed (b\<lparr>bt_boot_lock := True\<rparr>))"
  "boot_inv b \<Longrightarrow> boot_inv (b\<lparr>bt_boot_lock := True\<rparr>)"
  by (auto simp: boot_defs)

lemma boot_inv_second:
  "boot_inv b \<Longrightarrow> \<not> bt_second_stage b \<Longrightarrow>
   boot_inv ((call [PreinitRelease, SelinuxHideSecondStage, ApplyKernelsuRules, CacheSid, SetupKsuCred, ApplyForced] b)
      \<lparr>bt_second_stage := True\<rparr>)"
  by (auto simp: boot_defs)

lemma boot_inv_zygote:
  assumes "boot_inv b" "bt_first_zygote b"
  shows "boot_inv (call [StopKsudExecveHook] (b\<lparr>bt_first_zygote := False\<rparr>))"
  using assms by (auto simp: boot_defs)

lemma first_zygote_post: "bt_first_zygote (on_post_fs_data (call [PreinitRelease] b)) = bt_first_zygote b"
  by (simp add: boot_defs)

lemma boot_inv_exec: "boot_inv b \<Longrightarrow> boot_inv (ksu_handle_execveat_ksud path a b)"
  unfolding ksu_handle_execveat_ksud_def Let_def
  by (auto intro!: boot_inv_zygote boot_inv_post boot_inv_second simp: boot_inv_flags first_zygote_post)

lemma boot_inv_step: "boot_inv (fst x) \<Longrightarrow> boot_inv (fst (boot_step un op x))"
proof (cases x; cases op)
  fix b w ev assume i: "boot_inv (fst x)" and x: "x = (b, w)" "op = Report ev"
  have "boot_inv b" using i x by simp
  then show ?thesis
    unfolding x boot_step.simps do_report_event_def Let_def
    by (auto intro!: boot_inv_post boot_inv_boot simp: boot_inv_flags split: option.split)
qed (auto simp: ksu_execve_hook_ksud_common_def ksu_handle_input_handle_event_def ksu_is_safe_mode_def boot_inv_flags Let_def
    intro!: boot_inv_exec boot_inv_stop split: prod.split)

fun boot_run :: "(u64 \<Rightarrow> u64) \<Rightarrow> boot_op list \<Rightarrow> boot_state \<times> ksu_world \<Rightarrow> boot_state \<times> ksu_world" where
  "boot_run un [] x = x"
| "boot_run un (op # ops) x = boot_run un ops (boot_step un op x)"

text \<open>How often the caller is told to start the services.\<close>

fun service_starts :: "(u64 \<Rightarrow> u64) \<Rightarrow> boot_op list \<Rightarrow> boot_state \<times> ksu_world \<Rightarrow> nat" where
  "service_starts un [] x = 0"
| "service_starts un (op # ops) x =
     (if op = Report (Some EVENT_SERVICES) \<and> fst (do_report_event (Some EVENT_SERVICES) (fst x) (snd x)) = 1 then 1 else 0)
     + service_starts un ops (boot_step un op x)"

lemma boot_inv_run: "boot_inv (fst x) \<Longrightarrow> boot_inv (fst (boot_run un ops x))"
  by (induction ops arbitrary: x) (simp_all add: boot_inv_step)

lemma services_step:
  assumes "op \<noteq> Report (Some EVENT_POST_FS_DATA)"
  shows "bt_services (fst (boot_step un op (b, w))) \<longleftrightarrow> bt_services b \<or> op = Report (Some EVENT_SERVICES)"
  using assms
proof (cases op)
  case (Report ev)
  then show ?thesis using assms by (auto simp: do_report_event_def on_boot_completed_def call_def Let_def split: option.split)
qed (auto simp: ksu_execve_hook_ksud_common_def ksu_handle_input_handle_event_def ksu_is_safe_mode_def
    ksu_handle_execveat_ksud_def boot_defs Let_def split: prod.split)

lemma service_starts_le:
  "Report (Some EVENT_POST_FS_DATA) \<notin> set ops \<Longrightarrow> service_starts un ops x \<le> (if bt_services (fst x) then 0 else 1)"
proof (induction ops arbitrary: x)
  case (Cons op ops)
  obtain b w where x: "x = (b, w)" by fastforce
  have op: "op \<noteq> Report (Some EVENT_POST_FS_DATA)" using Cons.prems by auto
  have "service_starts un ops (boot_step un op x) \<le> (if bt_services (fst (boot_step un op x)) then 0 else 1)"
    using Cons by simp
  then show ?case using services_step [OF op, of un b w] unfolding x
    by (auto simp: do_report_event_def split: if_splits)
qed simp

section \<open>Properties\<close>

text \<open>(C29) Init reads exactly the lines it was promised: when init stats init.rc and then reads it with any
  mixture of plain and vectored reads of positive counts, the size reported by \<open>fstat\<close> is the length of
  the file followed by the lines of the module and by the lines of the installed modules; what is read is
  a prefix of that text, and all of it after as many reads as it has bytes. The lines of the modules are
  those loaded at the first of the two calls, even if their file changes in between.\<close>

theorem init_rc_stream:
  assumes "regular_file orig content" "rc_fresh s0" "is_init_rc fp" "nat (re_read e) \<le> length (re_bytes e)"
    and "\<forall>op\<in>set ops. 0 < rc_count op"
  shows "(let (size, s1) = ksu_sys_fstat e (Some fp) (Some (of_nat (length (content f)))) True s0;
         s2 = ksu_handle_sys_read e' (Some fp) s1;
         text = content f @ KERNEL_SU_RC @ module_bytes s1;
         got = concat (fst (run_reads (proxy_read orig) ops (f, s2))) in
     size = Some (of_nat (length text)) \<and> take (length got) text = got \<and>
     (length text \<le> length ops \<longrightarrow> got = text))"
proof -
  define s1 where "s1 = load_module_rc_once e s0"
  define s2 where "s2 = ksu_handle_sys_read e' (Some fp) s1"
  have l: "rc_pos s1 = 0" "rc_mod_pos s1 = 0" "rc_mod_len s1 = length (module_bytes s1)" "rc_loaded s1"
    using load_fresh [OF assms(2,4)] by (simp_all add: s1_def)
  note k = install_keeps [OF l(4), of e' "Some fp", folded s2_def]
  have rest: "rc_rest content (f, s2) = content f @ KERNEL_SU_RC @ module_bytes s1"
    by (simp add: rc_rest_def k l)
  have inv: "regular_file orig content \<and> rc_inv content (f, s2)"
    using assms(1) by (simp add: rc_inv_def k l)
  have "ksu_sys_fstat e (Some fp) (Some (of_nat (length (content f)))) True s0
      = (Some (of_nat (length (content f)) + of_nat (ksu_rc_len + rc_mod_len s1)), s1)"
    using assms(3) by (simp add: ksu_sys_fstat_def s1_def Let_def)
  moreover have "list_all (\<lambda>op. 0 < rc_count op) ops" using assms(5) by (simp add: list_all_iff)
  ultimately show ?thesis
    using rc.reads_all [OF inv, of ops] unfolding rest by (simp add: Let_def s2_def [symmetric] l(3))
qed

text \<open>(C30) Boot work is done once: in every sequence of reported events, started programs, input events and
  safe-mode questions, the allowlist is loaded, the observer started, the input probe removed, the
  SELinux rules applied, the packages scanned and the execve hook stopped at most once each, exactly when the flag
  that guards it is set; and between two \<open>post-fs-data\<close> reports the services are started at most once.\<close>

theorem boot_once:
  assumes "boot_inv b"
  shows "(let b' = fst (boot_run un ops (b, w)) in
      count_list (bt_calls b') LoadAllowList = (if bt_post_fs_done b' then 1 else 0) \<and>
      count_list (bt_calls b') ObserverInit = (if bt_post_fs_done b' then 1 else 0) \<and>
      count_list (bt_calls b') UnregisterInputProbe = (if bt_input_stopped b' then 1 else 0) \<and>
      count_list (bt_calls b') ApplyKernelsuRules = (if bt_second_stage b' then 1 else 0) \<and>
      count_list (bt_calls b') (TrackThrone True) = (if bt_boot_completed b' then 1 else 0) \<and>
      count_list (bt_calls b') StopKsudExecveHook = (if bt_first_zygote b' then 0 else 1)) \<and>
    (Report (Some EVENT_POST_FS_DATA) \<notin> set ops \<longrightarrow> service_starts un ops (b, w) \<le> 1)"
proof (intro conjI impI)
  define b' where "b' = fst (boot_run un ops (b, w))"
  have "boot_inv b'" using boot_inv_run [of "(b, w)" un ops] assms by (simp add: b'_def)
  then show "let b' = fst (boot_run un ops (b, w)) in
      count_list (bt_calls b') LoadAllowList = (if bt_post_fs_done b' then 1 else 0) \<and>
      count_list (bt_calls b') ObserverInit = (if bt_post_fs_done b' then 1 else 0) \<and>
      count_list (bt_calls b') UnregisterInputProbe = (if bt_input_stopped b' then 1 else 0) \<and>
      count_list (bt_calls b') ApplyKernelsuRules = (if bt_second_stage b' then 1 else 0) \<and>
      count_list (bt_calls b') (TrackThrone True) = (if bt_boot_completed b' then 1 else 0) \<and>
      count_list (bt_calls b') StopKsudExecveHook = (if bt_first_zygote b' then 0 else 1)"
    unfolding Let_def b'_def [symmetric] boot_inv_def once_def by (simp del: One_nat_def)
  show "service_starts un ops (b, w) \<le> 1" if "Report (Some EVENT_POST_FS_DATA) \<notin> set ops"
    by (rule order.trans [OF service_starts_le [OF that]]) simp
qed

definition boot0 :: boot_state where
  "boot0 = \<lparr>bt_late_loaded = False, bt_input_stopped = False, bt_volumedown = 0, bt_safe_mode = False,
     bt_post_fs_done = False, bt_boot_completed = False, bt_post_fs_lock = False, bt_boot_lock = False,
     bt_services = False, bt_first_zygote = True, bt_second_stage = False, bt_calls = []\<rparr>"

theorem boot_once_witness:
  "count_list (bt_calls (fst (boot_run (\<lambda>a. a) [Report (Some EVENT_POST_FS_DATA), SafeMode, Report (Some EVENT_POST_FS_DATA)]
     (boot0, kworld0)))) UnregisterInputProbe = 1"
proof -
  have "boot_inv boot0" by (simp add: boot0_def boot_inv_def once_def)
  from boot_once [OF this, of "\<lambda>a. a" "[Report (Some EVENT_POST_FS_DATA), SafeMode, Report (Some EVENT_POST_FS_DATA)]" kworld0]
  show ?thesis
    by (simp add: Let_def) (simp add: do_report_event_def ksu_is_safe_mode_def boot0_def boot_defs is_volumedown_enough_def Let_def)
qed

definition rcs0 :: rc_state where
  "rcs0 = \<lparr>rc_pos = 0, rc_mod_buf = None, rc_mod_len = 0, rc_mod_pos = 0, rc_loaded = False, rc_hooked = False,
     rc_proxied = False, rc_hook = hst0\<rparr>"

definition rce0 :: rc_env where
  "rce0 = \<lparr>re_no_custom_rc = False, re_open_vold = False, re_open_watchdog = True, re_open_default = True, re_regular = True,
     re_size = 4, re_alloc = True, re_read = 3, re_bytes = [97, 98, 10], re_patch = (\<lambda>_. True), re_nr_read = 0, re_nr_fstat = 1\<rparr>"

definition list_read :: "bytes read_fn" where
  "list_read count f = (int (length (take count f)), take count f, drop count f)"

definition rcf0 :: rc_file where
  "rcf0 = \<lparr>rf_comm = chars ''init'', rf_reg = True, rf_dpath = Some (chars ''/system/etc/init/hw/init.rc'')\<rparr>"

theorem init_rc_stream_witness:
  "concat (fst (run_reads (proxy_read list_read) (replicate 4000 (Read 16))
      ([35, 10], ksu_handle_sys_read rce0 (Some rcf0) (load_module_rc_once rce0 rcs0)))) = [35, 10] @ KERNEL_SU_RC @ [97, 98, 10]"
proof -
  define ops where "ops = replicate 4000 (Read 16)"
  have ops: "\<forall>op\<in>set ops. 0 < rc_count op" "length ops = 4000"
    unfolding ops_def by (simp_all only: length_replicate set_replicate_conv_if) simp
  have h: "regular_file list_read (\<lambda>f. f)" "rc_fresh rcs0" "is_init_rc rcf0" "nat (re_read rce0) \<le> length (re_bytes rce0)"
    by (simp_all add: regular_file_def list_read_def rc_fresh_def rcs0_def is_init_rc_def rcf0_def rce0_def cstr_def chars_def)
  have m: "module_bytes (load_module_rc_once rce0 rcs0) = [97, 98, 10]"
    by (simp add: load_module_rc_once_def rce0_def rcs0_def open_module_rc_def module_bytes_def Let_def)
  have len: "ksu_rc_len \<le> 3000" by (simp add: KERNEL_SU_RC_def chars_def)
  show ?thesis unfolding ops_def [symmetric]
    using init_rc_stream [OF h ops(1), of "[35, 10]" rce0] h(3) m len ops(2)
    by (simp add: ksu_sys_fstat_def Let_def)
qed

end
