(* ===== verification/KSU_Symbols.thy ===== *)
theory KSU_Symbols
  imports KSU_Prelude "HOL-Library.Multiset" "HOL-Library.List_Lexorder"
begin

text \<open>
  Resolving kernel symbols (\<open>infra/symbol_resolver.c\<close>): one symbol for a function table hook, and a batch
  of names for a module loader.

  The kernel's symbol table is the parameter \<open>kallsyms\<close>: its entries in order (name, address, whether it
  belongs to a module), what the index by name gives, and the lookup by name. \<open>sym_cfg\<close> has what the
  source selects by kernel version. Names are byte strings without NUL, compared byte by byte as
  \<open>strcmp\<close> does. \<open>sort\<close> of the kernel is the parameter \<open>sorter\<close>.
\<close>

section \<open>State\<close>

record sym_cfg =
  sy_kcfi :: bool
  sy_always_each :: bool
  sy_mod_arg :: bool
  sy_have_match :: bool
  sy_name_len :: nat

text \<open>\<open>ks_each_fn\<close> and \<open>ks_match_fn\<close> are whether the two walkers were found at start.\<close>

record kallsyms =
  ks_syms :: "(bytes option \<times> u64 \<times> bool) list"
  ks_match :: "bytes \<Rightarrow> u64 list"
  ks_lookup :: "bytes \<Rightarrow> u64"
  ks_is_module :: "u64 \<Rightarrow> bool"
  ks_each_fn :: bool
  ks_match_fn :: bool

section \<open>One symbol\<close>

text \<open>The callback stores every address it is given, so the last one stays.\<close>

definition find_kernel_symbol_exact :: "sym_cfg \<Rightarrow> kallsyms \<Rightarrow> bytes \<Rightarrow> u64" where
  "find_kernel_symbol_exact c ks symbol_name =
     (if sy_have_match c \<and> ks_match_fn ks then last (0 # ks_match ks symbol_name)
      else
        let addr = ks_lookup ks symbol_name in
        if ks_is_module ks addr then 0 else addr)"

definition ksu_symbol_has_suffix :: "bytes \<Rightarrow> bytes \<Rightarrow> bool" where
  "ksu_symbol_has_suffix name suffix = (length suffix \<le> length name \<and> drop (length name - length suffix) name = suffix)"

definition cfi_suffix :: bytes where "cfi_suffix = chars ''.cfi_jt''"

definition is_variant :: "bytes \<Rightarrow> bytes \<Rightarrow> bool" where
  "is_variant symbol name =
     (name = symbol \<or>
      length symbol < length name \<and> take (length symbol) name = symbol \<and>
      (name ! length symbol = 46 \<or> name ! length symbol = 36))"

text \<open>The match after one entry and whether the walk stops.\<close>

definition lookup_symbol_variant_cb :: "sym_cfg \<Rightarrow> bytes \<Rightarrow> bytes option \<Rightarrow> u64 \<Rightarrow> u64 \<Rightarrow> u64 \<times> bool" where
  "lookup_symbol_variant_cb c symbol name addr mtch = (case name of
     None \<Rightarrow> (mtch, False)
   | Some n \<Rightarrow>
       if addr = 0 then (mtch, False)
       else if \<not> is_variant symbol n then (mtch, False)
       else if \<not> sy_kcfi c \<and> ksu_symbol_has_suffix n cfi_suffix then (addr, True)
       else if mtch = 0 then (addr, sy_kcfi c)
       else (mtch, False))"

fun variant_walk :: "sym_cfg \<Rightarrow> bytes \<Rightarrow> (bytes option \<times> u64 \<times> bool) list \<Rightarrow> u64 \<Rightarrow> u64" where
  "variant_walk c symbol [] mtch = mtch"
| "variant_walk c symbol ((name, addr, m) # syms) mtch =
     (case lookup_symbol_variant_cb c symbol name addr mtch of (mtch1, stop) \<Rightarrow>
        if stop then mtch1 else variant_walk c symbol syms mtch1)"

definition resolve_symbol_variant :: "sym_cfg \<Rightarrow> kallsyms \<Rightarrow> bytes \<Rightarrow> u64" where
  "resolve_symbol_variant c ks symbol =
     (if sy_always_each c \<or> ks_each_fn ks then variant_walk c symbol (ks_syms ks) 0 else 0)"

text \<open>The name with the suffix is cut to the buffer of \<open>KSYM_NAME_LEN\<close> bytes.\<close>

definition ksu_resolve_symbol_for_functable_hook :: "sym_cfg \<Rightarrow> kallsyms \<Rightarrow> bytes \<Rightarrow> u64" where
  "ksu_resolve_symbol_for_functable_hook c ks symbol =
     (if symbol = [] then 0
      else if \<not> sy_kcfi c then
        let addr = find_kernel_symbol_exact c ks (take (sy_name_len c - 1) (symbol @ cfi_suffix)) in
        if addr \<noteq> 0 then addr
        else
          let addr = resolve_symbol_variant c ks symbol in
          if addr \<noteq> 0 then addr else find_kernel_symbol_exact c ks symbol
      else
        let addr = find_kernel_symbol_exact c ks symbol in
        if addr \<noteq> 0 then addr else resolve_symbol_variant c ks symbol)"

text \<open>At start neither walker is known, so both lookups are plain ones.\<close>

definition ksu_init_symbol_resolver :: "sym_cfg \<Rightarrow> kallsyms \<Rightarrow> kallsyms" where
  "ksu_init_symbol_resolver c ks =
     (let ks1 = (if sy_always_each c then ks
                 else ks\<lparr>ks_each_fn := find_kernel_symbol_exact c ks (chars ''kallsyms_on_each_symbol'') \<noteq> 0\<rparr>)
      in if sy_have_match c then
           ks1\<lparr>ks_match_fn := find_kernel_symbol_exact c ks1 (chars ''kallsyms_on_each_match_symbol'') \<noteq> 0\<rparr>
         else ks1)"

section \<open>A batch of symbols\<close>

record batch_entry =
  be_name :: bytes
  be_addr :: u64
  be_idx :: nat

record batch_ctx =
  bc_entries :: "batch_entry list"
  bc_remaining :: int

text \<open>The kernel's binary search.\<close>

function bsearch :: "bytes \<Rightarrow> batch_entry list \<Rightarrow> nat \<Rightarrow> nat \<Rightarrow> nat option" where
  "bsearch key es base num =
     (if num = 0 then None
      else
        let pivot = base + num div 2 in
        if key = be_name (es ! pivot) then Some pivot
        else if be_name (es ! pivot) < key then bsearch key es (pivot + 1) ((num - 1) div 2)
        else bsearch key es base (num div 2))"
  by pat_completeness auto
termination
  by (relation "measure (\<lambda>(key, es, base, num). num)") auto

declare bsearch.simps [simp del]

fun run_start :: "bytes \<Rightarrow> batch_entry list \<Rightarrow> nat \<Rightarrow> nat" where
  "run_start key es 0 = 0"
| "run_start key es (Suc i) = (if be_name (es ! i) = key then run_start key es i else Suc i)"

text \<open>The forward loop from an entry on, over the rest of the array.\<close>

fun fill_run :: "bytes \<Rightarrow> u64 \<Rightarrow> batch_entry list \<Rightarrow> int \<Rightarrow> batch_entry list \<times> int" where
  "fill_run key addr [] remaining = ([], remaining)"
| "fill_run key addr (e # es) remaining =
     (if be_name e = key then
        (case (if be_addr e = 0 then (e\<lparr>be_addr := addr\<rparr>, remaining - 1) else (e, remaining)) of (e1, r1) \<Rightarrow>
         case fill_run key addr es r1 of (es1, r2) \<Rightarrow> (e1 # es1, r2))
      else (e # es, remaining))"

text \<open>\<open>strstr\<close>: what stands before the first occurrence.\<close>

fun before :: "bytes \<Rightarrow> bytes \<Rightarrow> bytes option" where
  "before needle [] = (if needle = [] then Some [] else None)"
| "before needle (c # hay) =
     (if take (length needle) (c # hay) = needle then Some [] else map_option (\<lambda>p. c # p) (before needle hay))"

text \<open>The name a kernel symbol is compared by, or nothing where it is skipped.\<close>

definition batch_key :: "sym_cfg \<Rightarrow> bytes \<Rightarrow> bytes option" where
  "batch_key c name =
     (case (if 36 \<in> set name then Some (takeWhile (\<lambda>b. b \<noteq> 36) name) else before (chars ''.llvm.'') name) of
        None \<Rightarrow> Some name
      | Some k \<Rightarrow> if length k = 0 \<or> length k \<ge> sy_name_len c then None else Some k)"

definition ksu_batch_match ::
  "sym_cfg \<Rightarrow> bool \<Rightarrow> bytes option \<Rightarrow> u64 \<Rightarrow> batch_ctx \<Rightarrow> int \<times> batch_ctx" where
  "ksu_batch_match c fatal name addr ctx =
     (if fatal then (- EINTR, ctx)
      else (case name of
         None \<Rightarrow> (0, ctx)
       | Some n \<Rightarrow>
           if addr = 0 then (0, ctx)
           else (case batch_key c n of
              None \<Rightarrow> (0, ctx)
            | Some key \<Rightarrow>
                (case bsearch key (bc_entries ctx) 0 (length (bc_entries ctx)) of
                   None \<Rightarrow> (0, ctx)
                 | Some i \<Rightarrow>
                     let start = run_start key (bc_entries ctx) i in
                     (case fill_run key addr (drop start (bc_entries ctx)) (bc_remaining ctx) of (es, r) \<Rightarrow>
                        ((if r \<noteq> 0 then 0 else 1), ctx\<lparr>bc_entries := take start (bc_entries ctx) @ es, bc_remaining := r\<rparr>))))))"

definition ksu_batch_cb ::
  "sym_cfg \<Rightarrow> bool \<Rightarrow> bytes option \<Rightarrow> bool \<Rightarrow> u64 \<Rightarrow> batch_ctx \<Rightarrow> int \<times> batch_ctx" where
  "ksu_batch_cb c fatal name md addr ctx =
     (if sy_mod_arg c \<and> md then (1, ctx) else ksu_batch_match c fatal name addr ctx)"

text \<open>\<open>kallsyms_on_each_symbol\<close>: it stops at the first result that is not 0 and returns it. \<open>fatal k\<close> is
  whether a fatal signal is pending at the \<open>k\<close>th entry.\<close>

fun batch_walk ::
  "sym_cfg \<Rightarrow> (nat \<Rightarrow> bool) \<Rightarrow> nat \<Rightarrow> (bytes option \<times> u64 \<times> bool) list \<Rightarrow> batch_ctx \<Rightarrow> int \<times> batch_ctx" where
  "batch_walk c fatal k [] ctx = (0, ctx)"
| "batch_walk c fatal k ((name, addr, md) # syms) ctx =
     (case ksu_batch_cb c (fatal k) name md addr ctx of (ret, ctx1) \<Rightarrow>
        if ret \<noteq> 0 then (ret, ctx1) else batch_walk c fatal (Suc k) syms ctx1)"

definition ksu_first_match :: "kallsyms \<Rightarrow> bytes \<Rightarrow> u64" where
  "ksu_first_match ks name = (case ks_match ks name of [] \<Rightarrow> 0 | a # _ \<Rightarrow> a)"

text \<open>The lookups by the index, over the rest of the array: the result, the entries and what remains.\<close>

function indexed_loop ::
  "kallsyms \<Rightarrow> (nat \<Rightarrow> bool) \<Rightarrow> batch_entry list \<Rightarrow> int \<Rightarrow> int \<times> batch_entry list \<times> int" where
  "indexed_loop ks fatal [] remaining = (0, [], remaining)"
| "indexed_loop ks fatal (e # es) remaining =
     (if remaining = 0 then (0, e # es, remaining)
      else if be_addr e \<noteq> 0 then
        (case indexed_loop ks fatal es remaining of (ret, es1, r) \<Rightarrow> (ret, e # es1, r))
      else
        let addr = ksu_first_match ks (be_name e) in
        if addr = 0 then
          (case indexed_loop ks fatal es remaining of (ret, es1, r) \<Rightarrow> (ret, e # es1, r))
        else
          let same = takeWhile (\<lambda>d. be_name d = be_name e) es;
              rest = dropWhile (\<lambda>d. be_name d = be_name e) es;
              filled = (e # same);
              r1 = remaining - int (length filled);
              out = map (\<lambda>d. d\<lparr>be_addr := addr\<rparr>) filled
          in if fatal (length rest) then (- EINTR, out @ rest, r1)
             else (case indexed_loop ks fatal rest r1 of (ret, es1, r) \<Rightarrow> (ret, out @ es1, r)))"
  by pat_completeness auto
termination
  by (relation "measure (\<lambda>(ks, fatal, es, r). length es)") (auto simp: le_imp_less_Suc length_dropWhile_le)

definition ksu_batch_lookup_indexed :: "kallsyms \<Rightarrow> (nat \<Rightarrow> bool) \<Rightarrow> batch_ctx \<Rightarrow> int \<times> batch_ctx" where
  "ksu_batch_lookup_indexed ks fatal ctx =
     (if \<not> ks_match_fn ks then (0, ctx)
      else (case indexed_loop ks fatal (bc_entries ctx) (bc_remaining ctx) of (ret, es, r) \<Rightarrow>
        (ret, ctx\<lparr>bc_entries := es, bc_remaining := r\<rparr>)))"

text \<open>The fallback without a walker.\<close>

fun exact_loop :: "sym_cfg \<Rightarrow> kallsyms \<Rightarrow> (nat \<Rightarrow> bool) \<Rightarrow> batch_entry list \<Rightarrow> int \<times> batch_entry list" where
  "exact_loop c ks fatal [] = (0, [])"
| "exact_loop c ks fatal (e # es) =
     (if be_addr e \<noteq> 0 then (case exact_loop c ks fatal es of (ret, es1) \<Rightarrow> (ret, e # es1))
      else
        let e1 = e\<lparr>be_addr := find_kernel_symbol_exact c ks (be_name e)\<rparr> in
        if fatal (length es) then (- EINTR, e1 # es)
        else (case exact_loop c ks fatal es of (ret, es1) \<Rightarrow> (ret, e1 # es1)))"

fun collect :: "nat \<Rightarrow> bytes option list \<Rightarrow> batch_entry list" where
  "collect i [] = []"
| "collect i (None # ns) = collect (Suc i) ns"
| "collect i (Some n # ns) = \<lparr>be_name = n, be_addr = 0, be_idx = i\<rparr> # collect (Suc i) ns"

text \<open>The result and the addresses, which the caller set to 0. \<open>f1\<close> to \<open>f3\<close> are the signal tests of the
  three loops.\<close>

definition ksu_lookup_kernel_symbols ::
  "sym_cfg \<Rightarrow> kallsyms \<Rightarrow> (batch_entry list \<Rightarrow> batch_entry list) \<Rightarrow> bool \<Rightarrow> bool \<Rightarrow>
   (nat \<Rightarrow> bool) \<Rightarrow> (nat \<Rightarrow> bool) \<Rightarrow> (nat \<Rightarrow> bool) \<Rightarrow> bytes option list \<Rightarrow> int \<times> u64 list" where
  "ksu_lookup_kernel_symbols c ks sorter alloc1 alloc2 f1 f2 f3 names =
     (let zeros = replicate (length names) 0 in
      if \<not> alloc1 then (- ENOMEM, zeros)
      else if \<not> alloc2 then (- ENOMEM, zeros)
      else
        let es = sorter (collect 0 names);
            n = length es;
            ctx0 = \<lparr>bc_entries = es, bc_remaining = int n\<rparr>;
            (ret1, ctx1) = (if sy_have_match c \<and> n \<noteq> 0 then ksu_batch_lookup_indexed ks f1 ctx0 else (0, ctx0));
            (ret2, ctx2) =
              (if ret1 \<ge> 0 \<and> bc_remaining ctx1 \<noteq> 0 then
                 if sy_always_each c \<or> ks_each_fn ks then batch_walk c f2 0 (ks_syms ks) ctx1
                 else (case exact_loop c ks f3 (bc_entries ctx1) of (ret, es1) \<Rightarrow> (ret, ctx1\<lparr>bc_entries := es1\<rparr>))
               else (ret1, ctx1))
        in if ret2 < 0 then (ret2, zeros)
           else (int (length (filter (\<lambda>e. be_addr e \<noteq> 0) (bc_entries ctx2))),
                 fold (\<lambda>e addrs. addrs[be_idx e := be_addr e]) (bc_entries ctx2) zeros))"

section \<open>Lemmas: searching the sorted array\<close>

abbreviation sorted_names :: "batch_entry list \<Rightarrow> bool" where
  "sorted_names es \<equiv> sorted (map be_name es)"

lemma sorted_names_mono: "sorted_names es \<Longrightarrow> i \<le> j \<Longrightarrow> j < length es \<Longrightarrow> be_name (es ! i) \<le> be_name (es ! j)"
  using sorted_nth_mono [of "map be_name es" i j] by simp

lemma bsearch_sound: "bsearch key es base num = Some i \<Longrightarrow> base \<le> i \<and> i < base + num \<and> be_name (es ! i) = key"
proof (induction key es base num rule: bsearch.induct)
  case (1 key es base num)
  let ?p = "base + num div 2"
  have n: "num \<noteq> 0" using "1.prems" by (metis bsearch.simps option.distinct(1))
  consider "key = be_name (es ! ?p)" | "key \<noteq> be_name (es ! ?p)" "be_name (es ! ?p) < key" | "key \<noteq> be_name (es ! ?p)" "\<not> be_name (es ! ?p) < key" by blast
  then show ?case
  proof cases
    case 1
    then have "i = ?p" using "1.prems" n by (simp add: bsearch.simps [of _ _ _ num])
    then show ?thesis using 1 n by simp
  next
    case 2
    then have "bsearch key es (?p + 1) ((num - 1) div 2) = Some i" using "1.prems" n by (simp add: bsearch.simps [of _ _ _ num] Let_def)
    from "1.IH"(1) [OF n refl 2 this] show ?thesis by auto
  next
    case 3
    then have "bsearch key es base (num div 2) = Some i" using "1.prems" n by (simp add: bsearch.simps [of _ _ _ num] Let_def)
    from "1.IH"(2) [OF n refl 3 this] show ?thesis by auto
  qed
qed

lemma bsearch_complete:
  assumes "sorted_names es" "base + num \<le> length es" "bsearch key es base num = None" "base \<le> i" "i < base + num"
  shows "be_name (es ! i) \<noteq> key"
  using assms
proof (induction key es base num arbitrary: i rule: bsearch.induct)
  case (1 key es base num)
  let ?p = "base + num div 2"
  have n: "num \<noteq> 0" using "1.prems" by auto
  have p: "?p < base + num" "?p < length es" using n "1.prems" by auto
  have ne: "key \<noteq> be_name (es ! ?p)" using "1.prems"(3) n by (auto simp: bsearch.simps [of _ _ _ num])
  show ?case
  proof (cases "be_name (es ! ?p) < key")
    case True
    then have none: "bsearch key es (?p + 1) ((num - 1) div 2) = None" using "1.prems"(3) n ne by (simp add: bsearch.simps [of _ _ _ num] Let_def)
    show ?thesis
    proof (cases "i \<le> ?p")
      case True
      then show ?thesis using sorted_names_mono [OF "1.prems"(1) True p(2)] \<open>be_name (es ! ?p) < key\<close> by auto
    next
      case False
      have "i < ?p + 1 + (num - 1) div 2" using "1.prems"(5) n by presburger
      then show ?thesis using "1.IH"(1) [OF n refl ne True "1.prems"(1) _ none] False "1.prems"(2) n by auto
    qed
  next
    case F: False
    then have none: "bsearch key es base (num div 2) = None" using "1.prems"(3) n ne by (simp add: bsearch.simps [of _ _ _ num] Let_def)
    show ?thesis
    proof (cases "i < ?p")
      case True
      then show ?thesis using "1.IH"(2) [OF n refl ne F "1.prems"(1) _ none "1.prems"(4)] "1.prems"(2) by simp
    next
      case False
      then have "be_name (es ! ?p) \<le> be_name (es ! i)" using sorted_names_mono [OF "1.prems"(1)] "1.prems"(2,5) by simp
      then show ?thesis using F ne by auto
    qed
  qed
qed

section \<open>Lemmas: one entry of the symbol table\<close>

definition fill :: "bytes \<Rightarrow> u64 \<Rightarrow> batch_entry \<Rightarrow> batch_entry" where
  "fill key addr e = (if be_name e = key \<and> be_addr e = 0 then e\<lparr>be_addr := addr\<rparr> else e)"

definition unresolved :: "batch_entry list \<Rightarrow> int" where
  "unresolved es = int (length (filter (\<lambda>e. be_addr e = 0) es))"

lemma unresolved_simps [simp]:
  "unresolved [] = 0" "unresolved (e # es) = (if be_addr e = 0 then 1 else 0) + unresolved es"
  "unresolved (es @ fs) = unresolved es + unresolved fs"
  by (simp_all add: unresolved_def)

lemma unresolved_zero: "unresolved es = 0 \<longleftrightarrow> (\<forall>e\<in>set es. be_addr e \<noteq> 0)"
  by (auto simp: unresolved_def filter_empty_conv)

lemma fill_name [simp]: "be_name (fill key addr e) = be_name e" "be_idx (fill key addr e) = be_idx e"
  by (simp_all add: fill_def)

lemma fill_other: "\<forall>e\<in>set es. be_name e \<noteq> key \<Longrightarrow> map (fill key addr) es = es"
  by (rule map_idI) (simp add: fill_def)

lemma sorted_after:
  assumes "sorted_names (e # es)" "key \<le> be_name e" "be_name e \<noteq> key"
  shows "\<forall>d\<in>set (e # es). be_name d \<noteq> key"
  using assms by fastforce

lemma fill_run_spec:
  assumes "addr \<noteq> 0" "sorted_names es" "\<forall>e\<in>set es. key \<le> be_name e"
  shows "fill_run key addr es r = (map (fill key addr) es, r - unresolved es + unresolved (map (fill key addr) es))"
  using assms
proof (induction es arbitrary: r)
  case (Cons e es)
  show ?case
  proof (cases "be_name e = key")
    case True
    then show ?thesis using Cons by (auto simp: fill_def)
  next
    case False
    then have "map (fill key addr) (e # es) = e # es"
      using Cons.prems by (intro fill_other sorted_after) simp_all
    then show ?thesis using False by simp
  qed
qed simp

lemma run_start_le: "run_start key es i \<le> i"
  by (induction i) auto

lemma run_start_before:
  assumes "sorted_names es" "i < length es" "be_name (es ! i) = key" "j < run_start key es i"
  shows "be_name (es ! j) \<noteq> key"
  using assms
proof (induction i)
  case (Suc i)
  show ?case
  proof (cases "be_name (es ! i) = key")
    case True
    then show ?thesis using Suc by simp
  next
    case False
    have "be_name (es ! i) \<le> key" using sorted_names_mono [OF Suc.prems(1), of i "Suc i"] Suc.prems(2,3) by simp
    then have lt: "be_name (es ! i) < key" using False by simp
    have "j \<le> i" using Suc.prems(4) False by simp
    then have "be_name (es ! j) \<le> be_name (es ! i)" using sorted_names_mono [OF Suc.prems(1)] Suc.prems(2) by simp
    then show ?thesis using lt by auto
  qed
qed simp

lemma run_start_from:
  "be_name (es ! i) = key \<Longrightarrow> be_name (es ! run_start key es i) = key"
  by (induction i) auto

lemma sorted_drop_ge:
  assumes "sorted_names es" "s < length es" "be_name (es ! s) = key"
  shows "\<forall>e\<in>set (drop s es). key \<le> be_name e"
proof
  fix e assume "e \<in> set (drop s es)"
  then obtain j where "j < length (drop s es)" "e = drop s es ! j" by (metis in_set_conv_nth)
  then have "e = es ! (s + j)" "s + j < length es" by auto
  then show "key \<le> be_name e" using sorted_names_mono [OF assms(1), of s "s + j"] assms(3) by simp
qed

text \<open>The entries of a context are sorted and what remains is what is unresolved.\<close>

definition ctx_ok :: "batch_ctx \<Rightarrow> bool" where
  "ctx_ok ctx \<longleftrightarrow> sorted_names (bc_entries ctx) \<and> bc_remaining ctx = unresolved (bc_entries ctx)"

definition fill_ctx :: "bytes \<Rightarrow> u64 \<Rightarrow> batch_ctx \<Rightarrow> batch_ctx" where
  "fill_ctx key addr ctx = (let es = map (fill key addr) (bc_entries ctx) in
     ctx\<lparr>bc_entries := es, bc_remaining := unresolved es\<rparr>)"

lemma fill_ctx_entries: "bc_entries (fill_ctx key addr ctx) = map (fill key addr) (bc_entries ctx)"
  by (simp add: fill_ctx_def Let_def)

lemma fill_ctx_ok: "ctx_ok ctx \<Longrightarrow> ctx_ok (fill_ctx key addr ctx)"
  by (simp add: ctx_ok_def fill_ctx_def Let_def comp_def)

lemma match_key:
  assumes "ctx_ok ctx" "addr \<noteq> 0" "batch_key c n = Some key"
  shows "\<exists>ret. ksu_batch_match c False (Some n) addr ctx = (ret, fill_ctx key addr ctx) \<and> 0 \<le> ret \<and>
    (ret \<noteq> 0 \<longrightarrow> unresolved (bc_entries (fill_ctx key addr ctx)) = 0)"
proof -
  let ?es = "bc_entries ctx"
  have sorted: "sorted_names ?es" and rem: "bc_remaining ctx = unresolved ?es" using assms(1) by (simp_all add: ctx_ok_def)
  show ?thesis
  proof (cases "bsearch key ?es 0 (length ?es)")
    case None
    have "\<forall>e\<in>set ?es. be_name e \<noteq> key"
      using bsearch_complete [OF sorted _ None] by (auto simp: in_set_conv_nth) blast
    then have "map (fill key addr) ?es = ?es" by (rule fill_other)
    then have "fill_ctx key addr ctx = ctx" by (simp add: fill_ctx_def Let_def rem [symmetric])
    then show ?thesis using None assms(2,3) by (simp add: ksu_batch_match_def)
  next
    case (Some i)
    let ?s = "run_start key ?es i"
    have i: "i < length ?es" "be_name (?es ! i) = key" using bsearch_sound [OF Some] by simp_all
    have s: "?s < length ?es" using run_start_le [of key ?es i] i by simp
    have front: "map (fill key addr) (take ?s ?es) = take ?s ?es"
      using run_start_before [OF sorted i] by (intro fill_other) (auto simp: in_set_conv_nth, blast)
    have sd: "sorted_names (drop ?s ?es)" using sorted by (simp add: drop_map [symmetric])
    note fr = fill_run_spec [OF assms(2) sd sorted_drop_ge [OF sorted s run_start_from [OF i(2)]]]
    have es: "take ?s ?es @ map (fill key addr) (drop ?s ?es) = map (fill key addr) ?es"
      by (metis front append_take_drop_id map_append)
    have r: "bc_remaining ctx - unresolved (drop ?s ?es) + unresolved (map (fill key addr) (drop ?s ?es)) = unresolved (map (fill key addr) ?es)"
      unfolding es [symmetric] unresolved_simps(3) rem by (metis append_take_drop_id unresolved_simps(3) add_diff_cancel_right')
    show ?thesis using assms(2,3) Some
      by (simp add: ksu_batch_match_def Let_def fr es r fill_ctx_def)
  qed
qed

section \<open>Lemmas: the walk\<close>

text \<open>The symbol an entry of the table stands for in a batch, or nothing.\<close>

definition sym_of :: "sym_cfg \<Rightarrow> bytes option \<times> u64 \<times> bool \<Rightarrow> (bytes \<times> u64) option" where
  "sym_of c x = (case x of (name, addr, md) \<Rightarrow>
     if addr = 0 then None else Option.bind name (\<lambda>n. map_option (\<lambda>k. (k, addr)) (batch_key c n)))"

definition walked :: "sym_cfg \<Rightarrow> (bytes option \<times> u64 \<times> bool) list \<Rightarrow> (bytes \<times> u64) list" where
  "walked c syms = List.map_filter (sym_of c) (takeWhile (\<lambda>(name, addr, md). \<not> (sy_mod_arg c \<and> md)) syms)"

text \<open>The reference: the address of the first symbol of a name, or 0.\<close>

definition first_match :: "sym_cfg \<Rightarrow> (bytes option \<times> u64 \<times> bool) list \<Rightarrow> bytes \<Rightarrow> u64" where
  "first_match c syms n = (case map_of (walked c syms) n of None \<Rightarrow> 0 | Some a \<Rightarrow> a)"

definition resolve_with :: "(bytes \<Rightarrow> u64) \<Rightarrow> batch_entry \<Rightarrow> batch_entry" where
  "resolve_with f e = (if be_addr e = 0 then e\<lparr>be_addr := f (be_name e)\<rparr> else e)"

lemma resolve_done: "unresolved es = 0 \<Longrightarrow> map (resolve_with f) es = es"
  unfolding unresolved_zero by (rule map_idI) (simp add: resolve_with_def)

lemma resolve_zero: "map (resolve_with (\<lambda>_. 0)) es = es"
  by (rule map_idI) (simp add: resolve_with_def)

lemma walked_nonzero: "(k, a) \<in> set (walked c syms) \<Longrightarrow> a \<noteq> 0"
  by (auto simp: walked_def map_filter_def sym_of_def Option.bind_eq_Some_conv split: if_splits)

lemma first_match_skip:
  "\<not> (sy_mod_arg c \<and> md) \<Longrightarrow> sym_of c (name, addr, md) = None \<Longrightarrow>
   first_match c ((name, addr, md) # syms) = first_match c syms"
  by (rule ext) (simp add: first_match_def walked_def map_filter_def)

lemma first_match_hit:
  "\<not> (sy_mod_arg c \<and> md) \<Longrightarrow> sym_of c (name, addr, md) = Some (k, a) \<Longrightarrow>
   first_match c ((name, addr, md) # syms) = (\<lambda>n. if n = k then a else first_match c syms n)"
  by (rule ext) (simp add: first_match_def walked_def map_filter_def)

lemma resolve_fill:
  assumes "a \<noteq> 0"
  shows "map (resolve_with f) (map (fill k a) es) = map (resolve_with (\<lambda>n. if n = k then a else f n)) es"
  using assms by (auto simp: resolve_with_def fill_def)

lemma match_none:
  assumes "sym_of c (name, addr, md) = None"
  shows "ksu_batch_match c False name addr ctx = (0, ctx)"
  using assms by (cases name) (auto simp: sym_of_def ksu_batch_match_def split: if_splits)

lemma batch_walk_spec:
  assumes "ctx_ok ctx" "\<And>k. \<not> fatal k"
  shows "0 \<le> fst (batch_walk c fatal k syms ctx) \<and>
    bc_entries (snd (batch_walk c fatal k syms ctx)) = map (resolve_with (first_match c syms)) (bc_entries ctx)"
  using assms(1)
proof (induction syms arbitrary: k ctx)
  case Nil
  then show ?case using resolve_zero by (simp add: first_match_def walked_def map_filter_def)
next
  case (Cons x syms)
  obtain name addr md where x: "x = (name, addr, md)" by (metis prod_cases3)
  show ?case
  proof (cases "sy_mod_arg c \<and> md")
    case True
    then have "first_match c (x # syms) = (\<lambda>_. 0)" by (rule_tac ext) (simp add: first_match_def walked_def map_filter_def x)
    then show ?thesis using True resolve_zero by (simp add: x ksu_batch_cb_def)
  next
    case kernel: False
    show ?thesis
    proof (cases "sym_of c x")
      case None
      then have "ksu_batch_cb c False name md addr ctx = (0, ctx)" "first_match c (x # syms) = first_match c syms"
        using kernel match_none [of c name addr md] first_match_skip [OF kernel] by (auto simp: x ksu_batch_cb_def)
      then show ?thesis using Cons assms(2) by (simp add: x)
    next
      case (Some p)
      obtain key a where p: "p = (key, a)" by fastforce
      obtain n where n: "name = Some n" "batch_key c n = Some key" "a = addr" "addr \<noteq> 0"
        using Some by (auto simp: x p sym_of_def Option.bind_eq_Some_conv split: if_splits)
      obtain ret where m: "ksu_batch_match c False (Some n) addr ctx = (ret, fill_ctx key addr ctx)" "0 \<le> ret"
        "ret \<noteq> 0 \<longrightarrow> unresolved (bc_entries (fill_ctx key addr ctx)) = 0"
        using match_key [OF Cons.prems n(4,2)] by blast
      have step: "map (resolve_with (first_match c syms)) (bc_entries (fill_ctx key addr ctx))
          = map (resolve_with (first_match c (x # syms))) (bc_entries ctx)"
      proof -
        have "first_match c (x # syms) = (\<lambda>n. if n = key then addr else first_match c syms n)"
          using first_match_hit [OF kernel Some [unfolded x p], of syms] unfolding x n(3) .
        then show ?thesis using resolve_fill [OF n(4), of "first_match c syms" key "bc_entries ctx"]
          by (simp only: fill_ctx_entries)
      qed
      have cb: "ksu_batch_cb c (fatal k) name md addr ctx = (ret, fill_ctx key addr ctx)"
        using kernel m(1) n(1) assms(2) by (auto simp: ksu_batch_cb_def)
      show ?thesis
      proof (cases "ret = 0")
        case True
        then have "batch_walk c fatal k (x # syms) ctx = batch_walk c fatal (Suc k) syms (fill_ctx key addr ctx)"
          by (simp add: x cb)
        then show ?thesis using Cons.IH [OF fill_ctx_ok [OF Cons.prems, of key addr], of "Suc k"] step by (simp only:)
      next
        case False
        then have "batch_walk c fatal k (x # syms) ctx = (ret, fill_ctx key addr ctx)" by (simp add: x cb)
        then show ?thesis using resolve_done m(2,3) False step by simp
      qed
    qed
  qed
qed

section \<open>Lemmas: the index\<close>

lemma addr_same: "be_addr e = 0 \<Longrightarrow> e\<lparr>be_addr := 0\<rparr> = e"
  by (cases e) simp

lemma unresolved_all: "\<forall>e\<in>set es. be_addr e = 0 \<Longrightarrow> unresolved es = int (length es)"
  by (simp add: unresolved_def)

lemma indexed_loop_spec:
  assumes "\<forall>k. \<not> fatal k" "\<forall>e\<in>set es. be_addr e = 0" "r = d + unresolved es" "0 \<le> d"
  shows "indexed_loop ks fatal es r = (0, map (resolve_with (ksu_first_match ks)) es, d + unresolved (map (resolve_with (ksu_first_match ks)) es))"
  using assms(2-)
proof (induction "length es" arbitrary: es r d rule: less_induct)
  case (less xs)
  show ?case
  proof (cases xs)
    case Nil
    then show ?thesis using less.prems by simp
  next
    case (Cons e es)
    let ?f = "ksu_first_match ks" and ?p = "\<lambda>d. be_name d = be_name e"
    have e: "be_addr e = 0" and es: "\<forall>d\<in>set es. be_addr d = 0" and rd: "r = d + unresolved (e # es)" "0 \<le> d"
      using less.prems Cons by simp_all
    have r: "r \<noteq> 0" using rd e by (simp add: unresolved_def)
    have "indexed_loop ks fatal (e # es) r = (0, map (resolve_with ?f) (e # es), d + unresolved (map (resolve_with ?f) (e # es)))"
    proof (cases "?f (be_name e) = 0")
      case True
      have "r = (d + 1) + unresolved es" using rd e by simp
      then have ih: "indexed_loop ks fatal es r = (0, map (resolve_with ?f) es, (d + 1) + unresolved (map (resolve_with ?f) es))"
        using less.hyps [of es r "d + 1"] Cons es rd(2) by simp
      have re: "resolve_with ?f e = e" unfolding resolve_with_def True using addr_same [OF e] by simp
      have "indexed_loop ks fatal (e # es) r = (0, e # map (resolve_with ?f) es, (d + 1) + unresolved (map (resolve_with ?f) es))"
        using r e True by (simp add: ih)
      then show ?thesis unfolding list.map re unresolved_simps(2) using e by simp
    next
      case False
      let ?same = "takeWhile ?p es" and ?rest = "dropWhile ?p es"
      have split: "?same @ ?rest = es" by simp
      have rest0: "\<forall>d\<in>set ?rest. be_addr d = 0" using es by (blast dest: set_dropWhileD)
      have same0: "\<forall>d\<in>set ?same. be_addr d = 0 \<and> be_name d = be_name e" using es by (blast dest: set_takeWhileD)
      have member: "be_addr d = 0" "be_name d = be_name e" if "d \<in> set (e # ?same)" for d
        using that same0 e unfolding set_simps by blast+
      have each: "d\<lparr>be_addr := ?f (be_name e)\<rparr> = resolve_with ?f d" if "d \<in> set (e # ?same)" for d
        unfolding resolve_with_def member [OF that] by simp
      have out: "map (\<lambda>d. d\<lparr>be_addr := ?f (be_name e)\<rparr>) (e # ?same) = map (resolve_with ?f) (e # ?same)"
        unfolding map_eq_conv by (blast intro: each)
      have un: "unresolved (map (resolve_with ?f) (e # ?same)) = 0"
        unfolding unresolved_zero out [symmetric] set_map ball_simps(9) using False by simp
      have "\<forall>d\<in>set (e # ?same). be_addr d = 0" using member(1) by blast
      note all = unresolved_all [OF this]
      have "unresolved (e # es) = unresolved ((e # ?same) @ ?rest)" by (simp only: append_Cons split)
      also have "\<dots> = int (length (e # ?same)) + unresolved ?rest"
        unfolding unresolved_simps(3) all ..
      finally have r1: "r - int (length (e # ?same)) = d + unresolved ?rest" using rd(1) by simp
      have ih: "indexed_loop ks fatal ?rest (r - int (length (e # ?same))) =
          (0, map (resolve_with ?f) ?rest, d + unresolved (map (resolve_with ?f) ?rest))"
        by (rule less.hyps [OF _ rest0 r1 rd(2)]) (simp add: Cons le_imp_less_Suc length_dropWhile_le)
      have res: "map (resolve_with ?f) (e # ?same) @ map (resolve_with ?f) ?rest = map (resolve_with ?f) (e # es)"
        by (simp only: map_append [symmetric] append_Cons split)
      have "indexed_loop ks fatal (e # es) r = (0, map (resolve_with ?f) (e # ?same) @ map (resolve_with ?f) ?rest,
          d + unresolved (map (resolve_with ?f) ?rest))"
        unfolding indexed_loop.simps(2) Let_def if_not_P [OF r] out ih using e False assms(1) by simp
      moreover have "unresolved (map (resolve_with ?f) ?rest) = unresolved (map (resolve_with ?f) (e # es))"
        unfolding res [symmetric] unresolved_simps(3) un by simp
      ultimately show ?thesis by (simp only: res)
    qed
    then show ?thesis by (simp only: Cons)
  qed
qed

section \<open>Lemmas: the whole batch\<close>

text \<open>What the kernel's sort promises.\<close>

definition sort_ok :: "(batch_entry list \<Rightarrow> batch_entry list) \<Rightarrow> bool" where
  "sort_ok sorter \<longleftrightarrow> (\<forall>es. mset (sorter es) = mset es \<and> sorted_names (sorter es))"

text \<open>The address of a name: by the index where it has the name, else the first in the walk.\<close>

definition wanted :: "sym_cfg \<Rightarrow> kallsyms \<Rightarrow> bytes \<Rightarrow> u64" where
  "wanted c ks n =
     (if sy_have_match c \<and> ks_match_fn ks \<and> ksu_first_match ks n \<noteq> 0 then ksu_first_match ks n
      else first_match c (ks_syms ks) n)"

lemma resolve_fields [simp]: "be_name (resolve_with f e) = be_name e" "be_idx (resolve_with f e) = be_idx e"
  by (simp_all add: resolve_with_def)

lemma resolve_resolve:
  "resolve_with g (resolve_with f e) = resolve_with (\<lambda>n. if f n \<noteq> 0 then f n else g n) e"
  by (simp add: resolve_with_def)

lemma collect_addr: "e \<in> set (collect i names) \<Longrightarrow> be_addr e = 0"
  by (induction i names rule: collect.induct) auto

lemma idx_cases:
  obtains "(j :: nat) < i" | "j = i" | "j - i = Suc (j - Suc i)" "i < j"
  by (metis Suc_diff_Suc linorder_neqE_nat)

lemma collect_idx:
  "e \<in> set (collect i names) \<longleftrightarrow> i \<le> be_idx e \<and> be_idx e - i < length names \<and> names ! (be_idx e - i) = Some (be_name e) \<and> be_addr e = 0"
proof (induction i names rule: collect.induct)
  case (2 i ns)
  show ?case using "2.IH" by (cases rule: idx_cases [of "be_idx e" i]) auto
next
  case (3 i n ns)
  show ?case using "3.IH" by (cases rule: idx_cases [of "be_idx e" i]; cases e) auto
qed simp

lemma collect_distinct: "distinct (map be_idx (collect i names))"
proof (induction i names rule: collect.induct)
  case (3 i n ns)
  then show ?case using collect_idx by fastforce
qed auto

lemma fold_store_other: "i \<notin> be_idx ` set es \<Longrightarrow> fold (\<lambda>e addrs. addrs[be_idx e := be_addr e]) es xs ! i = xs ! i"
  by (induction es arbitrary: xs) auto

lemma fold_store_length: "length (fold (\<lambda>e addrs. addrs[be_idx e := be_addr e]) es xs) = length xs"
  by (induction es arbitrary: xs) auto

lemma fold_store:
  assumes "distinct (map be_idx es)" "e \<in> set es" "be_idx e < length xs"
  shows "fold (\<lambda>e addrs. addrs[be_idx e := be_addr e]) es xs ! be_idx e = be_addr e"
  using assms
proof (induction es arbitrary: xs)
  case (Cons d es)
  show ?case
  proof (cases "e = d")
    case True
    then show ?thesis using Cons.prems by (simp add: fold_store_other)
  next
    case False
    then show ?thesis using Cons by simp
  qed
qed simp

lemma indexed_phase:
  fixes ks :: kallsyms
  assumes "\<forall>k. \<not> fatal k" "\<forall>e\<in>set es. be_addr e = 0"
  defines "es1 \<equiv> map (resolve_with (\<lambda>n. if ks_match_fn ks then ksu_first_match ks n else 0)) es"
  shows "ksu_batch_lookup_indexed ks fatal \<lparr>bc_entries = es, bc_remaining = int (length es)\<rparr> =
    (0, \<lparr>bc_entries = es1, bc_remaining = unresolved es1\<rparr>)"
proof (cases "ks_match_fn ks")
  case True
  then have "es1 = map (resolve_with (ksu_first_match ks)) es" unfolding es1_def by simp
  then have "indexed_loop ks fatal es (int (length es)) = (0, es1, unresolved es1)"
    using indexed_loop_spec [OF assms(1,2), of "int (length es)" 0 ks] unresolved_all [OF assms(2)] by simp
  then show ?thesis using True by (simp add: ksu_batch_lookup_indexed_def)
next
  case False
  then have "es1 = es" unfolding es1_def using resolve_zero by simp
  then show ?thesis using False unresolved_all [OF assms(2)] by (simp add: ksu_batch_lookup_indexed_def)
qed

lemma walk_phase:
  assumes "\<forall>k. \<not> fatal k" "sorted_names es"
  obtains ret ctx where
    "batch_walk c fatal 0 syms \<lparr>bc_entries = es, bc_remaining = unresolved es\<rparr> = (ret, ctx)" "0 \<le> ret"
    "bc_entries ctx = map (resolve_with (first_match c syms)) es"
proof -
  let ?ctx = "\<lparr>bc_entries = es, bc_remaining = unresolved es\<rparr>"
  have "ctx_ok ?ctx" using assms(2) by (simp add: ctx_ok_def)
  note spec = batch_walk_spec [OF this, of fatal c 0 syms]
  show ?thesis
  proof (cases "batch_walk c fatal 0 syms ?ctx")
    case (Pair ret ctx)
    show ?thesis by (rule that [OF Pair]) (use spec assms(1) Pair in simp_all)
  qed
qed

lemma two_phases:
  "map (resolve_with (first_match c (ks_syms ks)))
     (map (resolve_with (\<lambda>n. if sy_have_match c \<and> ks_match_fn ks then ksu_first_match ks n else 0)) es) =
   map (resolve_with (wanted c ks)) es"
  unfolding list.map_comp comp_def resolve_resolve
  by (rule arg_cong [where f = "\<lambda>f. map (resolve_with f) es"]) (auto simp: wanted_def fun_eq_iff)

lemma lookup_entries:
  assumes "sort_ok sorter" "\<forall>k. \<not> f1 k" "\<forall>k. \<not> f2 k" "sy_always_each c \<or> ks_each_fn ks"
  shows "ksu_lookup_kernel_symbols c ks sorter True True f1 f2 f3 names =
    (let es = map (resolve_with (wanted c ks)) (sorter (collect 0 names)) in
     (int (length (filter (\<lambda>e. be_addr e \<noteq> 0) es)),
      fold (\<lambda>e addrs. addrs[be_idx e := be_addr e]) es (replicate (length names) 0)))"
proof -
  define es where "es = sorter (collect 0 names)"
  define es1 where "es1 = map (resolve_with (\<lambda>n. if sy_have_match c \<and> ks_match_fn ks then ksu_first_match ks n else 0)) es"
  have "set es = set (collect 0 names)" and sorted: "sorted_names es"
    using assms(1) unfolding es_def sort_ok_def by (auto dest: mset_eq_setD)
  then have zero: "\<forall>e\<in>set es. be_addr e = 0" using collect_addr by blast
  let ?ctx0 = "\<lparr>bc_entries = es, bc_remaining = int (length es)\<rparr>" and ?ctx1 = "\<lparr>bc_entries = es1, bc_remaining = unresolved es1\<rparr>"
  have idx: "(if sy_have_match c \<and> length es \<noteq> 0 then ksu_batch_lookup_indexed ks f1 ?ctx0 else (0, ?ctx0)) = (0, ?ctx1)"
  proof (cases "sy_have_match c \<and> length es \<noteq> 0")
    case True
    then show ?thesis unfolding if_P [OF True] indexed_phase [OF assms(2) zero] es1_def by simp
  next
    case False
    then have "es1 = es" unfolding es1_def using resolve_zero by (cases "es = []") auto
    then show ?thesis unfolding if_not_P [OF False] using unresolved_all [OF zero] by simp
  qed
  have "sorted_names es1" using sorted by (simp add: es1_def comp_def)
  then obtain ret ctx2 where w: "batch_walk c f2 0 (ks_syms ks) ?ctx1 = (ret, ctx2)" "0 \<le> ret"
    "bc_entries ctx2 = map (resolve_with (first_match c (ks_syms ks))) es1"
    using walk_phase [OF assms(3)] by blast
  note final = two_phases [of c ks es, folded es1_def]
  note unf = ksu_lookup_kernel_symbols_def es_def [symmetric] Let_def idx
  show ?thesis
  proof (cases "unresolved es1 = 0")
    case True
    then have "es1 = map (resolve_with (wanted c ks)) es" using resolve_done [OF True] final by metis
    then show ?thesis unfolding unf using True by simp
  next
    case False
    then show ?thesis unfolding unf using w final assms(4) by simp
  qed
qed

section \<open>What a batch returns\<close>

lemma stored_addr:
  fixes f :: "bytes \<Rightarrow> u64"
  assumes "sort_ok sorter" "i < length names"
  defines "es \<equiv> map (resolve_with f) (sorter (collect 0 names))"
  shows "fold (\<lambda>e addrs. addrs[be_idx e := be_addr e]) es (replicate (length names) 0) ! i =
    (case names ! i of None \<Rightarrow> 0 | Some n \<Rightarrow> f n)"
proof -
  have m: "mset (sorter (collect 0 names)) = mset (collect 0 names)" using assms(1) by (simp add: sort_ok_def)
  then have "distinct (map be_idx (sorter (collect 0 names)))"
    using collect_distinct [of 0 names] by (metis mset_map mset_eq_imp_distinct_iff)
  then have d: "distinct (map be_idx es)" by (simp add: es_def comp_def)
  have s: "set es = resolve_with f ` set (collect 0 names)" using mset_eq_setD [OF m] by (simp add: es_def)
  show ?thesis
  proof (cases "names ! i")
    case None
    then have "i \<notin> be_idx ` set es" unfolding s by (auto simp: collect_idx)
    then show ?thesis using None assms(2) by (simp add: fold_store_other)
  next
    case (Some n)
    let ?e = "resolve_with f \<lparr>be_name = n, be_addr = 0, be_idx = i\<rparr>"
    have "?e \<in> set es" unfolding s using Some assms(2) by (intro imageI) (simp add: collect_idx)
    from fold_store [OF d this, of "replicate (length names) 0"] show ?thesis
      using Some assms(2) by (simp add: resolve_with_def)
  qed
qed

lemma stored_count:
  assumes "sort_ok sorter"
  shows "length (filter (\<lambda>e. be_addr e \<noteq> 0) (map (resolve_with f) (sorter (collect 0 names)))) =
    card {i. i < length names \<and> (case names ! i of None \<Rightarrow> False | Some n \<Rightarrow> f n \<noteq> 0)}"
proof -
  let ?es = "map (resolve_with f) (sorter (collect 0 names))" and ?p = "\<lambda>e. be_addr e \<noteq> 0"
  have m: "mset (sorter (collect 0 names)) = mset (collect 0 names)" using assms(1) by (simp add: sort_ok_def)
  then have "distinct (map be_idx (sorter (collect 0 names)))"
    using collect_distinct [of 0 names] by (metis mset_map mset_eq_imp_distinct_iff)
  then have d: "distinct (map be_idx (filter ?p ?es))" by (intro distinct_map_filter) (simp add: comp_def)
  have s: "set ?es = resolve_with f ` set (collect 0 names)" using mset_eq_setD [OF m] by simp
  have "be_idx ` set (filter ?p ?es) = {i. i < length names \<and> (case names ! i of None \<Rightarrow> False | Some n \<Rightarrow> f n \<noteq> 0)}" (is "_ = ?I")
  proof (intro set_eqI iffI)
    fix i assume "i \<in> ?I"
    then obtain n where n: "i < length names" "names ! i = Some n" "f n \<noteq> 0" by (auto split: option.splits)
    then have "\<lparr>be_name = n, be_addr = 0, be_idx = i\<rparr> \<in> set (collect 0 names)" by (simp add: collect_idx)
    then have "resolve_with f \<lparr>be_name = n, be_addr = 0, be_idx = i\<rparr> \<in> set ?es" unfolding s by (rule imageI)
    moreover have "?p (resolve_with f \<lparr>be_name = n, be_addr = 0, be_idx = i\<rparr>)" using n by (simp add: resolve_with_def)
    ultimately have "resolve_with f \<lparr>be_name = n, be_addr = 0, be_idx = i\<rparr> \<in> set (filter ?p ?es)" by simp
    then show "i \<in> be_idx ` set (filter ?p ?es)" by (rule image_eqI [rotated]) simp
  next
    fix i assume "i \<in> be_idx ` set (filter ?p ?es)"
    then obtain e where "e \<in> set (collect 0 names)" "?p (resolve_with f e)" "i = be_idx e"
      unfolding set_filter s by auto
    then show "i \<in> ?I" by (auto simp: collect_idx resolve_with_def)
  qed
  then show ?thesis using distinct_card [OF d] by simp
qed


text \<open>Three names on a kernel with the index: one the index has, one only the walk finds under a suffix, and a gap.\<close>

definition demo_sort :: "batch_entry list \<Rightarrow> batch_entry list" where
  "demo_sort = sort_key be_name"

definition demo_ksyms :: kallsyms where
  "demo_ksyms = \<lparr>ks_syms = [(Some (chars ''b$x''), 7, False), (Some (chars ''a''), 9, False)],
     ks_match = (\<lambda>n. if n = chars ''a'' then [9] else []), ks_lookup = (\<lambda>_. 0), ks_is_module = (\<lambda>_. False),
     ks_each_fn = True, ks_match_fn = True\<rparr>"

definition demo_symcfg :: sym_cfg where
  "demo_symcfg = \<lparr>sy_kcfi = False, sy_always_each = True, sy_mod_arg = False, sy_have_match = True, sy_name_len = 512\<rparr>"

lemma demo_sort_ok: "sort_ok demo_sort"
  by (simp add: sort_ok_def demo_sort_def)


end
