(* ===== verification/KSU_Sepolicy.thy ===== *)
theory KSU_Sepolicy
  imports KSU_Prelude
begin

text \<open>
  Editing the SELinux policy (\<open>selinux/sepolicy.c\<close>, \<open>selinux/rules.c\<close>): the operations on a policy database,
  copying it, the rules the module installs, and the batches of commands from user space.

  The hash tables of the policy are lists in the order they are walked; a name is looked up by its first
  entry. A bitmap is the set of its bits. The access vector table is the list of its nodes; a node is
  named by its position. \<open>policydb_write\<close> and \<open>policydb_read\<close>, \<open>sscanf\<close> and the outcome of each
  allocation are parameters, in \<open>pol_env\<close>.
\<close>

section \<open>State\<close>

abbreviation AVTAB_ALLOWED :: u16 where "AVTAB_ALLOWED \<equiv> 0x1"
abbreviation AVTAB_AUDITALLOW :: u16 where "AVTAB_AUDITALLOW \<equiv> 0x2"
abbreviation AVTAB_AUDITDENY :: u16 where "AVTAB_AUDITDENY \<equiv> 0x4"
abbreviation AVTAB_AV :: u16 where "AVTAB_AV \<equiv> 0x7"
abbreviation AVTAB_TRANSITION :: u16 where "AVTAB_TRANSITION \<equiv> 0x10"
abbreviation AVTAB_MEMBER :: u16 where "AVTAB_MEMBER \<equiv> 0x20"
abbreviation AVTAB_CHANGE :: u16 where "AVTAB_CHANGE \<equiv> 0x40"
abbreviation AVTAB_XPERMS_ALLOWED :: u16 where "AVTAB_XPERMS_ALLOWED \<equiv> 0x100"
abbreviation AVTAB_XPERMS_AUDITALLOW :: u16 where "AVTAB_XPERMS_AUDITALLOW \<equiv> 0x200"
abbreviation AVTAB_XPERMS_DONTAUDIT :: u16 where "AVTAB_XPERMS_DONTAUDIT \<equiv> 0x400"
abbreviation AVTAB_XPERMS :: u16 where "AVTAB_XPERMS \<equiv> 0x700"
abbreviation AVTAB_XPERMS_IOCTLFUNCTION :: u8 where "AVTAB_XPERMS_IOCTLFUNCTION \<equiv> 1"
abbreviation AVTAB_XPERMS_IOCTLDRIVER :: u8 where "AVTAB_XPERMS_IOCTLDRIVER \<equiv> 2"
abbreviation POLICYDB_VERSION_XPERMS_IOCTL :: u32 where "POLICYDB_VERSION_XPERMS_IOCTL \<equiv> 30"

record avtab_key =
  ak_source :: u16
  ak_target :: u16
  ak_class :: u16
  ak_specified :: u16

record xperms =
  xp_specified :: u8
  xp_driver :: u8
  xp_perms :: "u32 list"

datatype avtab_datum = AvData u32 | AvXperms xperms

type_synonym avtab = "(avtab_key \<times> avtab_datum) list"

record type_datum =
  td_value :: u32
  td_primary :: u32
  td_attribute :: bool

record constraint_expr =
  ce_is_names :: bool
  ce_type_names :: "nat set"
  ce_names :: "nat set"

record class_datum =
  cd_value :: u32
  cd_perms :: "(bytes \<times> u32) list"
  cd_common :: "(bytes \<times> u32) list option"
  cd_constraints :: "constraint_expr list list"

record ft_datum =
  ftd_stypes :: "nat set"
  ftd_otype :: u32

type_synonym ft_key = "u32 \<times> u16 \<times> bytes"

text \<open>\<open>pd_dangling\<close> is set when a pointer of the database refers to an array that was moved away.\<close>

record policydb =
  pd_types :: "(bytes \<times> type_datum) list"
  pd_nprim :: u32
  pd_classes :: "(bytes \<times> class_datum) list"
  pd_avtab :: avtab
  pd_permissive :: "nat set"
  pd_attr_map :: "nat set list"
  pd_val_struct :: "type_datum list"
  pd_val_name :: "bytes list"
  pd_roles :: "nat set list"
  pd_ft :: "(ft_key \<times> ft_datum list) list"
  pd_ft_count :: u32
  pd_len :: nat
  pd_policyvers :: u32
  pd_netlink_route :: bool
  pd_netlink_getneigh :: bool
  pd_dangling :: bool

record selinux_policy =
  sp_db :: policydb
  sp_latest_granting :: u32

record selinux_state =
  ss_policy :: "selinux_policy option"
  ss_backup :: "selinux_policy option"
  ss_avc_resets :: nat

text \<open>
  \<^item> \<open>pe_insert\<close>: whether a node is allocated for a key in a table; \<open>pe_removed\<close>: whether the table that takes a
    removed node is;
  \<^item> \<open>pe_ebit\<close>: whether setting a bit in a bitmap succeeds;
  \<^item> \<open>pe_type_alloc name k\<close>: the \<open>k\<close>th allocation for a new type; \<open>pe_ft_alloc key k\<close>: the \<open>k\<close>th for a
    transition;
  \<^item> \<open>pe_scan\<close>: \<open>%hx\<close> of \<open>sscanf\<close>, the number and what follows it; \<open>pe_garbage\<close>: what uninitialised
    variables hold;
  \<^item> \<open>pe_write db n\<close>: the code and the bytes written into \<open>n\<close> bytes of space; \<open>pe_read\<close>: the code and
    the database read back.
\<close>

record pol_env =
  pe_insert :: "avtab \<Rightarrow> avtab_key \<Rightarrow> bool"
  pe_removed :: "avtab \<Rightarrow> nat \<Rightarrow> bool"
  pe_ebit :: "nat set \<Rightarrow> nat \<Rightarrow> bool"
  pe_type_alloc :: "bytes \<Rightarrow> nat \<Rightarrow> bool"
  pe_ft_alloc :: "ft_key \<Rightarrow> nat \<Rightarrow> bool"
  pe_scan :: "bytes \<Rightarrow> (u16 \<times> bytes) option"
  pe_garbage :: "u16 \<times> u16"
  pe_vmalloc :: "nat \<Rightarrow> bool"
  pe_kmemdup :: bool
  pe_write :: "policydb \<Rightarrow> nat \<Rightarrow> int \<times> bytes"
  pe_read :: "bytes \<Rightarrow> int \<times> policydb"
  pe_fix_config :: bool
  pe_netlink_config :: bool
  pe_payload_alloc :: bool
  pe_user :: "u64 \<Rightarrow> nat \<Rightarrow> bytes option"
  pe_sidtab_alloc :: bool
  pe_load_isids :: int

section \<open>The access vector table\<close>

fun find_index :: "('a \<Rightarrow> bool) \<Rightarrow> 'a list \<Rightarrow> nat option" where
  "find_index P [] = None"
| "find_index P (x # xs) = (if P x then Some 0 else map_option Suc (find_index P xs))"

definition key_matches :: "avtab_key \<Rightarrow> avtab_key \<Rightarrow> bool" where
  "key_matches key k = (ak_source k = ak_source key \<and> ak_target k = ak_target key \<and> ak_class k = ak_class key \<and>
     ak_specified key AND ak_specified k \<noteq> 0)"

definition avtab_search_node :: "avtab \<Rightarrow> avtab_key \<Rightarrow> nat option" where
  "avtab_search_node t key = find_index (\<lambda>(k, d). key_matches key k) t"

abbreviation is_xperms :: "avtab_key \<Rightarrow> bool" where
  "is_xperms key \<equiv> ak_specified key AND AVTAB_XPERMS \<noteq> 0"

definition same_xperms :: "xperms \<Rightarrow> avtab_datum \<Rightarrow> bool" where
  "same_xperms x d = (case d of
     AvData _ \<Rightarrow> False
   | AvXperms y \<Rightarrow> xp_specified y = xp_specified x \<and> xp_driver y = xp_driver x)"

definition get_avtab_node :: "pol_env \<Rightarrow> avtab_key \<Rightarrow> xperms \<Rightarrow> policydb \<Rightarrow> nat option \<times> policydb" where
  "get_avtab_node e key x db =
     (let node = (if is_xperms key
                  then find_index (\<lambda>(k, d). key_matches key k \<and> same_xperms x d) (pd_avtab db)
                  else avtab_search_node (pd_avtab db) key)
      in case node of
           Some i \<Rightarrow> (Some i, db)
         | None \<Rightarrow>
             let avdatum = (if is_xperms key then AvXperms x
                            else AvData (if ak_specified key = AVTAB_AUDITDENY then - 1 else 0))
             in if \<not> pe_insert e (pd_avtab db) key then (None, db)
                else (Some 0, db\<lparr>pd_avtab := (key, avdatum) # pd_avtab db,
                  pd_len := pd_len db + 8 + 8 + (if is_xperms key then 1 + 1 + 32 else 0)\<rparr>))"

definition is_redundant_avtab_node :: "avtab_key \<times> avtab_datum \<Rightarrow> bool" where
  "is_redundant_avtab_node node = (case node of
     (k, AvXperms x) \<Rightarrow> False
   | (k, AvData d) \<Rightarrow>
       if ak_specified k AND AVTAB_AV = 0 then False
       else if ak_specified k AND AVTAB_AUDITDENY \<noteq> 0 then d = - 1
       else d = 0)"

definition remove_avtab_node :: "pol_env \<Rightarrow> nat \<Rightarrow> policydb \<Rightarrow> bool \<times> policydb" where
  "remove_avtab_node e i db =
     (if \<not> pe_removed e (pd_avtab db) i then (False, db)
      else if i < length (pd_avtab db) then
        let shrink = 8 + (if is_xperms (fst (pd_avtab db ! i)) then 1 + 1 + 32 else 4) in
        (True, db\<lparr>pd_avtab := take i (pd_avtab db) @ drop (Suc i) (pd_avtab db),
                  pd_len := (if shrink \<le> pd_len db then pd_len db - shrink else pd_len db)\<rparr>)
      else (False, db))"

section \<open>Access vector rules\<close>

definition strip_av :: "u16 \<Rightarrow> bool \<Rightarrow> bool" where
  "strip_av effect invert = ((effect = AVTAB_AUDITDENY) = (\<not> invert))"

text \<open>A loop over data of the policy: whether every round succeeded, and the database.\<close>

definition each :: "('a \<Rightarrow> policydb \<Rightarrow> bool \<times> policydb) \<Rightarrow> 'a list \<Rightarrow> policydb \<Rightarrow> bool \<times> policydb" where
  "each f xs db = fold (\<lambda>x (ok, db). case f x db of (r, db1) \<Rightarrow> (ok \<and> r, db1)) xs (True, db)"

definition rule_data :: "bool \<Rightarrow> u32 option \<Rightarrow> u32 \<Rightarrow> u32" where
  "rule_data invert perm d =
     (if invert then (case perm of Some p \<Rightarrow> d AND NOT (push_bit (unat (p - 1)) 1) | None \<Rightarrow> 0)
      else (case perm of Some p \<Rightarrow> d OR push_bit (unat (p - 1)) 1 | None \<Rightarrow> - 1))"

definition av_data :: "avtab_datum \<Rightarrow> u32" where
  "av_data d = (case d of AvData v \<Rightarrow> v | AvXperms _ \<Rightarrow> 0)"

definition no_xperms :: xperms where
  "no_xperms = \<lparr>xp_specified = 0, xp_driver = 0, xp_perms = []\<rparr>"

definition update_node :: "pol_env \<Rightarrow> u32 option \<Rightarrow> bool \<Rightarrow> nat \<Rightarrow> policydb \<Rightarrow> bool \<times> policydb" where
  "update_node e perm invert i db =
     (let (k, d) = pd_avtab db ! i;
          node = (k, AvData (rule_data invert perm (av_data d)));
          db1 = db\<lparr>pd_avtab := (pd_avtab db)[i := node]\<rparr>
      in if is_redundant_avtab_node node then remove_avtab_node e i db1 else (True, db1))"

definition rule_key :: "type_datum \<Rightarrow> type_datum \<Rightarrow> class_datum \<Rightarrow> u16 \<Rightarrow> avtab_key" where
  "rule_key src tgt cls effect = \<lparr>ak_source = ucast (td_value src), ak_target = ucast (td_value tgt),
     ak_class = ucast (cd_value cls), ak_specified = effect\<rparr>"

definition add_rule_node ::
  "pol_env \<Rightarrow> type_datum \<Rightarrow> type_datum \<Rightarrow> u32 option \<Rightarrow> u16 \<Rightarrow> bool \<Rightarrow> class_datum \<Rightarrow> policydb \<Rightarrow> bool \<times> policydb" where
  "add_rule_node e src tgt perm effect invert cls db =
     (let key = rule_key src tgt cls effect in
      if invert \<and> effect \<noteq> AVTAB_AUDITDENY then
        (case avtab_search_node (pd_avtab db) key of
           None \<Rightarrow> (True, db)
         | Some i \<Rightarrow> update_node e perm invert i db)
      else
        (case get_avtab_node e key no_xperms db of
           (None, db1) \<Rightarrow> (False, db1)
         | (Some i, db1) \<Rightarrow> update_node e perm invert i db1))"

text \<open>The types a NULL type stands for.\<close>

definition rule_types :: "policydb \<Rightarrow> u16 \<Rightarrow> bool \<Rightarrow> type_datum list" where
  "rule_types db effect invert =
     (let ts = map snd (pd_types db) in if strip_av effect invert then ts else filter td_attribute ts)"

definition add_rule_class ::
  "pol_env \<Rightarrow> type_datum \<Rightarrow> class_datum option \<Rightarrow> u32 option \<Rightarrow> u16 \<Rightarrow> bool \<Rightarrow> type_datum \<Rightarrow> policydb \<Rightarrow> bool \<times> policydb" where
  "add_rule_class e src cls perm effect invert tgt db = (case cls of
     None \<Rightarrow> each (add_rule_node e src tgt perm effect invert) (map snd (pd_classes db)) db
   | Some c \<Rightarrow> add_rule_node e src tgt perm effect invert c db)"

definition add_rule_target ::
  "pol_env \<Rightarrow> type_datum option \<Rightarrow> class_datum option \<Rightarrow> u32 option \<Rightarrow> u16 \<Rightarrow> bool \<Rightarrow> type_datum \<Rightarrow> policydb \<Rightarrow> bool \<times> policydb" where
  "add_rule_target e tgt cls perm effect invert src db = (case tgt of
     None \<Rightarrow> each (add_rule_class e src cls perm effect invert) (rule_types db effect invert) db
   | Some t \<Rightarrow> add_rule_class e src cls perm effect invert t db)"

definition add_rule_raw ::
  "pol_env \<Rightarrow> type_datum option \<Rightarrow> type_datum option \<Rightarrow> class_datum option \<Rightarrow> u32 option \<Rightarrow> u16 \<Rightarrow> bool \<Rightarrow> policydb \<Rightarrow> bool \<times> policydb" where
  "add_rule_raw e src tgt cls perm effect invert db = (case src of
     None \<Rightarrow> each (add_rule_target e tgt cls perm effect invert) (rule_types db effect invert) db
   | Some s \<Rightarrow> add_rule_target e tgt cls perm effect invert s db)"

text \<open>Looking an optional name up: nothing where it is given and absent.\<close>

definition look :: "('k \<times> 'v) list \<Rightarrow> 'k option \<Rightarrow> 'v option option" where
  "look tab n = (case n of None \<Rightarrow> Some None | Some k \<Rightarrow> map_option Some (map_of tab k))"

definition look_perm :: "class_datum option \<Rightarrow> bytes option \<Rightarrow> u32 option option" where
  "look_perm cls p = (case p of
     None \<Rightarrow> Some None
   | Some n \<Rightarrow>
       (case cls of
          None \<Rightarrow> None
        | Some c \<Rightarrow>
            (case map_of (cd_perms c) n of
               Some v \<Rightarrow> Some (Some v)
             | None \<Rightarrow>
                 (case cd_common c of
                    None \<Rightarrow> None
                  | Some com \<Rightarrow> map_option Some (map_of com n)))))"

definition add_rule ::
  "pol_env \<Rightarrow> bytes option \<Rightarrow> bytes option \<Rightarrow> bytes option \<Rightarrow> bytes option \<Rightarrow> u16 \<Rightarrow> bool \<Rightarrow> policydb \<Rightarrow> bool \<times> policydb" where
  "add_rule e s t c p effect invert db =
     (case look (pd_types db) s of
        None \<Rightarrow> (False, db)
      | Some src \<Rightarrow>
          (case look (pd_types db) t of
             None \<Rightarrow> (False, db)
           | Some tgt \<Rightarrow>
               (case look (pd_classes db) c of
                  None \<Rightarrow> (False, db)
                | Some cls \<Rightarrow>
                    (case look_perm cls p of
                       None \<Rightarrow> (False, db)
                     | Some perm \<Rightarrow> add_rule_raw e src tgt cls perm effect invert db))))"

definition ksu_allow :: "pol_env \<Rightarrow> bytes option \<Rightarrow> bytes option \<Rightarrow> bytes option \<Rightarrow> bytes option \<Rightarrow> policydb \<Rightarrow> bool \<times> policydb" where
  "ksu_allow e src tgt cls perm = add_rule e src tgt cls perm AVTAB_ALLOWED False"

definition ksu_deny :: "pol_env \<Rightarrow> bytes option \<Rightarrow> bytes option \<Rightarrow> bytes option \<Rightarrow> bytes option \<Rightarrow> policydb \<Rightarrow> bool \<times> policydb" where
  "ksu_deny e src tgt cls perm = add_rule e src tgt cls perm AVTAB_ALLOWED True"

definition ksu_auditallow :: "pol_env \<Rightarrow> bytes option \<Rightarrow> bytes option \<Rightarrow> bytes option \<Rightarrow> bytes option \<Rightarrow> policydb \<Rightarrow> bool \<times> policydb" where
  "ksu_auditallow e src tgt cls perm = add_rule e src tgt cls perm AVTAB_AUDITALLOW False"

definition ksu_dontaudit :: "pol_env \<Rightarrow> bytes option \<Rightarrow> bytes option \<Rightarrow> bytes option \<Rightarrow> bytes option \<Rightarrow> policydb \<Rightarrow> bool \<times> policydb" where
  "ksu_dontaudit e src tgt cls perm = add_rule e src tgt cls perm AVTAB_AUDITDENY True"

section \<open>Extended permissions\<close>

definition ioctl_driver :: "u16 \<Rightarrow> nat" where
  "ioctl_driver x = unat (drop_bit 8 x AND 0xFF)"

definition ioctl_func :: "u16 \<Rightarrow> nat" where
  "ioctl_func x = unat (x AND 0xFF)"

definition xperm_set :: "nat \<Rightarrow> u32 list \<Rightarrow> u32 list" where
  "xperm_set x p = p[x div 32 := p ! (x div 32) OR push_bit (x mod 32) 1]"

definition xperm_clear :: "nat \<Rightarrow> u32 list \<Rightarrow> u32 list" where
  "xperm_clear x p = p[x div 32 := p ! (x div 32) AND NOT (push_bit (x mod 32) 1)]"

definition rule_xperms :: "u16 \<Rightarrow> u16 \<Rightarrow> bool \<Rightarrow> xperms" where
  "rule_xperms low high invert =
     (let drv = (ioctl_driver low \<noteq> ioctl_driver high);
          lo = (if drv then ioctl_driver low else ioctl_func low);
          hi = (if drv then ioctl_driver high else ioctl_func high)
      in \<lparr>xp_specified = (if drv then AVTAB_XPERMS_IOCTLDRIVER else AVTAB_XPERMS_IOCTLFUNCTION),
          xp_driver = (if drv then 0 else of_nat (ioctl_driver low)),
          xp_perms = fold (\<lambda>i p. if invert then xperm_clear i p else xperm_set i p) [lo..<Suc hi] (replicate 8 0)\<rparr>)"

definition merge_xperms :: "xperms \<Rightarrow> avtab_datum \<Rightarrow> avtab_datum" where
  "merge_xperms x d = (case d of
     AvData v \<Rightarrow> AvData v
   | AvXperms y \<Rightarrow> AvXperms (y\<lparr>xp_perms := map2 (\<lambda>a b. a OR b) (xp_perms y) (xp_perms x)\<rparr>))"

definition add_xperm_node ::
  "pol_env \<Rightarrow> type_datum \<Rightarrow> type_datum \<Rightarrow> u16 \<Rightarrow> u16 \<Rightarrow> u16 \<Rightarrow> bool \<Rightarrow> class_datum \<Rightarrow> policydb \<Rightarrow> bool \<times> policydb" where
  "add_xperm_node e src tgt low high effect invert cls db =
     (let key = rule_key src tgt cls effect; x = rule_xperms low high invert in
      case get_avtab_node e key x db of
        (None, db1) \<Rightarrow> (True, db1)
      | (Some i, db1) \<Rightarrow>
          (True, db1\<lparr>pd_avtab := (pd_avtab db1)[i := (fst (pd_avtab db1 ! i), merge_xperms x (snd (pd_avtab db1 ! i)))]\<rparr>))"

definition attributes :: "policydb \<Rightarrow> type_datum list" where
  "attributes db = filter td_attribute (map snd (pd_types db))"

definition add_xperm_class ::
  "pol_env \<Rightarrow> type_datum \<Rightarrow> class_datum option \<Rightarrow> u16 \<Rightarrow> u16 \<Rightarrow> u16 \<Rightarrow> bool \<Rightarrow> type_datum \<Rightarrow> policydb \<Rightarrow> bool \<times> policydb" where
  "add_xperm_class e src cls low high effect invert tgt db = (case cls of
     None \<Rightarrow> each (add_xperm_node e src tgt low high effect invert) (map snd (pd_classes db)) db
   | Some c \<Rightarrow> add_xperm_node e src tgt low high effect invert c db)"

definition add_xperm_target ::
  "pol_env \<Rightarrow> type_datum option \<Rightarrow> class_datum option \<Rightarrow> u16 \<Rightarrow> u16 \<Rightarrow> u16 \<Rightarrow> bool \<Rightarrow> type_datum \<Rightarrow> policydb \<Rightarrow> bool \<times> policydb" where
  "add_xperm_target e tgt cls low high effect invert src db = (case tgt of
     None \<Rightarrow> each (add_xperm_class e src cls low high effect invert) (attributes db) db
   | Some t \<Rightarrow> add_xperm_class e src cls low high effect invert t db)"

definition add_xperm_rule_raw ::
  "pol_env \<Rightarrow> type_datum option \<Rightarrow> type_datum option \<Rightarrow> class_datum option \<Rightarrow> u16 \<Rightarrow> u16 \<Rightarrow> u16 \<Rightarrow> bool \<Rightarrow> policydb \<Rightarrow> policydb" where
  "add_xperm_rule_raw e src tgt cls low high effect invert db = snd (case src of
     None \<Rightarrow> each (add_xperm_target e tgt cls low high effect invert) (attributes db) db
   | Some s \<Rightarrow> add_xperm_target e tgt cls low high effect invert s db)"

text \<open>A range that does not scan leaves the variables as they were.\<close>

definition scan_range :: "pol_env \<Rightarrow> bytes option \<Rightarrow> u16 \<times> u16" where
  "scan_range e rng = (case rng of
     None \<Rightarrow> (0, 0xFFFF)
   | Some r \<Rightarrow>
       (case pe_scan e r of
          None \<Rightarrow> if 45 \<in> set r then pe_garbage e else (fst (pe_garbage e), fst (pe_garbage e))
        | Some (low, rest) \<Rightarrow>
            if 45 \<in> set r then
              (case rest of
                 [] \<Rightarrow> (low, snd (pe_garbage e))
               | c # rest1 \<Rightarrow>
                   if c = 45 then (case pe_scan e rest1 of None \<Rightarrow> (low, snd (pe_garbage e)) | Some (high, _) \<Rightarrow> (low, high))
                   else (low, snd (pe_garbage e)))
            else (low, low)))"

definition add_xperm_rule ::
  "pol_env \<Rightarrow> bytes option \<Rightarrow> bytes option \<Rightarrow> bytes option \<Rightarrow> bytes option \<Rightarrow> u16 \<Rightarrow> bool \<Rightarrow> policydb \<Rightarrow> bool \<times> policydb" where
  "add_xperm_rule e s t c rng effect invert db =
     (case look (pd_types db) s of
        None \<Rightarrow> (False, db)
      | Some src \<Rightarrow>
          (case look (pd_types db) t of
             None \<Rightarrow> (False, db)
           | Some tgt \<Rightarrow>
               (case look (pd_classes db) c of
                  None \<Rightarrow> (False, db)
                | Some cls \<Rightarrow>
                    (case scan_range e rng of (low, high) \<Rightarrow>
                       (True, add_xperm_rule_raw e src tgt cls low high effect invert db)))))"

definition ksu_allowxperm :: "pol_env \<Rightarrow> bytes option \<Rightarrow> bytes option \<Rightarrow> bytes option \<Rightarrow> bytes option \<Rightarrow> policydb \<Rightarrow> bool \<times> policydb" where
  "ksu_allowxperm e src tgt cls rng = add_xperm_rule e src tgt cls rng AVTAB_XPERMS_ALLOWED False"

definition ksu_auditallowxperm :: "pol_env \<Rightarrow> bytes option \<Rightarrow> bytes option \<Rightarrow> bytes option \<Rightarrow> bytes option \<Rightarrow> policydb \<Rightarrow> bool \<times> policydb" where
  "ksu_auditallowxperm e src tgt cls rng = add_xperm_rule e src tgt cls rng AVTAB_XPERMS_AUDITALLOW False"

definition ksu_dontauditxperm :: "pol_env \<Rightarrow> bytes option \<Rightarrow> bytes option \<Rightarrow> bytes option \<Rightarrow> bytes option \<Rightarrow> policydb \<Rightarrow> bool \<times> policydb" where
  "ksu_dontauditxperm e src tgt cls rng = add_xperm_rule e src tgt cls rng AVTAB_XPERMS_DONTAUDIT False"

section \<open>Type rules and filename transitions\<close>

definition add_type_rule ::
  "pol_env \<Rightarrow> bytes \<Rightarrow> bytes \<Rightarrow> bytes \<Rightarrow> bytes \<Rightarrow> u16 \<Rightarrow> policydb \<Rightarrow> bool \<times> policydb" where
  "add_type_rule e s t c d effect db =
     (case (map_of (pd_types db) s, map_of (pd_types db) t, map_of (pd_classes db) c, map_of (pd_types db) d) of
        (Some src, Some tgt, Some cls, Some def) \<Rightarrow>
          (case get_avtab_node e (rule_key src tgt cls effect) no_xperms db of
             (None, db1) \<Rightarrow> (False, db1)
           | (Some i, db1) \<Rightarrow>
               (True, db1\<lparr>pd_avtab := (pd_avtab db1)[i := (fst (pd_avtab db1 ! i), AvData (td_value def))]\<rparr>))
      | _ \<Rightarrow> (False, db))"

definition bit_of :: "u32 \<Rightarrow> nat" where
  "bit_of v = unat (v - 1)"

text \<open>The walk along the transitions of a key: the chain with the type of a duplicate overwritten, the
  position of the entry with the wanted type, or neither.\<close>

datatype ft_found = FtDuplicate "ft_datum list" | FtSame nat | FtNone

fun ft_walk :: "nat \<Rightarrow> u32 \<Rightarrow> ft_datum list \<Rightarrow> ft_found" where
  "ft_walk b otype [] = FtNone"
| "ft_walk b otype (x # xs) =
     (if b \<in> ftd_stypes x then FtDuplicate (x\<lparr>ftd_otype := otype\<rparr> # xs)
      else if ftd_otype x = otype then FtSame 0
      else (case ft_walk b otype xs of
              FtDuplicate ys \<Rightarrow> FtDuplicate (x # ys)
            | FtSame i \<Rightarrow> FtSame (Suc i)
            | FtNone \<Rightarrow> FtNone))"

definition set_chain :: "ft_key \<Rightarrow> ft_datum list \<Rightarrow> policydb \<Rightarrow> policydb" where
  "set_chain key chain db = db\<lparr>pd_ft := map (\<lambda>(k, c). if k = key then (k, chain) else (k, c)) (pd_ft db)\<rparr>"

definition ebitmap_set :: "pol_env \<Rightarrow> nat set \<Rightarrow> nat \<Rightarrow> bool \<times> nat set" where
  "ebitmap_set e s i = (if pe_ebit e s i then (True, insert i s) else (False, s))"

text \<open>\<open>hashtab_insert\<close> refuses a key that is present.\<close>

definition add_filename_trans ::
  "pol_env \<Rightarrow> bytes \<Rightarrow> bytes \<Rightarrow> bytes \<Rightarrow> bytes \<Rightarrow> bytes \<Rightarrow> policydb \<Rightarrow> bool \<times> policydb" where
  "add_filename_trans e s t c d oname db =
     (case (map_of (pd_types db) s, map_of (pd_types db) t, map_of (pd_classes db) c, map_of (pd_types db) d) of
        (Some src, Some tgt, Some cls, Some def) \<Rightarrow>
          let key = (td_value tgt, ucast (cd_value cls), oname);
              b = bit_of (td_value src);
              old = map_of (pd_ft db) key;
              chain = (case old of None \<Rightarrow> [] | Some ch \<Rightarrow> ch)
          in (case ft_walk b (td_value def) chain of
                FtDuplicate ch \<Rightarrow> (True, set_chain key ch db)
              | FtSame i \<Rightarrow>
                  (case ebitmap_set e (ftd_stypes (chain ! i)) b of (ok, st) \<Rightarrow>
                     (ok, (set_chain key (chain[i := (chain ! i)\<lparr>ftd_stypes := st\<rparr>]) db)\<lparr>pd_ft_count := pd_ft_count db + 1\<rparr>))
              | FtNone \<Rightarrow>
                  if \<not> (pe_ft_alloc e key 0 \<and> pe_ft_alloc e key 1 \<and> pe_ft_alloc e key 2) then (False, db)
                  else if old \<noteq> None \<or> \<not> pe_ft_alloc e key 3 then (False, db)
                  else (case ebitmap_set e {} b of (ok, st) \<Rightarrow>
                     (ok, db\<lparr>pd_ft := (key, [\<lparr>ftd_stypes = st, ftd_otype = td_value def\<rparr>]) # pd_ft db,
                             pd_ft_count := pd_ft_count db + 1\<rparr>)))
      | _ \<Rightarrow> (False, db))"

definition ksu_type_transition ::
  "pol_env \<Rightarrow> bytes \<Rightarrow> bytes \<Rightarrow> bytes \<Rightarrow> bytes \<Rightarrow> bytes option \<Rightarrow> policydb \<Rightarrow> bool \<times> policydb" where
  "ksu_type_transition e src tgt cls def obj = (case obj of
     Some oname \<Rightarrow> add_filename_trans e src tgt cls def oname
   | None \<Rightarrow> add_type_rule e src tgt cls def AVTAB_TRANSITION)"

definition ksu_type_change :: "pol_env \<Rightarrow> bytes \<Rightarrow> bytes \<Rightarrow> bytes \<Rightarrow> bytes \<Rightarrow> policydb \<Rightarrow> bool \<times> policydb" where
  "ksu_type_change e src tgt cls def = add_type_rule e src tgt cls def AVTAB_CHANGE"

definition ksu_type_member :: "pol_env \<Rightarrow> bytes \<Rightarrow> bytes \<Rightarrow> bytes \<Rightarrow> bytes \<Rightarrow> policydb \<Rightarrow> bool \<times> policydb" where
  "ksu_type_member e src tgt cls def = add_type_rule e src tgt cls def AVTAB_MEMBER"

definition add_genfscon :: "bytes \<Rightarrow> bytes \<Rightarrow> bytes \<Rightarrow> policydb \<Rightarrow> bool \<times> policydb" where
  "add_genfscon fs_name path context db = (False, db)"

definition ksu_genfscon :: "bytes \<Rightarrow> bytes \<Rightarrow> bytes \<Rightarrow> policydb \<Rightarrow> bool \<times> policydb" where
  "ksu_genfscon = add_genfscon"

section \<open>Types and attributes\<close>

text \<open>Writing the element \<open>i\<close> of an array that has just been grown to hold it.\<close>

definition put_at :: "nat \<Rightarrow> 'a \<Rightarrow> 'a \<Rightarrow> 'a list \<Rightarrow> 'a list" where
  "put_at i x d xs = (xs @ replicate (Suc i - length xs) d)[i := x]"

text \<open>A failure after the first array was moved leaves the database with a pointer to freed memory.\<close>

definition add_type :: "pol_env \<Rightarrow> bytes \<Rightarrow> bool \<Rightarrow> policydb \<Rightarrow> bool \<times> policydb" where
  "add_type e type_name attr db =
     (if map_of (pd_types db) type_name \<noteq> None then (True, db)
      else
        let value = pd_nprim db + 1;
            db1 = db\<lparr>pd_nprim := value\<rparr>;
            type = \<lparr>td_value = value, td_primary = 1, td_attribute = attr\<rparr>;
            ok = pe_type_alloc e type_name
        in if \<not> (ok 0 \<and> ok 1 \<and> ok 2) then (False, db1)
           else
             let db2 = db1\<lparr>pd_types := (type_name, type) # pd_types db1\<rparr> in
             if \<not> ok 3 then (False, db2)
             else if \<not> (ok 4 \<and> ok 5) then (False, db2\<lparr>pd_dangling := True\<rparr>)
             else
               let i = bit_of value in
               (True, db2\<lparr>pd_attr_map := put_at i (snd (ebitmap_set e {} i)) {} (pd_attr_map db2),
                         pd_val_struct := put_at i type type (pd_val_struct db2),
                         pd_val_name := put_at i type_name [] (pd_val_name db2),
                         pd_roles := map (\<lambda>r. snd (ebitmap_set e r i)) (pd_roles db2)\<rparr>))"

text \<open>With a NULL name the state of every type is set and failures are only logged.\<close>

definition set_permissive :: "pol_env \<Rightarrow> bool \<Rightarrow> type_datum \<Rightarrow> policydb \<Rightarrow> bool \<times> policydb" where
  "set_permissive e permissive type db =
     (let v = unat (td_value type) in
      if permissive then
        (case ebitmap_set e (pd_permissive db) v of (ok, s) \<Rightarrow> (ok, db\<lparr>pd_permissive := s\<rparr>))
      else (True, db\<lparr>pd_permissive := pd_permissive db - {v}\<rparr>))"

definition set_type_state :: "pol_env \<Rightarrow> bytes option \<Rightarrow> bool \<Rightarrow> policydb \<Rightarrow> bool \<times> policydb" where
  "set_type_state e type_name permissive db = (case type_name of
     None \<Rightarrow> (True, snd (each (set_permissive e permissive) (map snd (pd_types db)) db))
   | Some n \<Rightarrow>
       (case map_of (pd_types db) n of
          None \<Rightarrow> (False, db)
        | Some type \<Rightarrow> set_permissive e permissive type db))"

definition add_typeattribute_raw :: "pol_env \<Rightarrow> type_datum \<Rightarrow> type_datum \<Rightarrow> policydb \<Rightarrow> policydb" where
  "add_typeattribute_raw e type attr db =
     (let t = bit_of (td_value type); a = bit_of (td_value attr);
          expr = (\<lambda>x. if ce_is_names x \<and> a \<in> ce_type_names x then x\<lparr>ce_names := snd (ebitmap_set e (ce_names x) t)\<rparr> else x)
      in db\<lparr>pd_attr_map := (pd_attr_map db)[t := snd (ebitmap_set e (pd_attr_map db ! t) a)],
            pd_classes := map (\<lambda>(n, c). (n, c\<lparr>cd_constraints := map (map expr) (cd_constraints c)\<rparr>)) (pd_classes db)\<rparr>)"

definition add_typeattribute :: "pol_env \<Rightarrow> bytes \<Rightarrow> bytes \<Rightarrow> policydb \<Rightarrow> bool \<times> policydb" where
  "add_typeattribute e type attr db =
     (case map_of (pd_types db) type of
        None \<Rightarrow> (False, db)
      | Some type_d \<Rightarrow>
          if td_attribute type_d then (False, db)
          else
            (case map_of (pd_types db) attr of
               None \<Rightarrow> (False, db)
             | Some attr_d \<Rightarrow>
                 if \<not> td_attribute attr_d then (False, db)
                 else (True, add_typeattribute_raw e type_d attr_d db)))"

definition ksu_typeattribute :: "pol_env \<Rightarrow> bytes \<Rightarrow> bytes \<Rightarrow> policydb \<Rightarrow> bool \<times> policydb" where
  "ksu_typeattribute = add_typeattribute"

definition ksu_type :: "pol_env \<Rightarrow> bytes \<Rightarrow> bytes \<Rightarrow> policydb \<Rightarrow> bool \<times> policydb" where
  "ksu_type e name attr db =
     (case add_type e name False db of (ok, db1) \<Rightarrow> if ok then add_typeattribute e name attr db1 else (False, db1))"

definition ksu_attribute :: "pol_env \<Rightarrow> bytes \<Rightarrow> policydb \<Rightarrow> bool \<times> policydb" where
  "ksu_attribute e name = add_type e name True"

definition ksu_permissive :: "pol_env \<Rightarrow> bytes \<Rightarrow> policydb \<Rightarrow> bool \<times> policydb" where
  "ksu_permissive e type = set_type_state e (Some type) True"

definition ksu_enforce :: "pol_env \<Rightarrow> bytes \<Rightarrow> policydb \<Rightarrow> bool \<times> policydb" where
  "ksu_enforce e type = set_type_state e (Some type) False"

definition ksu_exists :: "policydb \<Rightarrow> bytes \<Rightarrow> bool" where
  "ksu_exists db type = (map_of (pd_types db) type \<noteq> None)"

section \<open>Copying a policy\<close>

abbreviation POLICYDB_CONFIG_ANDROID_NETLINK_ROUTE :: u32 where "POLICYDB_CONFIG_ANDROID_NETLINK_ROUTE \<equiv> 0x80000000"
abbreviation POLICYDB_CONFIG_ANDROID_NETLINK_GETNEIGH :: u32 where "POLICYDB_CONFIG_ANDROID_NETLINK_GETNEIGH \<equiv> 0x40000000"
abbreviation kConfigOff :: nat where "kConfigOff \<equiv> 20"

definition fix_config :: "pol_env \<Rightarrow> policydb \<Rightarrow> bytes \<Rightarrow> bytes" where
  "fix_config e db data =
     (if pe_fix_config e \<and> kConfigOff + 4 \<le> length data then
        let c0 = bytes_u32 (field kConfigOff 4 data);
            c1 = (if pe_netlink_config e \<and> pd_netlink_route db then c0 OR POLICYDB_CONFIG_ANDROID_NETLINK_ROUTE else c0);
            c2 = (if pe_netlink_config e \<and> pd_netlink_getneigh db then c1 OR POLICYDB_CONFIG_ANDROID_NETLINK_GETNEIGH else c1)
        in take kConfigOff data @ u32_bytes c2 @ drop (kConfigOff + 4) data
      else data)"

definition ksu_dup_sepolicy :: "pol_env \<Rightarrow> selinux_policy \<Rightarrow> int + selinux_policy" where
  "ksu_dup_sepolicy e old_pol =
     (let db = sp_db old_pol;
          len = pd_len db + unat (pd_nprim db) * (4 + 8)
      in if \<not> pe_vmalloc e len then Inl (- ENOMEM)
         else (case pe_write e db len of (ret, data) \<Rightarrow>
           if ret \<noteq> 0 then Inl ret
           else if \<not> pe_kmemdup e then Inl (- ENOMEM)
           else (case pe_read e (fix_config e db data) of (ret1, db1) \<Rightarrow>
             if ret1 \<noteq> 0 then Inl ret1
             else Inr (old_pol\<lparr>sp_db := db1\<lparr>pd_len := length data\<rparr>\<rparr>))))"

abbreviation KSU_SEPOL_SYNC_MAX_BUF :: nat where "KSU_SEPOL_SYNC_MAX_BUF \<equiv> 0x4000000"
abbreviation KSU_SEPOL_SYNC_SLACK :: nat where "KSU_SEPOL_SYNC_SLACK \<equiv> 0x40000"
abbreviation KSU_SEPOL_SYNC_MAX_TRIES :: nat where "KSU_SEPOL_SYNC_MAX_TRIES \<equiv> 4"

text \<open>The rounds that are left, the size of the buffer and the code of the last round.\<close>

fun sync_loop :: "pol_env \<Rightarrow> policydb \<Rightarrow> nat \<Rightarrow> nat \<Rightarrow> int \<Rightarrow> int \<times> policydb" where
  "sync_loop e db 0 cap ret = (ret, db)"
| "sync_loop e db (Suc n) cap ret =
     (if cap > KSU_SEPOL_SYNC_MAX_BUF then (ret, db)
      else if \<not> pe_vmalloc e cap then (- ENOMEM, db)
      else (case pe_write e db cap of (ret1, data) \<Rightarrow>
        if ret1 = 0 then (0, db\<lparr>pd_len := length data\<rparr>)
        else if ret1 \<noteq> - EINVAL then (ret1, db)
        else sync_loop e db n (cap * 2) ret1))"

definition ksu_policydb_sync_len :: "pol_env \<Rightarrow> policydb \<Rightarrow> int \<times> policydb" where
  "ksu_policydb_sync_len e db =
     (if pd_len db + KSU_SEPOL_SYNC_SLACK > KSU_SEPOL_SYNC_MAX_BUF then (- E2BIG, db)
      else sync_loop e db KSU_SEPOL_SYNC_MAX_TRIES (pd_len db + KSU_SEPOL_SYNC_SLACK) (- EINVAL))"

definition ksu_policydb_fixup_len :: "pol_env \<Rightarrow> policydb \<Rightarrow> int \<times> policydb" where
  "ksu_policydb_fixup_len e db =
     (case ksu_policydb_sync_len e db of (ret, db1) \<Rightarrow>
        if ret \<noteq> 0 then (ret, db1\<lparr>pd_len := pd_len db1 + KSU_SEPOL_SYNC_SLACK\<rparr>) else (ret, db1))"

text \<open>The end of both editors of the policy: the copy is published and the cache of decisions emptied.\<close>

definition reset_avc_cache :: "selinux_state \<Rightarrow> selinux_state" where
  "reset_avc_cache st = st\<lparr>ss_avc_resets := Suc (ss_avc_resets st)\<rparr>"

definition publish :: "pol_env \<Rightarrow> selinux_policy \<Rightarrow> policydb \<Rightarrow> selinux_state \<Rightarrow> selinux_state" where
  "publish e pol db st =
     reset_avc_cache (st\<lparr>ss_policy := Some (pol\<lparr>sp_db := snd (ksu_policydb_fixup_len e db)\<rparr>)\<rparr>)"

section \<open>The rules of the module\<close>

definition KERNEL_SU_DOMAIN :: bytes where "KERNEL_SU_DOMAIN = chars ''ksu''"
definition KERNEL_SU_FILE :: bytes where "KERNEL_SU_FILE = chars ''ksu_file''"

definition run_rules :: "(policydb \<Rightarrow> bool \<times> policydb) list \<Rightarrow> policydb \<Rightarrow> policydb" where
  "run_rules rules db = fold (\<lambda>r db. snd (r db)) rules db"

definition allow_rules :: "pol_env \<Rightarrow> string \<Rightarrow> (string \<times> string) list \<Rightarrow> (policydb \<Rightarrow> bool \<times> policydb) list" where
  "allow_rules e src ps =
     map (\<lambda>(c, p). ksu_allow e (Some (chars src)) (Some KERNEL_SU_DOMAIN) (Some (chars c)) (Some (chars p))) ps"

definition kernelsu_rules :: "pol_env \<Rightarrow> policydb \<Rightarrow> policydb" where
  "kernelsu_rules e db =
     (let su = KERNEL_SU_DOMAIN; fl = KERNEL_SU_FILE;
          db1 = run_rules
            [ksu_type e su (chars ''domain''), ksu_permissive e su,
             ksu_typeattribute e su (chars ''mlstrustedsubject''), ksu_typeattribute e su (chars ''netdomain''),
             ksu_typeattribute e su (chars ''bluetoothdomain''),
             ksu_type e fl (chars ''file_type''), ksu_typeattribute e fl (chars ''mlstrustedobject''),
             ksu_allow e (Some (chars ''domain'')) (Some fl) None None,
             ksu_allow e (Some su) None None None] db;
          db2 = (if pd_policyvers db1 \<ge> POLICYDB_VERSION_XPERMS_IOCTL then
                   run_rules (map (\<lambda>c. ksu_allowxperm e (Some su) None (Some (chars c)) None)
                     [''blk_file'', ''fifo_file'', ''chr_file'', ''file'']) db1
                 else db1)
      in run_rules
           ([ksu_allow e (Some (chars ''init'')) (Some su) None None] @
            allow_rules e ''servicemanager'' [(''dir'', ''search''), (''dir'', ''read''), (''file'', ''open''), (''file'', ''read''),
              (''process'', ''getattr'')] @
            allow_rules e ''domain'' [(''process'', ''sigchld'')] @
            allow_rules e ''logd'' [(''dir'', ''search''), (''file'', ''read''), (''file'', ''open''), (''file'', ''getattr'')] @
            allow_rules e ''domain'' [(''fd'', ''use''), (''fifo_file'', ''write''), (''fifo_file'', ''read''), (''fifo_file'', ''open''),
              (''fifo_file'', ''getattr''), (''unix_stream_socket'', ''read''), (''unix_stream_socket'', ''write''),
              (''unix_stream_socket'', ''connectto''), (''unix_stream_socket'', ''getopt''), (''unix_stream_socket'', ''getattr''),
              (''memfd_file'', ''execute''), (''memfd_file'', ''getattr''), (''memfd_file'', ''map''), (''memfd_file'', ''read''),
              (''memfd_file'', ''write'')] @
            allow_rules e ''hwservicemanager'' [(''dir'', ''search''), (''file'', ''read''), (''file'', ''open''), (''process'', ''getattr'')] @
            [ksu_allow e (Some (chars ''domain'')) (Some su) (Some (chars ''binder'')) None] @
            allow_rules e ''system_server'' [(''process'', ''getpgid''), (''process'', ''sigkill'')]) db2)"

definition backup_policy :: "pol_env \<Rightarrow> selinux_policy \<Rightarrow> selinux_policy option" where
  "backup_policy e old_pol = (case ksu_dup_sepolicy e old_pol of
     Inl _ \<Rightarrow> None
   | Inr b \<Rightarrow> if \<not> pe_sidtab_alloc e then None else if pe_load_isids e \<noteq> 0 then None else Some b)"

definition apply_kernelsu_rules :: "pol_env \<Rightarrow> selinux_state \<Rightarrow> selinux_state" where
  "apply_kernelsu_rules e st = (case ss_policy st of
     None \<Rightarrow> st
   | Some old_pol \<Rightarrow>
       let st1 = st\<lparr>ss_backup := backup_policy e old_pol\<rparr> in
       (case ksu_dup_sepolicy e old_pol of
          Inl _ \<Rightarrow> st1
        | Inr pol \<Rightarrow> publish e pol (kernelsu_rules e (sp_db pol)) st1))"

section \<open>Batches of commands\<close>

abbreviation KSU_SEPOLICY_CMD_NORMAL_PERM :: u32 where "KSU_SEPOLICY_CMD_NORMAL_PERM \<equiv> 1"
abbreviation KSU_SEPOLICY_CMD_XPERM :: u32 where "KSU_SEPOLICY_CMD_XPERM \<equiv> 2"
abbreviation KSU_SEPOLICY_CMD_TYPE_STATE :: u32 where "KSU_SEPOLICY_CMD_TYPE_STATE \<equiv> 3"
abbreviation KSU_SEPOLICY_CMD_TYPE :: u32 where "KSU_SEPOLICY_CMD_TYPE \<equiv> 4"
abbreviation KSU_SEPOLICY_CMD_TYPE_ATTR :: u32 where "KSU_SEPOLICY_CMD_TYPE_ATTR \<equiv> 5"
abbreviation KSU_SEPOLICY_CMD_ATTR :: u32 where "KSU_SEPOLICY_CMD_ATTR \<equiv> 6"
abbreviation KSU_SEPOLICY_CMD_TYPE_TRANSITION :: u32 where "KSU_SEPOLICY_CMD_TYPE_TRANSITION \<equiv> 7"
abbreviation KSU_SEPOLICY_CMD_TYPE_CHANGE :: u32 where "KSU_SEPOLICY_CMD_TYPE_CHANGE \<equiv> 8"
abbreviation KSU_SEPOLICY_CMD_GENFSCON :: u32 where "KSU_SEPOLICY_CMD_GENFSCON \<equiv> 9"
abbreviation KSU_SEPOLICY_MAX_BATCH_SIZE :: u64 where "KSU_SEPOLICY_MAX_BATCH_SIZE \<equiv> 0x800000"
abbreviation KSU_SEPOLICY_MAX_ARGS :: nat where "KSU_SEPOLICY_MAX_ARGS \<equiv> 5"

record sepol_data =
  sd_cmd :: u32
  sd_subcmd :: u32

text \<open>The cursor is the rest of the payload. A reader gives what it read and the cursor after it; the only
  error is \<open>-EINVAL\<close>.\<close>

definition sepol_read_cmd_header :: "bytes \<Rightarrow> (sepol_data \<times> bytes) option" where
  "sepol_read_cmd_header cur =
     (if length cur < 8 then None
      else Some (\<lparr>sd_cmd = bytes_u32 (field 0 4 cur), sd_subcmd = bytes_u32 (field 4 4 cur)\<rparr>, drop 8 cur))"

definition sepol_read_string :: "bytes \<Rightarrow> (bytes option \<times> bytes) option" where
  "sepol_read_string cur =
     (if length cur < 4 then None
      else
        let len = unat (bytes_u32 (field 0 4 cur)); str = drop 4 cur in
        if length str \<le> len then None
        else if 0 \<in> set (take len str) \<or> str ! len \<noteq> 0 then None
        else Some (if len = 0 then None else Some (take len str), drop (len + 1) str))"

definition sepol_require_not_all :: "bytes option \<Rightarrow> bool" where
  "sepol_require_not_all value = (value \<noteq> None)"

definition sepol_expected_argc :: "u32 \<Rightarrow> nat option" where
  "sepol_expected_argc cmd =
     (if cmd = KSU_SEPOLICY_CMD_NORMAL_PERM then Some 4
      else if cmd = KSU_SEPOLICY_CMD_XPERM then Some 5
      else if cmd = KSU_SEPOLICY_CMD_TYPE_STATE then Some 1
      else if cmd = KSU_SEPOLICY_CMD_TYPE \<or> cmd = KSU_SEPOLICY_CMD_TYPE_ATTR then Some 2
      else if cmd = KSU_SEPOLICY_CMD_ATTR then Some 1
      else if cmd = KSU_SEPOLICY_CMD_TYPE_TRANSITION then Some 5
      else if cmd = KSU_SEPOLICY_CMD_TYPE_CHANGE then Some 4
      else if cmd = KSU_SEPOLICY_CMD_GENFSCON then Some 3
      else None)"

definition code_of :: "bool \<times> policydb \<Rightarrow> int \<times> policydb" where
  "code_of r = ((if fst r then 0 else - EINVAL), snd r)"

text \<open>Whether every listed argument names something and is not ALL.\<close>

definition all_given :: "bytes option list \<Rightarrow> bool" where
  "all_given args = list_all sepol_require_not_all args"

definition apply_one_sepolicy_cmd :: "pol_env \<Rightarrow> sepol_data \<Rightarrow> bytes option list \<Rightarrow> policydb \<Rightarrow> int \<times> policydb" where
  "apply_one_sepolicy_cmd e h args db =
     (let a = (\<lambda>i. args ! i); n = (\<lambda>i. the (args ! i)); cmd = sd_cmd h; sub = sd_subcmd h; bad = (- EINVAL, db) in
      if cmd = KSU_SEPOLICY_CMD_NORMAL_PERM then
        (if sub = 1 then code_of (ksu_allow e (a 0) (a 1) (a 2) (a 3) db)
         else if sub = 2 then code_of (ksu_deny e (a 0) (a 1) (a 2) (a 3) db)
         else if sub = 3 then code_of (ksu_auditallow e (a 0) (a 1) (a 2) (a 3) db)
         else if sub = 4 then code_of (ksu_dontaudit e (a 0) (a 1) (a 2) (a 3) db)
         else bad)
      else if cmd = KSU_SEPOLICY_CMD_XPERM then
        (if \<not> all_given [a 3, a 4] then bad
         else if sub = 1 then code_of (ksu_allowxperm e (a 0) (a 1) (a 2) (a 4) db)
         else if sub = 2 then code_of (ksu_auditallowxperm e (a 0) (a 1) (a 2) (a 4) db)
         else if sub = 3 then code_of (ksu_dontauditxperm e (a 0) (a 1) (a 2) (a 4) db)
         else bad)
      else if cmd = KSU_SEPOLICY_CMD_TYPE_STATE then
        (if \<not> all_given [a 0] then bad
         else if sub = 1 then code_of (ksu_permissive e (n 0) db)
         else if sub = 2 then code_of (ksu_enforce e (n 0) db)
         else bad)
      else if cmd = KSU_SEPOLICY_CMD_TYPE then
        (if \<not> all_given [a 0, a 1] then bad else code_of (ksu_type e (n 0) (n 1) db))
      else if cmd = KSU_SEPOLICY_CMD_TYPE_ATTR then
        (if \<not> all_given [a 0, a 1] then bad else code_of (ksu_typeattribute e (n 0) (n 1) db))
      else if cmd = KSU_SEPOLICY_CMD_ATTR then
        (if \<not> all_given [a 0] then bad else code_of (ksu_attribute e (n 0) db))
      else if cmd = KSU_SEPOLICY_CMD_TYPE_TRANSITION then
        (if \<not> all_given [a 0, a 1, a 2, a 3] then bad
         else code_of (ksu_type_transition e (n 0) (n 1) (n 2) (n 3) (a 4) db))
      else if cmd = KSU_SEPOLICY_CMD_TYPE_CHANGE then
        (if \<not> all_given [a 0, a 1, a 2, a 3] then bad
         else if sub = 1 then code_of (ksu_type_change e (n 0) (n 1) (n 2) (n 3) db)
         else if sub = 2 then code_of (ksu_type_member e (n 0) (n 1) (n 2) (n 3) db)
         else bad)
      else if cmd = KSU_SEPOLICY_CMD_GENFSCON then
        (if \<not> all_given [a 0, a 1, a 2] then bad else code_of (ksu_genfscon (n 0) (n 1) (n 2) db))
      else bad)"

fun sepol_read_args :: "nat \<Rightarrow> bytes \<Rightarrow> (bytes option list \<times> bytes) option" where
  "sepol_read_args 0 cur = Some ([], cur)"
| "sepol_read_args (Suc n) cur = (case sepol_read_string cur of
     None \<Rightarrow> None
   | Some (a, cur1) \<Rightarrow> map_option (\<lambda>(as, cur2). (a # as, cur2)) (sepol_read_args n cur1))"

text \<open>One round of the loop reads a command: its header and its arguments, padded with NULL.\<close>

definition sepol_read_cmd :: "bytes \<Rightarrow> (sepol_data \<times> bytes option list \<times> bytes) option" where
  "sepol_read_cmd cur = (case sepol_read_cmd_header cur of
     None \<Rightarrow> None
   | Some (h, cur1) \<Rightarrow>
       (case sepol_expected_argc (sd_cmd h) of
          None \<Rightarrow> None
        | Some argc \<Rightarrow>
            map_option (\<lambda>(as, cur2). (h, as @ replicate (KSU_SEPOLICY_MAX_ARGS - argc) None, cur2)) (sepol_read_args argc cur1)))"

lemma sepol_read_string_shorter: "sepol_read_string cur = Some (a, cur1) \<Longrightarrow> length cur1 < length cur"
  by (auto simp: sepol_read_string_def Let_def split: if_splits)

lemma sepol_read_args_le: "sepol_read_args n cur = Some (as, cur1) \<Longrightarrow> length cur1 \<le> length cur"
  by (induction n arbitrary: cur as) (fastforce dest: sepol_read_string_shorter split: option.splits)+

lemma sepol_read_cmd_shorter: "sepol_read_cmd cur = Some (h, as, cur1) \<Longrightarrow> length cur1 < length cur"
  by (fastforce simp: sepol_read_cmd_def sepol_read_cmd_header_def dest: sepol_read_args_le split: option.splits if_splits)

function sepol_loop :: "pol_env \<Rightarrow> bytes \<Rightarrow> policydb \<Rightarrow> int \<Rightarrow> (int \<times> policydb) option" where
  "sepol_loop e cur db success =
     (if cur = [] then Some (success, db)
      else (case sepol_read_cmd cur of
        None \<Rightarrow> None
      | Some (h, args, cur1) \<Rightarrow>
          (case apply_one_sepolicy_cmd e h args db of (ret, db1) \<Rightarrow>
             sepol_loop e cur1 db1 (if ret < 0 then success else success + 1))))"
  by pat_completeness auto
termination
  by (relation "measure (\<lambda>(e, cur, db, s). length cur)") (auto dest: sepol_read_cmd_shorter)

declare sepol_loop.simps [simp del]

definition handle_sepolicy :: "pol_env \<Rightarrow> u64 \<Rightarrow> u64 \<Rightarrow> selinux_state \<Rightarrow> int \<times> selinux_state" where
  "handle_sepolicy e user_data data_len st =
     (if user_data = 0 \<or> data_len = 0 then (- EINVAL, st)
      else if data_len > KSU_SEPOLICY_MAX_BATCH_SIZE then (- E2BIG, st)
      else if \<not> pe_payload_alloc e then (- ENOMEM, st)
      else (case pe_user e user_data (unat data_len) of
        None \<Rightarrow> (- EFAULT, st)
      | Some payload \<Rightarrow>
          (case ss_policy st of
             None \<Rightarrow> (- EINVAL, st)
           | Some old_pol \<Rightarrow>
               (case ksu_dup_sepolicy e old_pol of
                  Inl ret \<Rightarrow> (ret, st)
                | Inr pol \<Rightarrow>
                    (case sepol_loop e payload (sp_db pol) 0 of
                       None \<Rightarrow> (- EINVAL, st)
                     | Some (success, db) \<Rightarrow> (success, publish e pol db st))))))"

section \<open>Lemmas: looking nodes up\<close>

lemma find_index_None: "find_index P xs = None \<longleftrightarrow> (\<forall>x\<in>set xs. \<not> P x)"
  by (induction xs) auto

lemma find_index_Some:
  "find_index P xs = Some i \<longleftrightarrow> i < length xs \<and> P (xs ! i) \<and> (\<forall>j < i. \<not> P (xs ! j))"
proof (induction xs arbitrary: i)
  case (Cons x xs)
  show ?case
  proof (cases i)
    case 0
    then show ?thesis by auto
  next
    case (Suc j)
    then show ?thesis using Cons.IH [of j] by (auto simp: All_less_Suc2)
  qed
qed simp

lemma find_index_key_None: "find_index (\<lambda>(k, d). k = key) t = None \<longleftrightarrow> map_of t key = None"
  by (force simp: find_index_None map_of_eq_None_iff)

lemma find_index_key:
  "find_index (\<lambda>(k, d). k = key) t = Some i \<Longrightarrow> i < length t \<and> fst (t ! i) = key \<and> map_of t key = Some (snd (t ! i))"
proof (induction t arbitrary: i)
  case (Cons x t)
  show ?case
  proof (cases "fst x = key")
    case True
    then show ?thesis using Cons.prems by (cases x) auto
  next
    case False
    then obtain j where "find_index (\<lambda>(k, d). k = key) t = Some j" "i = Suc j" using Cons.prems by (cases x) auto
    then show ?thesis using Cons.IH False by (cases x) auto
  qed
qed simp

lemma find_index_update:
  "find_index (\<lambda>(k, d). k = key) t = Some i \<Longrightarrow> map_of (t[i := (key, v)]) = (map_of t)(key \<mapsto> v)"
proof (induction t arbitrary: i)
  case (Cons x t)
  show ?case
  proof (cases "fst x = key")
    case True
    then show ?thesis using Cons.prems by (cases x) (auto simp: fun_eq_iff)
  next
    case False
    then obtain j where "find_index (\<lambda>(k, d). k = key) t = Some j" "i = Suc j" using Cons.prems by (cases x) auto
    then show ?thesis using Cons.IH False by (cases x) (auto simp: fun_eq_iff)
  qed
qed simp

text \<open>A key that occurs once is gone after its node is removed.\<close>

lemma find_index_remove:
  assumes "find_index (\<lambda>(k, d). k = key) t = Some i" "length (filter (\<lambda>(k, d). k = key) t) \<le> 1"
  shows "map_of (take i t @ drop (Suc i) t) = (map_of t)(key := None)"
  using assms
proof (induction t arbitrary: i)
  case (Cons x t)
  show ?case
  proof (cases "fst x = key")
    case True
    then have "filter (\<lambda>(k, d). k = key) t = []" "i = 0" using Cons.prems by (cases x; auto)+
    moreover from this have "map_of t key = None" by (auto simp: map_of_eq_None_iff filter_empty_conv)
    ultimately show ?thesis using True by (cases x) (auto simp: fun_eq_iff)
  next
    case False
    then obtain j where "find_index (\<lambda>(k, d). k = key) t = Some j" "i = Suc j" using Cons.prems by (cases x) auto
    then show ?thesis using Cons False by (cases x) (auto simp: fun_eq_iff)
  qed
qed simp

section \<open>Lemmas: one access vector\<close>

definition av_effects :: "u16 set" where
  "av_effects = {AVTAB_ALLOWED, AVTAB_AUDITALLOW, AVTAB_AUDITDENY}"

definition effects :: "u16 set" where
  "effects = av_effects \<union> {AVTAB_TRANSITION, AVTAB_MEMBER, AVTAB_CHANGE,
     AVTAB_XPERMS_ALLOWED, AVTAB_XPERMS_AUDITALLOW, AVTAB_XPERMS_DONTAUDIT}"

text \<open>The table is well formed: a node has one effect, its datum is of the kind of its key, and only keys
  of extended permissions are repeated.\<close>

definition avtab_ok :: "avtab \<Rightarrow> bool" where
  "avtab_ok t \<longleftrightarrow> (\<forall>(k, d)\<in>set t. ak_specified k \<in> effects \<and> (is_xperms k \<longleftrightarrow> (\<exists>x. d = AvXperms x))) \<and>
     distinct (map fst (filter (\<lambda>(k, d). \<not> is_xperms k) t))"

definition av_default :: "u16 \<Rightarrow> u32" where
  "av_default effect = (if effect = AVTAB_AUDITDENY then - 1 else 0)"

text \<open>The access vector of a key; a key without a node has the default.\<close>

definition av :: "avtab \<Rightarrow> avtab_key \<Rightarrow> u32" where
  "av t key = (case map_of t key of None \<Rightarrow> av_default (ak_specified key) | Some d \<Rightarrow> av_data d)"

lemma effects_disjoint: "a \<in> effects \<Longrightarrow> b \<in> effects \<Longrightarrow> a AND b \<noteq> 0 \<longleftrightarrow> a = b"
  by (simp add: effects_def av_effects_def, elim disjE) simp_all

lemma av_effects_sub: "a \<in> av_effects \<Longrightarrow> a \<in> effects"
  by (simp add: effects_def)

lemma av_not_xperms: "ak_specified k \<in> av_effects \<Longrightarrow> \<not> is_xperms k"
  by (auto simp: av_effects_def)

lemma key_matches_eq: "ak_specified key \<in> effects \<Longrightarrow> ak_specified k \<in> effects \<Longrightarrow> key_matches key k \<longleftrightarrow> k = key"
  unfolding key_matches_def effects_disjoint by (cases k; cases key) auto

lemma find_index_cong: "(\<And>x. x \<in> set xs \<Longrightarrow> P x = Q x) \<Longrightarrow> find_index P xs = find_index Q xs"
  by (induction xs) auto

lemma avtab_search_eq:
  "avtab_ok t \<Longrightarrow> ak_specified key \<in> effects \<Longrightarrow> avtab_search_node t key = find_index (\<lambda>(k, d). k = key) t"
  unfolding avtab_search_node_def avtab_ok_def by (intro find_index_cong) (auto simp: key_matches_eq)

lemma once:
  assumes "avtab_ok t" "\<not> is_xperms key"
  shows "length (filter (\<lambda>(k, d). k = key) t) \<le> 1"
proof -
  let ?q = "\<lambda>x. fst x = key" and ?n = "\<lambda>x. \<not> is_xperms (fst x)"
  have one: "length (filter ?q ys) \<le> 1" if "distinct (map fst ys)" for ys :: avtab
    using that by (induction ys) (auto simp: filter_empty_conv image_iff)
  have "filter ?q t = filter ?q (filter ?n t)" unfolding filter_filter using assms(2) by (auto intro!: filter_cong)
  moreover have "distinct (map fst (filter ?n t))" using assms(1) by (simp add: avtab_ok_def case_prod_unfold)
  ultimately have "length (filter ?q t) \<le> 1" using one by metis
  then show ?thesis by (simp add: case_prod_unfold)
qed

lemma avtab_ok_update:
  assumes "avtab_ok t" "i < length t" "fst (t ! i) = key" "\<not> is_xperms key"
  shows "avtab_ok (t[i := (key, AvData v)])"
proof -
  have m: "map fst (t[i := (key, AvData v)]) = map fst t"
    using assms(2,3) by (simp add: map_update list_update_same_conv)
  have f: "map fst (filter (\<lambda>x. P (fst x)) xs) = filter P (map fst xs)" for P and xs :: avtab
    by (induction xs) auto
  let ?good = "\<lambda>x. ak_specified (fst x) \<in> effects \<and> (is_xperms (fst x) \<longleftrightarrow> (\<exists>y. snd x = AvXperms y))"
  have good: "\<forall>x\<in>set t. ?good x" and dist: "distinct (filter (\<lambda>k. \<not> is_xperms k) (map fst t))"
    using assms(1) unfolding avtab_ok_def case_prod_unfold f [of "\<lambda>k. \<not> is_xperms k"] by blast+
  have "?good (key, AvData v)" using good nth_mem [OF assms(2)] assms(3,4) by auto
  then have "\<forall>x\<in>set (t[i := (key, AvData v)]). ?good x" using good set_update_subset_insert [of t i "(key, AvData v)"] by blast
  then show ?thesis unfolding avtab_ok_def case_prod_unfold f [of "\<lambda>k. \<not> is_xperms k"] m using dist by blast
qed

lemma avtab_ok_remove:
  assumes "avtab_ok t"
  shows "avtab_ok (take i t @ drop (Suc i) t)"
proof -
  have s: "set (take i t @ drop (Suc i) t) \<subseteq> set t" by (auto dest: in_set_takeD in_set_dropD)
  have "distinct (map fst (filter P (take i t @ drop (Suc i) t)))" if "distinct (map fst (filter P t))" for P
  proof (cases "i < length t")
    case True
    then have "filter P t = filter P (take i t) @ filter P [t ! i] @ filter P (drop (Suc i) t)"
      by (metis filter_append id_take_nth_drop append_Cons append_Nil)
    then show ?thesis using that by auto
  next
    case False
    then show ?thesis using that by simp
  qed
  then show ?thesis using assms s unfolding avtab_ok_def by blast
qed

lemma avtab_ok_insert:
  assumes "avtab_ok t" "ak_specified key \<in> effects" "\<not> is_xperms key" "map_of t key = None"
  shows "avtab_ok ((key, AvData v) # t)"
  using assms unfolding avtab_ok_def by (force simp: map_of_eq_None_iff)

lemma redundant_iff:
  "ak_specified k \<in> av_effects \<Longrightarrow> is_redundant_avtab_node (k, AvData d) \<longleftrightarrow> d = av_default (ak_specified k)"
  by (auto simp: is_redundant_avtab_node_def av_default_def av_effects_def)

definition pol_allocs :: "pol_env \<Rightarrow> bool" where
  "pol_allocs e \<longleftrightarrow> (\<forall>t k. pe_insert e t k) \<and> (\<forall>t i. pe_removed e t i)"

text \<open>Only the access vector table and the length differ.\<close>

definition same_but_avtab :: "policydb \<Rightarrow> policydb \<Rightarrow> bool" where
  "same_but_avtab db db' \<longleftrightarrow> db' = db\<lparr>pd_avtab := pd_avtab db', pd_len := pd_len db'\<rparr>"

lemma same_but_avtab_refl [simp]: "same_but_avtab db db"
  by (simp add: same_but_avtab_def)

lemma same_but_avtabI [simp]: "same_but_avtab db (db\<lparr>pd_avtab := t\<rparr>)" "same_but_avtab db (db\<lparr>pd_avtab := t, pd_len := n\<rparr>)"
  by (simp_all add: same_but_avtab_def)

lemma same_but_avtab_trans: "same_but_avtab a b \<Longrightarrow> same_but_avtab b c \<Longrightarrow> same_but_avtab a c"
  unfolding same_but_avtab_def by (cases a; cases b; cases c) simp

lemma same_but_avtab_fields:
  "same_but_avtab a b \<Longrightarrow> pd_types b = pd_types a \<and> pd_classes b = pd_classes a"
  unfolding same_but_avtab_def by (cases a; cases b) simp

text \<open>A step succeeds and applies \<open>f\<close> to the vectors of the keys in \<open>S\<close> and to no other.\<close>

definition acts :: "(u32 \<Rightarrow> u32) \<Rightarrow> avtab_key set \<Rightarrow> policydb \<Rightarrow> bool \<times> policydb \<Rightarrow> bool" where
  "acts f S db r \<longleftrightarrow> fst r \<and> avtab_ok (pd_avtab (snd r)) \<and> same_but_avtab db (snd r) \<and>
     (\<forall>k. ak_specified k \<in> av_effects \<longrightarrow>
        av (pd_avtab (snd r)) k = (if k \<in> S then f (av (pd_avtab db) k) else av (pd_avtab db) k)) \<and>
     (\<forall>k. ak_specified k \<notin> av_effects \<longrightarrow> map_of (pd_avtab (snd r)) k = map_of (pd_avtab db) k)"

lemma actsI:
  assumes "avtab_ok (pd_avtab db')" "same_but_avtab db db'" "map_of (pd_avtab db') = (map_of (pd_avtab db))(key := d)"
    and "ak_specified key \<in> av_effects"
    and "(case d of None \<Rightarrow> av_default (ak_specified key) | Some x \<Rightarrow> av_data x) = f (av (pd_avtab db) key)"
  shows "acts f {key} db (True, db')"
  using assms unfolding acts_def by (auto simp: av_def)

lemma update_node_acts:
  assumes "avtab_ok (pd_avtab db)" "find_index (\<lambda>(k, d). k = key) (pd_avtab db) = Some i" "ak_specified key \<in> av_effects" "pol_allocs e"
  shows "acts (rule_data invert perm) {key} db (update_node e perm invert i db)"
proof -
  let ?t = "pd_avtab db"
  have i: "i < length ?t" "fst (?t ! i) = key" "map_of ?t key = Some (snd (?t ! i))" using find_index_key [OF assms(2)] by auto
  obtain v where v: "v = rule_data invert perm (av ?t key)" "rule_data invert perm (av_data (snd (?t ! i))) = v"
    by (simp add: av_def i(3))
  have node: "?t ! i = (key, snd (?t ! i))" using i(2) by (metis prod.collapse)
  define t1 where "t1 = ?t[i := (key, AvData v)]"
  have nx: "\<not> is_xperms key" using av_not_xperms [OF assms(3)] .
  have ok1: "avtab_ok t1" unfolding t1_def by (rule avtab_ok_update [OF assms(1) i(1,2) nx])
  have m1: "map_of t1 = (map_of ?t)(key \<mapsto> AvData v)" unfolding t1_def by (rule find_index_update [OF assms(2)])
  have upd: "update_node e perm invert i db = (if v = av_default (ak_specified key)
      then remove_avtab_node e i (db\<lparr>pd_avtab := t1\<rparr>) else (True, db\<lparr>pd_avtab := t1\<rparr>))"
    unfolding update_node_def t1_def by (subst node) (simp add: v(2) Let_def redundant_iff [OF assms(3)])
  show ?thesis
  proof (cases "v = av_default (ak_specified key)")
    case False
    have "acts (rule_data invert perm) {key} db (True, db\<lparr>pd_avtab := t1\<rparr>)"
      by (rule actsI [where d = "Some (AvData v)"]) (simp_all add: ok1 m1 assms(3) v(1) av_data_def)
    then show ?thesis unfolding upd if_not_P [OF False] .
  next
    case True
    define db2 where "db2 = snd (remove_avtab_node e i (db\<lparr>pd_avtab := t1\<rparr>))"
    have "find_index (\<lambda>(k, d). k = key) t1 = Some i"
      using assms(2) unfolding t1_def by (auto simp: find_index_Some)
    then have m2: "map_of (take i t1 @ drop (Suc i) t1) = (map_of ?t)(key := None)"
      using find_index_remove [OF _ once [OF ok1 nx]] m1 by simp
    have len: "i < length t1" using i(1) by (simp add: t1_def)
    have rm: "remove_avtab_node e i (db\<lparr>pd_avtab := t1\<rparr>) = (True, db2)"
      "pd_avtab db2 = take i t1 @ drop (Suc i) t1" "same_but_avtab db db2"
      using assms(4) len by (simp_all add: db2_def remove_avtab_node_def pol_allocs_def Let_def)
    have "acts (rule_data invert perm) {key} db (True, db2)"
      by (rule actsI [where d = None]) (simp_all del: map_of_append add: rm(2,3) avtab_ok_remove [OF ok1] m2 assms(3) True [symmetric] v(1))
    then show ?thesis unfolding upd if_P [OF True] rm(1) .
  qed
qed

lemma rule_key_specified [simp]: "ak_specified (rule_key s t c eff) = eff"
  by (simp add: rule_key_def)

lemma get_node_spec:
  assumes "avtab_ok (pd_avtab db)" "ak_specified key \<in> av_effects" "pol_allocs e"
  obtains i db1 where "get_avtab_node e key x db = (Some i, db1)" "find_index (\<lambda>(k, d). k = key) (pd_avtab db1) = Some i"
    "avtab_ok (pd_avtab db1)" "same_but_avtab db db1" "\<And>k. ak_specified k \<in> av_effects \<Longrightarrow> av (pd_avtab db1) k = av (pd_avtab db) k"
    "\<And>k. ak_specified k \<notin> av_effects \<Longrightarrow> map_of (pd_avtab db1) k = map_of (pd_avtab db) k"
proof (cases "find_index (\<lambda>(k, d). k = key) (pd_avtab db)")
  note s = avtab_search_eq [OF assms(1) av_effects_sub [OF assms(2)]] and nx = av_not_xperms [OF assms(2)]
  case (Some i)
  then show ?thesis using that [of i db] assms(1) s nx by (simp add: get_avtab_node_def)
next
  note s = avtab_search_eq [OF assms(1) av_effects_sub [OF assms(2)]] and nx = av_not_xperms [OF assms(2)]
  case None
  let ?d = "AvData (if ak_specified key = AVTAB_AUDITDENY then - 1 else 0)"
  let ?db = "db\<lparr>pd_avtab := (key, ?d) # pd_avtab db, pd_len := pd_len db + 8 + 8\<rparr>"
  have m: "map_of (pd_avtab db) key = None" using None by (simp add: find_index_key_None)
  show ?thesis
  proof (rule that)
    show "get_avtab_node e key x db = (Some 0, ?db)" using None s nx assms(3) by (simp add: get_avtab_node_def pol_allocs_def)
    show "avtab_ok (pd_avtab ?db)" using avtab_ok_insert [OF assms(1) av_effects_sub [OF assms(2)] nx m] by simp
    show "av (pd_avtab ?db) k = av (pd_avtab db) k" for k using m by (simp add: av_def av_default_def av_data_def)
    show "map_of (pd_avtab ?db) k = map_of (pd_avtab db) k" if "ak_specified k \<notin> av_effects" for k using that assms(2) by auto
  qed simp_all
qed

lemma acts_after:
  assumes "acts f S db1 r" "same_but_avtab db db1" "\<And>k. ak_specified k \<in> av_effects \<Longrightarrow> av (pd_avtab db1) k = av (pd_avtab db) k"
    "\<And>k. ak_specified k \<notin> av_effects \<Longrightarrow> map_of (pd_avtab db1) k = map_of (pd_avtab db) k"
  shows "acts f S db r"
  using assms same_but_avtab_trans unfolding acts_def by metis

lemma add_rule_node_acts:
  assumes "avtab_ok (pd_avtab db)" "effect \<in> av_effects" "pol_allocs e"
  shows "acts (rule_data invert perm) {rule_key src tgt cls effect} db (add_rule_node e src tgt perm effect invert cls db)"
proof -
  let ?key = "rule_key src tgt cls effect"
  have eff: "ak_specified ?key \<in> av_effects" using assms(2) by simp
  note s = avtab_search_eq [OF assms(1) av_effects_sub [OF eff]]
  show ?thesis
  proof (cases "invert \<and> effect \<noteq> AVTAB_AUDITDENY")
    case True
    show ?thesis
    proof (cases "find_index (\<lambda>(k, d). k = ?key) (pd_avtab db)")
      case None
      then have "av (pd_avtab db) ?key = 0" using True by (simp add: av_def find_index_key_None av_default_def)
      then have "acts (rule_data invert perm) {?key} db (True, db)"
        using True assms(1) unfolding acts_def by (auto simp: rule_data_def split: option.splits)
      then show ?thesis using None s True by (simp add: add_rule_node_def)
    next
      case (Some i)
      then show ?thesis using update_node_acts [OF assms(1) Some eff assms(3)] s True by (simp add: add_rule_node_def)
    qed
  next
    case False
    obtain i db1 where g: "get_avtab_node e ?key no_xperms db = (Some i, db1)" "find_index (\<lambda>(k, d). k = ?key) (pd_avtab db1) = Some i"
      "avtab_ok (pd_avtab db1)" "same_but_avtab db db1" "\<And>k. ak_specified k \<in> av_effects \<Longrightarrow> av (pd_avtab db1) k = av (pd_avtab db) k"
      "\<And>k. ak_specified k \<notin> av_effects \<Longrightarrow> map_of (pd_avtab db1) k = map_of (pd_avtab db) k"
      using get_node_spec [OF assms(1) eff assms(3)] by metis
    have "acts (rule_data invert perm) {?key} db (update_node e perm invert i db1)"
      by (rule acts_after [OF update_node_acts [OF g(3,2) eff assms(3)] g(4-6)])
    then show ?thesis using False g(1) by (auto simp: add_rule_node_def)
  qed
qed

lemma rule_data_idem: "rule_data invert perm (rule_data invert perm d) = rule_data invert perm d"
  by (auto simp: rule_data_def split: option.splits)

lemma each_simps:
  "each f [] db = (True, db)"
  "each f (x # xs) db = (case f x db of (r, db1) \<Rightarrow> case each f xs db1 of (ok, db2) \<Rightarrow> (r \<and> ok, db2))"
proof -
  have acc: "fold (\<lambda>x (ok, db). case f x db of (r, db1) \<Rightarrow> (ok \<and> r, db1)) xs (b, db) =
      (case fold (\<lambda>x (ok, db). case f x db of (r, db1) \<Rightarrow> (ok \<and> r, db1)) xs (True, db) of (ok, db2) \<Rightarrow> (b \<and> ok, db2))" for b xs db
  proof (induction xs arbitrary: b db)
    case (Cons x xs)
    obtain r db1 where "f x db = (r, db1)" by fastforce
    then show ?case using Cons.IH [of "b \<and> r" db1] Cons.IH [of r db1] by (simp add: case_prod_unfold)
  qed simp
  show "each f [] db = (True, db)" by (simp add: each_def)
  obtain r db1 where "f x db = (r, db1)" by fastforce
  then show "each f (x # xs) db = (case f x db of (r, db1) \<Rightarrow> case each f xs db1 of (ok, db2) \<Rightarrow> (r \<and> ok, db2))"
    using acc [of xs r db1] by (simp add: each_def)
qed

lemma acts_union:
  assumes "acts f S db (a, db1)" "acts f T db1 (b, db2)" "\<And>d. f (f d) = f d"
  shows "acts f (S \<union> T) db (a \<and> b, db2)"
  using assms same_but_avtab_trans unfolding acts_def by (auto split: if_splits)

lemma each_acts:
  assumes "avtab_ok (pd_avtab db)" "\<And>d. f (f d) = f d"
    and "\<And>x db1. x \<in> set xs \<Longrightarrow> avtab_ok (pd_avtab db1) \<Longrightarrow> same_but_avtab db db1 \<Longrightarrow> acts f (K x) db1 (g x db1)"
  shows "acts f (\<Union>x\<in>set xs. K x) db (each g xs db)"
  using assms
proof (induction xs arbitrary: db)
  case Nil
  then show ?case by (simp add: each_simps acts_def)
next
  case (Cons x xs)
  obtain r db1 where g: "g x db = (r, db1)" by fastforce
  have a: "acts f (K x) db (r, db1)" using Cons.prems(1) Cons.prems(3) [of x db] g by simp
  then have db1: "avtab_ok (pd_avtab db1)" "same_but_avtab db db1" by (simp_all add: acts_def)
  have "acts f (\<Union>x\<in>set xs. K x) db1 (each g xs db1)"
    by (rule Cons.IH) (use db1 Cons.prems same_but_avtab_trans in auto)
  then show ?case using acts_union [OF a, of "\<Union>x\<in>set xs. K x"] Cons.prems(2) by (cases "each g xs db1") (simp add: each_simps g)
qed

text \<open>What a name that may be NULL stands for.\<close>

definition named :: "'a list \<Rightarrow> 'a option \<Rightarrow> 'a set" where
  "named all x = (case x of None \<Rightarrow> set all | Some a \<Rightarrow> {a})"

lemma add_rule_class_acts:
  assumes "avtab_ok (pd_avtab db)" "effect \<in> av_effects" "pol_allocs e"
  shows "acts (rule_data invert perm) (\<Union>c\<in>named (map snd (pd_classes db)) cls. {rule_key src tgt c effect}) db
    (add_rule_class e src cls perm effect invert tgt db)"
  unfolding add_rule_class_def named_def
  using each_acts [OF assms(1), of "rule_data invert perm" "map snd (pd_classes db)" "\<lambda>c. {rule_key src tgt c effect}"]
    add_rule_node_acts [OF _ assms(2,3)] assms(1) rule_data_idem by (cases cls) auto

lemma add_rule_target_acts:
  assumes "avtab_ok (pd_avtab db)" "effect \<in> av_effects" "pol_allocs e"
  shows "acts (rule_data invert perm) (\<Union>t\<in>named (rule_types db effect invert) tgt.
      \<Union>c\<in>named (map snd (pd_classes db)) cls. {rule_key src t c effect}) db
    (add_rule_target e tgt cls perm effect invert src db)"
proof (cases tgt)
  case None
  have "acts (rule_data invert perm) (\<Union>t\<in>set (rule_types db effect invert). \<Union>c\<in>named (map snd (pd_classes db)) cls. {rule_key src t c effect}) db
      (each (add_rule_class e src cls perm effect invert) (rule_types db effect invert) db)"
  proof (rule each_acts [OF assms(1) rule_data_idem])
    fix t db1 assume "avtab_ok (pd_avtab db1)" "same_but_avtab db db1"
    then show "acts (rule_data invert perm) (\<Union>c\<in>named (map snd (pd_classes db)) cls. {rule_key src t c effect}) db1
        (add_rule_class e src cls perm effect invert t db1)"
      using add_rule_class_acts [OF _ assms(2,3), where db = db1 and src = src and tgt = t and cls = cls] same_but_avtab_fields [of db db1] by simp
  qed
  then show ?thesis using None by (simp add: add_rule_target_def named_def)
next
  case (Some t)
  then show ?thesis using add_rule_class_acts [OF assms, where src = src and tgt = t and cls = cls] by (simp add: add_rule_target_def named_def)
qed

lemma add_rule_raw_acts:
  assumes "avtab_ok (pd_avtab db)" "effect \<in> av_effects" "pol_allocs e"
  shows "acts (rule_data invert perm) (\<Union>s\<in>named (rule_types db effect invert) src. \<Union>t\<in>named (rule_types db effect invert) tgt.
      \<Union>c\<in>named (map snd (pd_classes db)) cls. {rule_key s t c effect}) db
    (add_rule_raw e src tgt cls perm effect invert db)"
proof (cases src)
  case None
  have "acts (rule_data invert perm) (\<Union>s\<in>set (rule_types db effect invert). \<Union>t\<in>named (rule_types db effect invert) tgt.
      \<Union>c\<in>named (map snd (pd_classes db)) cls. {rule_key s t c effect}) db
      (each (add_rule_target e tgt cls perm effect invert) (rule_types db effect invert) db)"
  proof (rule each_acts [OF assms(1) rule_data_idem])
    fix s db1 assume "avtab_ok (pd_avtab db1)" "same_but_avtab db db1"
    then show "acts (rule_data invert perm) (\<Union>t\<in>named (rule_types db effect invert) tgt.
        \<Union>c\<in>named (map snd (pd_classes db)) cls. {rule_key s t c effect}) db1 (add_rule_target e tgt cls perm effect invert s db1)"
      using add_rule_target_acts [OF _ assms(2,3), where db = db1 and src = s and tgt = tgt and cls = cls] same_but_avtab_fields [of db db1]
      by (simp add: rule_types_def)
  qed
  then show ?thesis using None by (simp add: add_rule_raw_def named_def)
next
  case (Some s)
  then show ?thesis using add_rule_target_acts [OF assms, where src = s and tgt = tgt and cls = cls] by (simp add: add_rule_raw_def named_def)
qed

section \<open>What a rule changes\<close>

text \<open>The keys a rule is about and its permission, or nothing where one of its names is unknown.\<close>

definition rule_scope ::
  "policydb \<Rightarrow> bytes option \<Rightarrow> bytes option \<Rightarrow> bytes option \<Rightarrow> bytes option \<Rightarrow> u16 \<Rightarrow> bool \<Rightarrow> (avtab_key set \<times> u32 option) option" where
  "rule_scope db s t c p effect invert =
     (case (look (pd_types db) s, look (pd_types db) t, look (pd_classes db) c) of
        (Some src, Some tgt, Some cls) \<Rightarrow>
          map_option (Pair {rule_key a b k effect |a b k. a \<in> named (rule_types db effect invert) src \<and>
            b \<in> named (rule_types db effect invert) tgt \<and> k \<in> named (map snd (pd_classes db)) cls}) (look_perm cls p)
      | _ \<Rightarrow> None)"


definition penv0 :: pol_env where
  "penv0 = \<lparr>pe_insert = (\<lambda>_ _. True), pe_removed = (\<lambda>_ _. True), pe_ebit = (\<lambda>_ _. True), pe_type_alloc = (\<lambda>_ _. True),
     pe_ft_alloc = (\<lambda>_ _. True), pe_scan = (\<lambda>_. None), pe_garbage = (0, 0), pe_vmalloc = (\<lambda>_. True), pe_kmemdup = True,
     pe_write = (\<lambda>_ _. (- EINVAL, [])), pe_read = (\<lambda>_. (- EINVAL, undefined)), pe_fix_config = False, pe_netlink_config = False,
     pe_payload_alloc = True, pe_user = (\<lambda>_ _. None), pe_sidtab_alloc = True, pe_load_isids = 0\<rparr>"

definition su_type :: type_datum where "su_type = \<lparr>td_value = 1, td_primary = 1, td_attribute = False\<rparr>"
definition domain_type :: type_datum where "domain_type = \<lparr>td_value = 2, td_primary = 1, td_attribute = True\<rparr>"
definition file_class :: class_datum where
  "file_class = \<lparr>cd_value = 7, cd_perms = [(chars ''map'', 2)], cd_common = Some [(chars ''read'', 1)], cd_constraints = []\<rparr>"

definition pdb0 :: policydb where
  "pdb0 = \<lparr>pd_types = [(chars ''ksu'', su_type), (chars ''domain'', domain_type)], pd_nprim = 2,
     pd_classes = [(chars ''file'', file_class)], pd_avtab = [], pd_permissive = {}, pd_attr_map = [{0}, {1}],
     pd_val_struct = [su_type, domain_type], pd_val_name = [chars ''ksu'', chars ''domain''], pd_roles = [{0, 1}],
     pd_ft = [], pd_ft_count = 0, pd_len = 100, pd_policyvers = 30, pd_netlink_route = False, pd_netlink_getneigh = False,
     pd_dangling = False\<rparr>"

lemma penv0_allocs: "pol_allocs penv0"
  by (simp add: pol_allocs_def penv0_def)

lemma pdb0_avtab: "avtab_ok (pd_avtab pdb0)"
  by (simp add: avtab_ok_def pdb0_def)

lemma rule_scope_demo:
  "rule_scope pdb0 (Some (chars ''ksu'')) None (Some (chars ''file'')) (Some (chars ''read'')) AVTAB_ALLOWED False =
     Some ({\<lparr>ak_source = 1, ak_target = 2, ak_class = 7, ak_specified = AVTAB_ALLOWED\<rparr>}, Some 1)"
  by (simp add: rule_scope_def look_def look_perm_def named_def rule_types_def strip_av_def rule_key_def pdb0_def chars_def
      su_type_def domain_type_def file_class_def)


section \<open>Lemmas: the language of batches\<close>

text \<open>The encoding of the interface: a length, the bytes and a NUL; the empty string is ALL.\<close>

definition enc_arg :: "bytes option \<Rightarrow> bytes" where
  "enc_arg a = (case a of None \<Rightarrow> u32_bytes 0 @ [0] | Some s \<Rightarrow> u32_bytes (of_nat (length s)) @ s @ [0])"

definition arg_ok :: "bytes option \<Rightarrow> bool" where
  "arg_ok a = (case a of None \<Rightarrow> True | Some s \<Rightarrow> s \<noteq> [] \<and> 0 \<notin> set s \<and> length s < 2 ^ 32)"

type_synonym sepol_cmd = "sepol_data \<times> bytes option list"

definition enc_cmd :: "sepol_cmd \<Rightarrow> bytes" where
  "enc_cmd c = u32_bytes (sd_cmd (fst c)) @ u32_bytes (sd_subcmd (fst c)) @ concat (map enc_arg (snd c))"

definition cmd_ok :: "sepol_cmd \<Rightarrow> bool" where
  "cmd_ok c \<longleftrightarrow> sepol_expected_argc (sd_cmd (fst c)) = Some (length (snd c)) \<and> list_all arg_ok (snd c)"

text \<open>Running commands one after the other: the database and how many succeeded.\<close>

definition run_cmd :: "pol_env \<Rightarrow> sepol_cmd \<Rightarrow> policydb \<times> int \<Rightarrow> policydb \<times> int" where
  "run_cmd e c s = (case apply_one_sepolicy_cmd e (fst c) (snd c @ replicate (KSU_SEPOLICY_MAX_ARGS - length (snd c)) None) (fst s) of
     (ret, db) \<Rightarrow> (db, if ret < 0 then snd s else snd s + 1))"

lemma u32_bytes_of: "length b = 4 \<Longrightarrow> u32_bytes (bytes_u32 b) = b"
proof -
  assume b: "length b = 4"
  then have "le_dec b < 2 ^ 32" using le_dec_bound [of b] by simp
  then show ?thesis using le_enc_dec [OF b] by (simp add: u32_bytes_def bytes_u32_def unat_of_nat)
qed

lemma field_front [simp]: "length a = n \<Longrightarrow> field 0 n (a @ b) = a"
  by (simp add: field_def)

lemma read_string_enc: "arg_ok a \<Longrightarrow> sepol_read_string (enc_arg a @ rest) = Some (a, rest)"
  by (cases a) (auto simp: enc_arg_def arg_ok_def sepol_read_string_def Let_def unat_of_nat nth_append)

lemma read_string_dec:
  assumes "sepol_read_string cur = Some (a, rest)"
  shows "cur = enc_arg a @ rest \<and> arg_ok a"
proof -
  define len where "len = unat (bytes_u32 (field 0 4 cur))"
  define str where "str = drop 4 cur"
  have c: "4 \<le> length cur" "len < length str" "0 \<notin> set (take len str)" "str ! len = 0"
      "a = (if len = 0 then None else Some (take len str))" "rest = drop (len + 1) str"
    using assms unfolding sepol_read_string_def len_def [symmetric] str_def [symmetric] Let_def by (auto split: if_splits)
  have f: "length (field 0 4 cur) = 4" using c(1) by (simp add: field_def)
  have "u32_bytes (of_nat len) = field 0 4 cur" using u32_bytes_of [OF f] by (simp add: len_def)
  moreover have "cur = field 0 4 cur @ str" by (simp add: field_def str_def)
  moreover have "str = take len str @ [0] @ rest" using c(2,4,6) by (metis Suc_eq_plus1 append_Cons append_Nil id_take_nth_drop)
  moreover have "len < 2 ^ 32" using unat_bound [of "bytes_u32 (field 0 4 cur)"] by (simp add: len_def)
  ultimately show ?thesis using c(2,3,5) by (auto simp: enc_arg_def arg_ok_def)
qed

lemma read_args_enc:
  "list_all arg_ok as \<Longrightarrow> sepol_read_args (length as) (concat (map enc_arg as) @ rest) = Some (as, rest)"
  by (induction as) (auto simp: read_string_enc)

lemma read_args_dec:
  "sepol_read_args n cur = Some (as, rest) \<Longrightarrow> cur = concat (map enc_arg as) @ rest \<and> list_all arg_ok as \<and> length as = n"
proof (induction n arbitrary: cur as)
  case (Suc n)
  then obtain a cur1 bs where s: "sepol_read_string cur = Some (a, cur1)" "sepol_read_args n cur1 = Some (bs, rest)" "as = a # bs"
    by (auto split: option.splits)
  then show ?case using read_string_dec [OF s(1)] Suc.IH [OF s(2)] by auto
qed simp

lemma read_cmd_enc:
  assumes "cmd_ok c"
  shows "sepol_read_cmd (enc_cmd c @ rest) = Some (fst c, snd c @ replicate (KSU_SEPOLICY_MAX_ARGS - length (snd c)) None, rest)"
proof -
  have "sepol_read_cmd_header (enc_cmd c @ rest) = Some (fst c, concat (map enc_arg (snd c)) @ rest)"
    by (simp add: sepol_read_cmd_header_def enc_cmd_def field_def)
  then show ?thesis using assms by (simp add: sepol_read_cmd_def cmd_ok_def read_args_enc)
qed

lemma read_cmd_dec:
  assumes "sepol_read_cmd cur = Some (h, args, rest)"
  obtains as where "cur = enc_cmd (h, as) @ rest" "cmd_ok (h, as)" "args = as @ replicate (KSU_SEPOLICY_MAX_ARGS - length as) None"
proof -
  obtain cur1 argc as where s: "sepol_read_cmd_header cur = Some (h, cur1)" "sepol_expected_argc (sd_cmd h) = Some argc"
      "sepol_read_args argc cur1 = Some (as, rest)" "args = as @ replicate (KSU_SEPOLICY_MAX_ARGS - argc) None"
    using assms by (auto simp: sepol_read_cmd_def split: option.splits)
  have "8 \<le> length cur" and h: "h = \<lparr>sd_cmd = bytes_u32 (field 0 4 cur), sd_subcmd = bytes_u32 (field 4 4 cur)\<rparr>" "cur1 = drop 8 cur"
    using s(1) by (auto simp: sepol_read_cmd_header_def split: if_splits)
  then have "u32_bytes (bytes_u32 (field 0 4 cur)) = field 0 4 cur" "u32_bytes (bytes_u32 (field 4 4 cur)) = field 4 4 cur"
    by (simp_all add: u32_bytes_of field_def)
  moreover have "cur = field 0 4 cur @ field 4 4 cur @ drop 8 cur"
    by (simp add: field_def) (metis append_take_drop_id drop_drop add_numeral_left numeral_plus_numeral semiring_norm(2) semiring_norm(6))
  ultimately show ?thesis using that [of as] read_args_dec [OF s(3)] s(2,4) h by (simp add: enc_cmd_def cmd_ok_def)
qed

lemma enc_cmd_nonempty [simp]: "enc_cmd c \<noteq> []"
  using length_u32_bytes [of "sd_cmd (fst c)"] by (auto simp: enc_cmd_def simp del: length_u32_bytes)

lemma sepol_loop_enc:
  assumes "list_all cmd_ok cmds"
  shows "sepol_loop e (concat (map enc_cmd cmds)) db n = Some (snd (fold (run_cmd e) cmds (db, n)), fst (fold (run_cmd e) cmds (db, n)))"
  using assms
proof (induction cmds arbitrary: db n)
  case Nil
  then show ?case by (simp add: sepol_loop.simps)
next
  case (Cons c cmds)
  obtain ret db1 where a: "apply_one_sepolicy_cmd e (fst c) (snd c @ replicate (KSU_SEPOLICY_MAX_ARGS - length (snd c)) None) db = (ret, db1)"
    by fastforce
  have r: "run_cmd e c (db, n) = (db1, if ret < 0 then n else n + 1)" by (simp add: run_cmd_def a)
  have "sepol_loop e (concat (map enc_cmd (c # cmds))) db n =
      sepol_loop e (concat (map enc_cmd cmds)) db1 (if ret < 0 then n else n + 1)"
    using Cons.prems by (subst sepol_loop.simps) (simp add: read_cmd_enc a)
  also have "\<dots> = Some (snd (fold (run_cmd e) cmds (run_cmd e c (db, n))), fst (fold (run_cmd e) cmds (run_cmd e c (db, n))))"
    unfolding r using Cons by simp
  finally show ?case by simp
qed

lemma sepol_loop_dec:
  "sepol_loop e cur db n = Some r \<Longrightarrow> \<exists>cmds. list_all cmd_ok cmds \<and> cur = concat (map enc_cmd cmds)"
proof (induction e cur db n arbitrary: r rule: sepol_loop.induct)
  case (1 e cur db n)
  show ?case
  proof (cases "cur = []")
    case True
    then show ?thesis by (intro exI [of _ "[]"]) simp
  next
    case False
    then obtain h args cur1 where rd: "sepol_read_cmd cur = Some (h, args, cur1)"
      using "1.prems" by (auto simp: sepol_loop.simps [of e cur] split: option.splits)
    obtain ret db1 where a: "apply_one_sepolicy_cmd e h args db = (ret, db1)" by fastforce
    have "sepol_loop e cur1 db1 (if ret < 0 then n else n + 1) = Some r"
      using "1.prems" False rd a by (simp add: sepol_loop.simps [of e cur])
    then obtain cmds where "list_all cmd_ok cmds" "cur1 = concat (map enc_cmd cmds)"
      using "1.IH" [OF False rd] a by (metis prod.inject)
    moreover obtain as where "cur = enc_cmd (h, as) @ cur1" "cmd_ok (h, as)" using read_cmd_dec [OF rd] by metis
    ultimately show ?thesis by (intro exI [of _ "(h, as) # cmds"]) simp
  qed
qed

lemma run_cmds_nonneg: "0 \<le> n \<Longrightarrow> 0 \<le> snd (fold (run_cmd e) cmds (db, n))"
proof (induction cmds arbitrary: db n)
  case (Cons c cmds)
  have "0 \<le> snd (run_cmd e c (db, n))" using Cons.prems by (auto simp: run_cmd_def split: prod.splits)
  then show ?case using Cons.IH [of "snd (run_cmd e c (db, n))" "fst (run_cmd e c (db, n))"] by simp
qed simp

lemma sepol_loop_nonneg:
  assumes "sepol_loop e b db 0 = Some (n, db1)"
  shows "\<not> n < 0"
proof -
  obtain cmds where c: "list_all cmd_ok cmds" "b = concat (map enc_cmd cmds)" using sepol_loop_dec [OF assms] by metis
  show ?thesis using assms run_cmds_nonneg [of 0 e cmds db] sepol_loop_enc [OF c(1), of e db 0] c(2) by simp
qed

lemma handle_sepolicy_error: "fst (handle_sepolicy e p l s) < 0 \<Longrightarrow> snd (handle_sepolicy e p l s) = s"
  unfolding handle_sepolicy_def by (auto dest: sepol_loop_nonneg split: if_splits option.splits sum.splits prod.splits)

text \<open>(C33) A batch of policy commands is all or nothing. A payload is accepted exactly when it is the encoding of a
  list of known commands with the right number of arguments; then the commands run in order on a copy of
  the policy, the copy is published even when some of them fail, and the result is the number that
  succeeded. Any other payload, and any failure before, returns an error and leaves the published policy
  and the cache of decisions as they are.\<close>

theorem sepolicy_batch_atomic:
  assumes policy: "ss_policy st = Some old" and copied: "ksu_dup_sepolicy e old = Inr pol"
    and args: "ptr \<noteq> 0" "0 < len" "len \<le> KSU_SEPOLICY_MAX_BATCH_SIZE" "pe_payload_alloc e" "pe_user e ptr (unat len) = Some payload"
  shows "(\<forall>cmds. list_all cmd_ok cmds \<and> payload = concat (map enc_cmd cmds) \<longrightarrow>
      handle_sepolicy e ptr len st =
        (snd (fold (run_cmd e) cmds (sp_db pol, 0)), publish e pol (fst (fold (run_cmd e) cmds (sp_db pol, 0))) st) \<and>
      0 \<le> fst (handle_sepolicy e ptr len st)) \<and>
    ((\<nexists>cmds. list_all cmd_ok cmds \<and> payload = concat (map enc_cmd cmds)) \<longrightarrow> handle_sepolicy e ptr len st = (- EINVAL, st)) \<and>
    (\<forall>p l s. fst (handle_sepolicy e p l s) < 0 \<longrightarrow> snd (handle_sepolicy e p l s) = s)"
proof (intro conjI allI impI)
  have h: "handle_sepolicy e ptr len st = (case sepol_loop e payload (sp_db pol) 0 of
      None \<Rightarrow> (- EINVAL, st) | Some (success, db) \<Rightarrow> (success, publish e pol db st))"
    using args policy copied not_less [of KSU_SEPOLICY_MAX_BATCH_SIZE len] unfolding handle_sepolicy_def by auto
  {
    fix cmds assume "list_all cmd_ok cmds \<and> payload = concat (map enc_cmd cmds)"
    then show r: "handle_sepolicy e ptr len st =
        (snd (fold (run_cmd e) cmds (sp_db pol, 0)), publish e pol (fst (fold (run_cmd e) cmds (sp_db pol, 0))) st)"
      unfolding h by (simp add: sepol_loop_enc)
    then show "0 \<le> fst (handle_sepolicy e ptr len st)" using run_cmds_nonneg [of 0 e cmds] by simp
  next
    assume "\<nexists>cmds. list_all cmd_ok cmds \<and> payload = concat (map enc_cmd cmds)"
    then have "sepol_loop e payload (sp_db pol) 0 = None" using sepol_loop_dec by (metis not_Some_eq)
    then show "handle_sepolicy e ptr len st = (- EINVAL, st)" unfolding h by simp
  next
    fix p l s assume "fst (handle_sepolicy e p l s) < 0"
    then show "snd (handle_sepolicy e p l s) = s" by (rule handle_sepolicy_error)
  }
qed

lemma sync_loop_frame: "snd (sync_loop e db n cap ret) = db\<lparr>pd_len := pd_len (snd (sync_loop e db n cap ret))\<rparr>"
  by (induction n arbitrary: cap ret) (auto split: prod.splits)

text \<open>Measuring changes only the length.\<close>

lemma fixup_len_frame: "snd (ksu_policydb_fixup_len e db) = db\<lparr>pd_len := pd_len (snd (ksu_policydb_fixup_len e db))\<rparr>"
proof -
  have s: "snd (ksu_policydb_sync_len e db) = db\<lparr>pd_len := pd_len (snd (ksu_policydb_sync_len e db))\<rparr>"
    unfolding ksu_policydb_sync_len_def using sync_loop_frame by simp
  obtain ret db1 where "ksu_policydb_sync_len e db = (ret, db1)" by fastforce
  then show ?thesis using s by (cases db; cases db1) (simp add: ksu_policydb_fixup_len_def)
qed

definition permissive_cmd :: sepol_cmd where
  "permissive_cmd = (\<lparr>sd_cmd = KSU_SEPOLICY_CMD_TYPE_STATE, sd_subcmd = 1\<rparr>, [Some (chars ''ksu'')])"

definition penv1 :: pol_env where
  "penv1 = penv0\<lparr>pe_write := (\<lambda>_ _. (0, [])), pe_read := (\<lambda>_. (0, pdb0)), pe_user := (\<lambda>_ _. Some (enc_cmd permissive_cmd))\<rparr>"

definition sst0 :: selinux_state where
  "sst0 = \<lparr>ss_policy = Some \<lparr>sp_db = pdb0, sp_latest_granting = 1\<rparr>, ss_backup = None, ss_avc_resets = 0\<rparr>"

lemma dup_demo: "ksu_dup_sepolicy penv1 \<lparr>sp_db = pdb0, sp_latest_granting = 1\<rparr> = Inr \<lparr>sp_db = pdb0\<lparr>pd_len := 0\<rparr>, sp_latest_granting = 1\<rparr>"
  by (simp add: ksu_dup_sepolicy_def penv1_def penv0_def fix_config_def)

lemma permissive_cmd_ok: "list_all cmd_ok [permissive_cmd]"
  by (simp add: cmd_ok_def permissive_cmd_def sepol_expected_argc_def arg_ok_def chars_def)

lemma permissive_run: "run_cmd penv1 permissive_cmd (db, 0) =
    (case map_of (pd_types db) (chars ''ksu'') of None \<Rightarrow> (db, 0)
     | Some t \<Rightarrow> (db\<lparr>pd_permissive := insert (unat (td_value t)) (pd_permissive db)\<rparr>, 1))"
  by (simp add: run_cmd_def permissive_cmd_def apply_one_sepolicy_cmd_def code_of_def ksu_permissive_def set_type_state_def
      set_permissive_def ebitmap_set_def all_given_def sepol_require_not_all_def penv1_def penv0_def Let_def split: option.split)

theorem sepolicy_batch_atomic_witness:
  "\<exists>st'. handle_sepolicy penv1 1 16 sst0 = (1, st') \<and> map_option (\<lambda>p. pd_permissive (sp_db p)) (ss_policy st') = Some {1} \<and>
     ss_avc_resets st' = 1"
proof -
  have pol: "ss_policy sst0 = Some \<lparr>sp_db = pdb0, sp_latest_granting = 1\<rparr>" by (simp add: sst0_def)
  have env: "pe_payload_alloc penv1" "pe_user penv1 1 (unat (16 :: u64)) = Some (enc_cmd permissive_cmd)"
    by (simp_all add: penv1_def penv0_def)
  note all = sepolicy_batch_atomic [OF pol dup_demo _ _ _ env, THEN conjunct1, rule_format, of "[permissive_cmd]"]
  have run: "run_cmd penv1 permissive_cmd (pdb0\<lparr>pd_len := 0\<rparr>, 0) = (pdb0\<lparr>pd_len := 0, pd_permissive := {1}\<rparr>, 1)"
    unfolding permissive_run by (simp add: pdb0_def su_type_def)
  have "handle_sepolicy penv1 1 16 sst0 = (1, publish penv1 \<lparr>sp_db = pdb0\<lparr>pd_len := 0\<rparr>, sp_latest_granting = 1\<rparr>
      (pdb0\<lparr>pd_len := 0, pd_permissive := {1}\<rparr>) sst0)"
    using all permissive_cmd_ok by (simp add: run)
  moreover have "pd_permissive (snd (ksu_policydb_fixup_len penv1 db)) = pd_permissive db" for db
    by (subst fixup_len_frame) simp
  ultimately show ?thesis by (simp add: publish_def reset_avc_cache_def sst0_def)
qed

section \<open>Lemmas: a policy stays well formed\<close>

text \<open>The table, with eight words in every set of extended permissions.\<close>

definition avtab_wf :: "avtab \<Rightarrow> bool" where
  "avtab_wf t \<longleftrightarrow> avtab_ok t \<and> (\<forall>k x. (k, AvXperms x) \<in> set t \<longrightarrow> length (xp_perms x) = 8)"

text \<open>Type values are the numbers from 1 to the number of types, the three arrays have that many
  entries and agree with the table of names, and every bitmap speaks of existing types only.\<close>

definition pd_wf :: "policydb \<Rightarrow> bool" where
  "pd_wf db \<longleftrightarrow> avtab_wf (pd_avtab db) \<and> \<not> pd_dangling db \<and> distinct (map fst (pd_types db)) \<and>
     length (pd_attr_map db) = unat (pd_nprim db) \<and> length (pd_val_struct db) = unat (pd_nprim db) \<and>
     length (pd_val_name db) = unat (pd_nprim db) \<and>
     (\<forall>(n, t)\<in>set (pd_types db). 0 < td_value t \<and> td_value t \<le> pd_nprim db \<and>
        pd_val_struct db ! bit_of (td_value t) = t \<and> pd_val_name db ! bit_of (td_value t) = n) \<and>
     (\<forall>b\<in>pd_permissive db. b \<le> unat (pd_nprim db)) \<and>
     (\<forall>s\<in>set (pd_roles db) \<union> set (pd_attr_map db). \<forall>b\<in>s. b < unat (pd_nprim db))"

definition keeps :: "policydb \<Rightarrow> bool \<times> policydb \<Rightarrow> bool" where
  "keeps db r \<longleftrightarrow> avtab_wf (pd_avtab (snd r)) \<and> same_but_avtab db (snd r)"

lemma keeps_wf: "pd_wf db \<Longrightarrow> keeps db r \<Longrightarrow> pd_wf (snd r) \<and> pd_nprim (snd r) = pd_nprim db"
  unfolding keeps_def same_but_avtab_def pd_wf_def by (cases db; cases "snd r") simp

lemma keeps_trans: "keeps db (a, db1) \<Longrightarrow> keeps db1 (b, db2) \<Longrightarrow> keeps db (c, db2)"
  using same_but_avtab_trans unfolding keeps_def by auto

lemma keeps_each:
  assumes "avtab_wf (pd_avtab db)"
    and "\<And>x db1. x \<in> set xs \<Longrightarrow> avtab_wf (pd_avtab db1) \<Longrightarrow> keeps db1 (g x db1)"
  shows "keeps db (each g xs db)"
  using assms
proof (induction xs arbitrary: db)
  case Nil
  then show ?case by (simp add: each_simps keeps_def)
next
  case (Cons x xs)
  obtain r db1 where g: "g x db = (r, db1)" by fastforce
  then have a: "keeps db (r, db1)" using Cons.prems by (metis list.set_intros(1))
  then have "keeps db1 (each g xs db1)" using Cons by (simp add: keeps_def)
  then show ?case using keeps_trans [OF a] by (cases "each g xs db1") (simp add: each_simps g)
qed

lemma keeps_refl: "avtab_wf (pd_avtab db) \<Longrightarrow> keeps db (b, db)"
  by (simp add: keeps_def)

lemma avtab_wf_insert:
  assumes "avtab_wf t" "ak_specified key \<in> effects" "is_xperms key \<longleftrightarrow> (\<exists>x. d = AvXperms x)" "\<And>x. d = AvXperms x \<Longrightarrow> length (xp_perms x) = 8"
    and "\<not> is_xperms key \<Longrightarrow> map_of t key = None"
  shows "avtab_wf ((key, d) # t)"
proof -
  have "key \<notin> fst ` set t" if "\<not> is_xperms key" using assms(5) [OF that] by (simp add: map_of_eq_None_iff)
  then have "distinct (map fst (filter (\<lambda>(k, d). \<not> is_xperms k) ((key, d) # t)))"
    using assms(1) unfolding avtab_wf_def avtab_ok_def by force
  then show ?thesis using assms(1-4) unfolding avtab_wf_def avtab_ok_def by simp
qed

lemma avtab_wf_update:
  assumes "avtab_wf t" "i < length t" "fst (t ! i) = key" "is_xperms key \<longleftrightarrow> (\<exists>x. d = AvXperms x)" "\<And>x. d = AvXperms x \<Longrightarrow> length (xp_perms x) = 8"
  shows "avtab_wf (t[i := (key, d)])"
proof -
  have m: "map fst (t[i := (key, d)]) = map fst t" using assms(2,3) by (simp add: map_update list_update_same_conv)
  have f: "map fst (filter (\<lambda>x. P (fst x)) xs) = filter P (map fst xs)" for P and xs :: avtab
    by (induction xs) auto
  have sub: "x \<in> set t \<or> x = (key, d)" if "x \<in> set (t[i := (key, d)])" for x
    using that set_update_subset_insert [of t i "(key, d)"] by blast
  have "ak_specified key \<in> effects"
    using assms(1,3) nth_mem [OF assms(2)] unfolding avtab_wf_def avtab_ok_def case_prod_unfold by metis
  then have "\<forall>x\<in>set (t[i := (key, d)]). ak_specified (fst x) \<in> effects \<and> (is_xperms (fst x) \<longleftrightarrow> (\<exists>y. snd x = AvXperms y))"
    using sub assms(1,4) unfolding avtab_wf_def avtab_ok_def case_prod_unfold by (metis fst_conv snd_conv)
  moreover have "distinct (map fst (filter (\<lambda>x. \<not> is_xperms (fst x)) (t[i := (key, d)])))"
    using assms(1) unfolding f [of "\<lambda>k. \<not> is_xperms k"] m
    unfolding f [of "\<lambda>k. \<not> is_xperms k", symmetric] avtab_wf_def avtab_ok_def case_prod_unfold by blast
  moreover have "length (xp_perms x) = 8" if "(k, AvXperms x) \<in> set (t[i := (key, d)])" for k x
    using sub [OF that] assms(1,5) unfolding avtab_wf_def by auto
  ultimately show ?thesis unfolding avtab_wf_def avtab_ok_def case_prod_unfold by blast
qed

lemma avtab_wf_remove: "avtab_wf t \<Longrightarrow> avtab_wf (take i t @ drop (Suc i) t)"
  using avtab_ok_remove in_set_takeD in_set_dropD unfolding avtab_wf_def by (metis UnE set_append)

lemma get_node_wf:
  assumes "avtab_wf (pd_avtab db)" "ak_specified key \<in> effects" "is_xperms key \<Longrightarrow> length (xp_perms x) = 8"
  shows "keeps db (b, snd (get_avtab_node e key x db)) \<and> (case fst (get_avtab_node e key x db) of None \<Rightarrow> True
     | Some i \<Rightarrow> i < length (pd_avtab (snd (get_avtab_node e key x db))) \<and> fst (pd_avtab (snd (get_avtab_node e key x db)) ! i) = key)"
proof -
  let ?t = "pd_avtab db"
  define d where "d = (if is_xperms key then AvXperms x else AvData (if ak_specified key = AVTAB_AUDITDENY then - 1 else 0))"
  define node where "node = (if is_xperms key then find_index (\<lambda>(k, d). key_matches key k \<and> same_xperms x d) ?t else avtab_search_node ?t key)"
  have ok: "avtab_ok ?t" using assms(1) by (simp add: avtab_wf_def)
  have match: "fst y = key" if "y \<in> set ?t" "key_matches key (fst y)" for y
    using that key_matches_eq [OF assms(2)] ok unfolding avtab_ok_def by fastforce
  show ?thesis
  proof (cases node)
    case (Some i)
    then have "i < length ?t" "key_matches key (fst (?t ! i))"
      unfolding node_def avtab_search_node_def by (auto simp: find_index_Some case_prod_unfold split: if_splits)
    then show ?thesis using Some match nth_mem keeps_refl [OF assms(1)] unfolding get_avtab_node_def node_def [symmetric] by simp
  next
    case None
    have "avtab_wf ((key, d) # ?t)"
    proof (rule avtab_wf_insert [OF assms(1,2)])
      show "length (xp_perms y) = 8" if "d = AvXperms y" for y
        using assms(3) that by (auto simp: d_def split: if_splits)
      show "is_xperms key \<longleftrightarrow> (\<exists>x. d = AvXperms x)" by (simp add: d_def)
      show "map_of ?t key = None" if "\<not> is_xperms key"
        using None that avtab_search_eq [OF ok assms(2)] by (simp add: node_def find_index_key_None)
    qed
    then show ?thesis using None keeps_refl [OF assms(1)] unfolding get_avtab_node_def node_def [symmetric] d_def [symmetric]
      by (simp add: keeps_def Let_def)
  qed
qed

lemma update_node_keeps:
  assumes "avtab_wf (pd_avtab db)" "i < length (pd_avtab db)" "\<not> is_xperms (fst (pd_avtab db ! i))"
  shows "keeps db (update_node e perm invert i db)"
proof -
  obtain k d where n: "pd_avtab db ! i = (k, d)" by fastforce
  let ?t = "(pd_avtab db)[i := (k, AvData (rule_data invert perm (av_data d)))]"
  have "avtab_wf ?t" by (rule avtab_wf_update [OF assms(1,2)]) (use n assms(3) in simp_all)
  then show ?thesis using avtab_wf_remove [of ?t i] unfolding update_node_def n remove_avtab_node_def by (simp add: keeps_def Let_def)
qed

lemma add_rule_node_keeps:
  assumes "avtab_wf (pd_avtab db)" "effect \<in> av_effects"
  shows "keeps db (add_rule_node e src tgt perm effect invert cls db)"
proof -
  let ?key = "rule_key src tgt cls effect"
  have nx: "\<not> is_xperms ?key" and eff: "ak_specified ?key \<in> effects" using assms(2) av_not_xperms [of ?key] av_effects_sub by simp_all
  show ?thesis
  proof (cases "invert \<and> effect \<noteq> AVTAB_AUDITDENY")
    case True
    have "avtab_search_node (pd_avtab db) ?key = find_index (\<lambda>(k, d). k = ?key) (pd_avtab db)"
      using avtab_search_eq [OF _ eff] assms(1) by (simp add: avtab_wf_def)
    then show ?thesis using True nx update_node_keeps [OF assms(1)] keeps_refl [OF assms(1)]
      by (auto simp: add_rule_node_def find_index_Some case_prod_unfold split: option.splits)
  next
    case False
    obtain r db1 where g: "get_avtab_node e ?key no_xperms db = (r, db1)" by fastforce
    have k: "keeps db (b, db1)" "\<And>i. r = Some i \<Longrightarrow> i < length (pd_avtab db1) \<and> fst (pd_avtab db1 ! i) = ?key" for b
      using get_node_wf [OF assms(1) eff, of no_xperms b e] nx g by auto
    show ?thesis
    proof (cases r)
      case None
      then show ?thesis using False g k(1) by (auto simp: add_rule_node_def)
    next
      case (Some i)
      have "keeps db1 (update_node e perm invert i db1)"
        by (rule update_node_keeps) (use k Some nx in \<open>auto simp: keeps_def\<close>)
      then have "keeps db (update_node e perm invert i db1)" using keeps_trans [OF k(1)] by (metis prod.collapse)
      then show ?thesis using False Some g by (auto simp: add_rule_node_def)
    qed
  qed
qed

lemma add_rule_keeps:
  assumes "avtab_wf (pd_avtab db)" "effect \<in> av_effects"
  shows "keeps db (add_rule e s t c p effect invert db)"
proof -
  have c: "keeps db (add_rule_class e src cls perm effect invert tgt db)" if "avtab_wf (pd_avtab db)" for src cls perm tgt db
    unfolding add_rule_class_def using that by (cases cls) (auto intro!: keeps_each add_rule_node_keeps [OF _ assms(2)])
  have t: "keeps db (add_rule_target e tgt cls perm effect invert src db)" if "avtab_wf (pd_avtab db)" for src cls perm tgt db
    unfolding add_rule_target_def using that by (cases tgt) (auto intro!: keeps_each c)
  have "keeps db (add_rule_raw e src tgt cls perm effect invert db)" for src tgt cls perm
    unfolding add_rule_raw_def using assms(1) by (cases src) (auto intro!: keeps_each t)
  then show ?thesis unfolding add_rule_def using keeps_refl [OF assms(1)] by (auto split: option.splits)
qed

lemma rule_xperms_length: "length (xp_perms (rule_xperms low high invert)) = 8"
proof -
  have "length (fold (\<lambda>i p. if invert then xperm_clear i p else xperm_set i p) xs p) = length p" for xs p
    by (induction xs arbitrary: p) (auto simp: xperm_set_def xperm_clear_def)
  then show ?thesis unfolding rule_xperms_def Let_def by simp
qed

definition xperm_effects :: "u16 set" where
  "xperm_effects = {AVTAB_XPERMS_ALLOWED, AVTAB_XPERMS_AUDITALLOW, AVTAB_XPERMS_DONTAUDIT}"

lemma add_xperm_node_keeps:
  assumes "avtab_wf (pd_avtab db)" "effect \<in> xperm_effects"
  shows "keeps db (add_xperm_node e src tgt low high effect invert cls db)"
proof -
  let ?key = "rule_key src tgt cls effect" and ?x = "rule_xperms low high invert"
  have x: "is_xperms ?key" and eff: "ak_specified ?key \<in> effects"
    using assms(2) by (auto simp: xperm_effects_def effects_def)
  obtain r db1 where g: "get_avtab_node e ?key ?x db = (r, db1)" by fastforce
  have k: "keeps db (b, db1)" "\<And>i. r = Some i \<Longrightarrow> i < length (pd_avtab db1) \<and> fst (pd_avtab db1 ! i) = ?key" for b
    using get_node_wf [OF assms(1) eff, of ?x b e] rule_xperms_length g by auto
  show ?thesis
  proof (cases r)
    case None
    then show ?thesis using g k(1) by (simp add: add_xperm_node_def)
  next
    case (Some i)
    have i: "i < length (pd_avtab db1)" "fst (pd_avtab db1 ! i) = ?key" and wf: "avtab_wf (pd_avtab db1)"
      using k Some by (simp_all add: keeps_def)
    obtain y where y: "pd_avtab db1 ! i = (?key, AvXperms y)" "length (xp_perms y) = 8"
      using wf nth_mem [OF i(1)] i(2) x unfolding avtab_wf_def avtab_ok_def case_prod_unfold by (metis prod.collapse)
    have "avtab_wf ((pd_avtab db1)[i := (?key, merge_xperms ?x (AvXperms y))])"
      by (rule avtab_wf_update [OF wf i]) (use x y(2) rule_xperms_length in \<open>auto simp: merge_xperms_def\<close>)
    then have "keeps db1 (True, db1\<lparr>pd_avtab := (pd_avtab db1)[i := (?key, merge_xperms ?x (AvXperms y))]\<rparr>)" by (simp add: keeps_def)
    then have "keeps db (True, db1\<lparr>pd_avtab := (pd_avtab db1)[i := (?key, merge_xperms ?x (AvXperms y))]\<rparr>)" by (rule keeps_trans [OF k(1)])
    then show ?thesis using g Some by (simp add: add_xperm_node_def y(1))
  qed
qed

lemma add_xperm_rule_keeps:
  assumes "avtab_wf (pd_avtab db)" "effect \<in> xperm_effects"
  shows "keeps db (add_xperm_rule e s t c rng effect invert db)"
proof -
  have c: "keeps db (add_xperm_class e src cls low high effect invert tgt db)" if "avtab_wf (pd_avtab db)" for src cls low high tgt db
    unfolding add_xperm_class_def using that by (cases cls) (auto intro!: keeps_each add_xperm_node_keeps [OF _ assms(2)])
  have t: "keeps db (add_xperm_target e tgt cls low high effect invert src db)" if "avtab_wf (pd_avtab db)" for src cls low high tgt db
    unfolding add_xperm_target_def using that by (cases tgt) (auto intro!: keeps_each c)
  have snd: "keeps db (b, snd r)" if "keeps db r" for b r using that by (simp add: keeps_def)
  have "keeps db (b, add_xperm_rule_raw e src tgt cls low high effect invert db)" for src tgt cls low high b
    unfolding add_xperm_rule_raw_def using assms(1) by (cases src) (auto intro!: snd keeps_each t)
  then show ?thesis unfolding add_xperm_rule_def using keeps_refl [OF assms(1)] by (auto split: option.splits prod.splits)
qed

lemma add_type_rule_keeps:
  assumes "avtab_wf (pd_avtab db)" "effect \<in> {AVTAB_TRANSITION, AVTAB_MEMBER, AVTAB_CHANGE}"
  shows "keeps db (add_type_rule e s t c d effect db)"
proof -
  have "keeps db (case get_avtab_node e (rule_key src tgt cls effect) no_xperms db of (None, db1) \<Rightarrow> (False, db1)
      | (Some i, db1) \<Rightarrow> (True, db1\<lparr>pd_avtab := (pd_avtab db1)[i := (fst (pd_avtab db1 ! i), AvData v)]\<rparr>))" for src tgt cls v
  proof -
    let ?key = "rule_key src tgt cls effect"
    have nx: "\<not> is_xperms ?key" and eff: "ak_specified ?key \<in> effects" using assms(2) by (auto simp: effects_def)
    obtain r db1 where g: "get_avtab_node e ?key no_xperms db = (r, db1)" by fastforce
    have k: "keeps db (b, db1)" "\<And>i. r = Some i \<Longrightarrow> i < length (pd_avtab db1) \<and> fst (pd_avtab db1 ! i) = ?key" for b
      using get_node_wf [OF assms(1) eff, of no_xperms b e] nx g by auto
    have "keeps db1 (True, db1\<lparr>pd_avtab := (pd_avtab db1)[i := (?key, AvData v)]\<rparr>)" if "r = Some i" for i
      using avtab_wf_update [of "pd_avtab db1" i ?key "AvData v"] k that nx by (simp add: keeps_def)
    then show ?thesis unfolding g using k keeps_trans [OF k(1)] by (auto split: option.splits)
  qed
  then show ?thesis unfolding add_type_rule_def using keeps_refl [OF assms(1)] by (simp split: option.splits)
qed

lemma wf_frame:
  assumes "pd_avtab db' = pd_avtab db" "pd_dangling db' = pd_dangling db" "pd_types db' = pd_types db" "pd_nprim db' = pd_nprim db"
    "pd_attr_map db' = pd_attr_map db" "pd_val_struct db' = pd_val_struct db" "pd_val_name db' = pd_val_name db"
    "pd_permissive db' = pd_permissive db" "pd_roles db' = pd_roles db"
  shows "pd_wf db' = pd_wf db"
  unfolding pd_wf_def assms ..

definition type_allocs :: "pol_env \<Rightarrow> bool" where
  "type_allocs e \<longleftrightarrow> (\<forall>n k. pe_type_alloc e n k)"

lemma bit_of_less:
  assumes "0 < v" "v \<le> n"
  shows "bit_of v < unat n"
proof -
  have "v \<noteq> 0" using assms(1) by auto
  then have "unat (v - 1) = unat v - 1" "0 < unat v" by (simp_all add: unat_minus_one unat_gt_0)
  moreover have "unat v \<le> unat n" using assms(2) by (simp add: word_le_nat_alt)
  ultimately show ?thesis by (simp add: bit_of_def)
qed

lemma put_at_end: "length xs = i \<Longrightarrow> put_at i x d xs = xs @ [x]"
  by (simp add: put_at_def list_update_append)

lemma ebitmap_set_sub: "snd (ebitmap_set e s i) \<subseteq> insert i s"
  by (auto simp: ebitmap_set_def)

lemma add_type_wf:
  assumes wf: "pd_wf db" and e: "type_allocs e" and n: "unat (pd_nprim db) + 1 < 2 ^ 32"
  shows "pd_wf (snd (add_type e name attr db)) \<and> unat (pd_nprim (snd (add_type e name attr db))) \<le> unat (pd_nprim db) + 1"
proof (cases "map_of (pd_types db) name")
  case (Some t)
  then show ?thesis using wf by (simp add: add_type_def)
next
  case None
  define v where "v = pd_nprim db + 1"
  have v: "unat v = unat (pd_nprim db) + 1" using n by (simp add: v_def unat_word_ariths)
  then have bit: "bit_of v = unat (pd_nprim db)" by (simp add: bit_of_def v_def)
  define t where "t = \<lparr>td_value = v, td_primary = 1, td_attribute = attr\<rparr>"
  define db' where "db' = snd (add_type e name attr db)"
  note w = wf [unfolded pd_wf_def]
  have f: "pd_types db' = (name, t) # pd_types db" "pd_nprim db' = v" "pd_avtab db' = pd_avtab db" "pd_dangling db' = pd_dangling db"
    "pd_permissive db' = pd_permissive db" "pd_attr_map db' = pd_attr_map db @ [snd (ebitmap_set e {} (unat (pd_nprim db)))]"
    "pd_val_struct db' = pd_val_struct db @ [t]" "pd_val_name db' = pd_val_name db @ [name]"
    "pd_roles db' = map (\<lambda>r. snd (ebitmap_set e r (unat (pd_nprim db)))) (pd_roles db)"
    using None e w by (simp_all add: db'_def add_type_def type_allocs_def Let_def v_def [symmetric] bit put_at_end t_def)
  have new: "name \<notin> fst ` set (pd_types db)" using None by (simp add: map_of_eq_None_iff)
  have old: "0 < td_value u \<and> td_value u \<le> v \<and> pd_val_struct db' ! bit_of (td_value u) = u \<and> pd_val_name db' ! bit_of (td_value u) = m"
    if "(m, u) \<in> set (pd_types db)" for m u
  proof -
    have u: "0 < td_value u" "td_value u \<le> pd_nprim db" "pd_val_struct db ! bit_of (td_value u) = u" "pd_val_name db ! bit_of (td_value u) = m"
      using w that by auto
    moreover have "td_value u \<le> v" using u(2) v by (simp add: word_le_nat_alt)
    ultimately show ?thesis using bit_of_less [OF u(1,2)] w by (simp add: f nth_append)
  qed
  have bits: "\<forall>b\<in>s. b < unat v" if "s \<in> set (pd_roles db') \<union> set (pd_attr_map db')" for s
    using that w ebitmap_set_sub v unfolding f by fastforce
  have pos: "0 < v" using v by (simp add: word_less_nat_alt)
  have fresh: "0 < td_value t \<and> td_value t \<le> v \<and> pd_val_struct db' ! bit_of (td_value t) = t \<and> pd_val_name db' ! bit_of (td_value t) = name"
    using w pos bit by (simp add: f t_def nth_append)
  have "pd_wf db'" unfolding pd_wf_def
  proof (intro conjI)
    show "\<forall>(m, u)\<in>set (pd_types db'). 0 < td_value u \<and> td_value u \<le> pd_nprim db' \<and>
        pd_val_struct db' ! bit_of (td_value u) = u \<and> pd_val_name db' ! bit_of (td_value u) = m"
      unfolding f(1,2) using old fresh by auto
    show "\<forall>s\<in>set (pd_roles db') \<union> set (pd_attr_map db'). \<forall>b\<in>s. b < unat (pd_nprim db')" using bits f(2) by blast
  qed (use w new v in \<open>auto simp: f\<close>)
  then show ?thesis using f(2) v unfolding db'_def [symmetric] by simp
qed

lemma set_permissive_wf:
  assumes "pd_wf db" "(n, t) \<in> set (pd_types db)"
  shows "pd_wf (snd (set_permissive e p t db)) \<and> pd_nprim (snd (set_permissive e p t db)) = pd_nprim db"
proof -
  have "unat (td_value t) \<le> unat (pd_nprim db)" using assms unfolding pd_wf_def by (auto simp: word_le_nat_alt)
  then show ?thesis using assms(1) by (auto simp: set_permissive_def ebitmap_set_def Let_def pd_wf_def)
qed

lemma set_type_state_wf:
  assumes "pd_wf db"
  shows "pd_wf (snd (set_type_state e (Some n) p db)) \<and> pd_nprim (snd (set_type_state e (Some n) p db)) = pd_nprim db"
  using set_permissive_wf [OF assms map_of_SomeD] assms by (auto simp: set_type_state_def split: option.split)

lemma add_typeattribute_wf:
  assumes "pd_wf db"
  shows "pd_wf (snd (add_typeattribute e type attr db)) \<and> pd_nprim (snd (add_typeattribute e type attr db)) = pd_nprim db"
proof (cases "fst (add_typeattribute e type attr db)")
  case False
  then show ?thesis using assms by (auto simp: add_typeattribute_def split: option.splits if_splits)
next
  case True
  then obtain t a where ta: "map_of (pd_types db) type = Some t" "map_of (pd_types db) attr = Some a"
    "snd (add_typeattribute e type attr db) = add_typeattribute_raw e t a db"
    by (auto simp: add_typeattribute_def split: option.splits if_splits)
  note w = assms [unfolded pd_wf_def]
  have "0 < td_value a" "td_value a \<le> pd_nprim db" "0 < td_value t" "td_value t \<le> pd_nprim db"
    using w map_of_SomeD [OF ta(1)] map_of_SomeD [OF ta(2)] by auto
  then have b: "bit_of (td_value a) < unat (pd_nprim db)" "bit_of (td_value t) < length (pd_attr_map db)" using bit_of_less w by simp_all
  have "\<forall>s\<in>set ((pd_attr_map db)[bit_of (td_value t) := snd (ebitmap_set e (pd_attr_map db ! bit_of (td_value t)) (bit_of (td_value a)))]).
      \<forall>b\<in>s. b < unat (pd_nprim db)"
    using w b nth_mem [OF b(2)] ebitmap_set_sub [of e "pd_attr_map db ! bit_of (td_value t)"] set_update_subset_insert
    by (smt (verit, ccfv_threshold) Un_iff insertE subset_iff)
  then show ?thesis unfolding ta(3) add_typeattribute_raw_def pd_wf_def Let_def using w by (simp add: ball_Un)
qed

lemma add_filename_trans_wf:
  assumes "pd_wf db"
  shows "pd_wf (snd (add_filename_trans e s t c d n db)) \<and> pd_nprim (snd (add_filename_trans e s t c d n db)) = pd_nprim db"
proof -
  have sc: "pd_wf (set_chain k ch db) \<and> pd_nprim (set_chain k ch db) = pd_nprim db" for k ch
    using assms wf_frame [of "set_chain k ch db" db] by (simp add: set_chain_def)
  have up: "pd_wf (x\<lparr>pd_ft_count := m\<rparr>) = pd_wf x" "pd_wf (x\<lparr>pd_ft := g, pd_ft_count := m\<rparr>) = pd_wf x" for x m g
    by (rule wf_frame; simp)+
  show ?thesis unfolding add_filename_trans_def Let_def
    using assms sc up by (simp split: option.splits ft_found.splits prod.splits)
qed

lemma ksu_type_wf:
  assumes "pd_wf db" "type_allocs e" "unat (pd_nprim db) + 1 < 2 ^ 32"
  shows "pd_wf (snd (ksu_type e n a db)) \<and> unat (pd_nprim (snd (ksu_type e n a db))) \<le> unat (pd_nprim db) + 1"
proof -
  obtain ok db1 where t: "add_type e n False db = (ok, db1)" by fastforce
  then show ?thesis using add_type_wf [OF assms, of n False] add_typeattribute_wf [of db1 e n a] by (simp add: ksu_type_def)
qed

lemma wf_avtab: "pd_wf db \<Longrightarrow> avtab_wf (pd_avtab db)"
  by (simp add: pd_wf_def)

lemmas cmd_wf = keeps_wf [OF _ add_rule_keeps [OF wf_avtab]] keeps_wf [OF _ add_xperm_rule_keeps [OF wf_avtab]]
  keeps_wf [OF _ add_type_rule_keeps [OF wf_avtab]] set_type_state_wf add_typeattribute_wf add_filename_trans_wf

lemma apply_one_wf:
  assumes "pd_wf db" "type_allocs e" "unat (pd_nprim db) + 1 < 2 ^ 32"
  shows "pd_wf (snd (apply_one_sepolicy_cmd e h args db)) \<and>
    unat (pd_nprim (snd (apply_one_sepolicy_cmd e h args db))) \<le> unat (pd_nprim db) + 1"
proof -
  define good where "good = (\<lambda>r :: bool \<times> policydb. pd_wf (snd r) \<and> unat (pd_nprim (snd r)) \<le> unat (pd_nprim db) + 1)"
  define ok where "ok = (\<lambda>r :: int \<times> policydb. pd_wf (snd r) \<and> unat (pd_nprim (snd r)) \<le> unat (pd_nprim db) + 1)"
  have code: "ok (code_of r)" if "good r" for r using that by (simp add: code_of_def good_def ok_def)
  have cond: "ok (if c then a else b)" if "ok a" "ok b" for a b c using that by simp
  have rule: "good (add_rule e a b c d eff inv db)" if "eff \<in> av_effects" for a b c d eff inv
    using cmd_wf(1) [OF assms(1) assms(1) that] by (simp add: good_def)
  have xperm: "good (add_xperm_rule e a b c d eff inv db)" if "eff \<in> xperm_effects" for a b c d eff inv
    using cmd_wf(2) [OF assms(1) assms(1) that] by (simp add: good_def)
  have trule: "good (add_type_rule e a b c d eff db)" if "eff \<in> {AVTAB_TRANSITION, AVTAB_MEMBER, AVTAB_CHANGE}" for a b c d eff
    using cmd_wf(3) [OF assms(1) assms(1) that] by (simp add: good_def)
  have other: "good (set_type_state e (Some n) p db)" "good (add_typeattribute e n m db)" "good (add_filename_trans e n m c d f db)"
    "good (ksu_type e n m db)" "good (add_type e n p db)" "good (False, db)" for n m c d f p
    using cmd_wf(4-6) [OF assms(1)] ksu_type_wf [OF assms] add_type_wf [OF assms] assms(1) by (simp_all add: good_def)
  have bad: "ok (- EINVAL, db)" using assms(1) by (simp add: ok_def)
  have eff: "AVTAB_ALLOWED \<in> av_effects" "AVTAB_AUDITALLOW \<in> av_effects" "AVTAB_AUDITDENY \<in> av_effects"
    "AVTAB_XPERMS_ALLOWED \<in> xperm_effects" "AVTAB_XPERMS_AUDITALLOW \<in> xperm_effects" "AVTAB_XPERMS_DONTAUDIT \<in> xperm_effects"
    by (simp_all add: av_effects_def xperm_effects_def)
  have ops: "good (ksu_allow e a b c d db)" "good (ksu_deny e a b c d db)" "good (ksu_auditallow e a b c d db)" "good (ksu_dontaudit e a b c d db)"
    "good (ksu_allowxperm e a b c d db)" "good (ksu_auditallowxperm e a b c d db)" "good (ksu_dontauditxperm e a b c d db)"
    "good (ksu_type_transition e n m x y f db)" "good (ksu_type_change e n m x y db)" "good (ksu_type_member e n m x y db)"
    "good (ksu_permissive e n db)" "good (ksu_enforce e n db)" "good (ksu_typeattribute e n m db)" "good (ksu_attribute e n db)"
    "good (ksu_genfscon n m x db)" for a b c d n m x y f
    using rule xperm trule other eff unfolding ksu_allow_def ksu_deny_def ksu_auditallow_def ksu_dontaudit_def ksu_allowxperm_def
      ksu_auditallowxperm_def ksu_dontauditxperm_def ksu_type_transition_def ksu_type_change_def ksu_type_member_def
      ksu_permissive_def ksu_enforce_def ksu_typeattribute_def ksu_attribute_def ksu_genfscon_def add_genfscon_def
    by (simp_all split: option.split)
  have "ok (apply_one_sepolicy_cmd e h args db)" unfolding apply_one_sepolicy_cmd_def Let_def
    by (intro cond code ops other(4) bad)
  then show ?thesis by (simp add: ok_def)
qed

lemma run_cmds_wf:
  assumes "pd_wf db" "type_allocs e" "unat (pd_nprim db) + length cmds < 2 ^ 32"
  shows "pd_wf (fst (fold (run_cmd e) cmds (db, n))) \<and>
    unat (pd_nprim (fst (fold (run_cmd e) cmds (db, n)))) \<le> unat (pd_nprim db) + length cmds"
  using assms
proof (induction cmds arbitrary: db n)
  case (Cons c cmds)
  obtain db1 m where r: "run_cmd e c (db, n) = (db1, m)" by fastforce
  have "db1 = snd (apply_one_sepolicy_cmd e (fst c) (snd c @ replicate (KSU_SEPOLICY_MAX_ARGS - length (snd c)) None) db)"
    using r by (auto simp: run_cmd_def split: prod.splits)
  then have "pd_wf db1" "unat (pd_nprim db1) \<le> unat (pd_nprim db) + 1" using apply_one_wf [OF Cons.prems(1,2)] Cons.prems(3) by auto
  then show ?case using Cons.IH [of db1 m] Cons.prems(2,3) r by simp
qed simp


lemma pdb0_wf: "pd_wf pdb0"
  by (simp add: pd_wf_def avtab_wf_def avtab_ok_def pdb0_def bit_of_def su_type_def domain_type_def chars_def word_le_nat_alt)


section \<open>Filename transitions that are refused or shared\<close>

lemma ft_walk_none: "\<forall>x\<in>set chain. b \<notin> ftd_stypes x \<and> ftd_otype x \<noteq> v \<Longrightarrow> ft_walk b v chain = FtNone"
  by (induction chain) auto

text \<open>A second default type for a name whose transition exists is never added: the insertion of the key is
  refused, whatever is allocated.\<close>

lemma filename_trans_second_default:
  assumes "map_of (pd_types db) s = Some src" "map_of (pd_types db) t = Some tgt" "map_of (pd_classes db) c = Some cls"
    "map_of (pd_types db) d = Some def" "map_of (pd_ft db) (td_value tgt, ucast (cd_value cls), n) = Some chain"
    and "\<forall>x\<in>set chain. bit_of (td_value src) \<notin> ftd_stypes x \<and> ftd_otype x \<noteq> td_value def"
  shows "add_filename_trans e s t c d n db = (False, db)"
  using assms by (simp add: add_filename_trans_def ft_walk_none Let_def)

lemma map_of_replace: "map_of ft key \<noteq> None \<Longrightarrow> map_of (map (\<lambda>(k, c). if k = key then (k, ch) else (k, c)) ft) key = Some ch"
  by (induction ft) (auto split: if_splits)

text \<open>Overwriting the default of one source type changes it for every source type of the same entry.\<close>

lemma filename_trans_overwrites_others:
  assumes "map_of (pd_types db) s = Some src" "map_of (pd_types db) t = Some tgt" "map_of (pd_classes db) c = Some cls"
    "map_of (pd_types db) d = Some def" "map_of (pd_ft db) (td_value tgt, ucast (cd_value cls), n) = Some (x # xs)"
    and "bit_of (td_value src) \<in> ftd_stypes x"
  shows "map_of (pd_ft (snd (add_filename_trans e s t c d n db))) (td_value tgt, ucast (cd_value cls), n) =
    Some (x\<lparr>ftd_otype := td_value def\<rparr> # xs)"
  using assms by (simp add: add_filename_trans_def Let_def set_chain_def map_of_replace)

end
