(* ===== verification/KSU_FileWrapper.thy ===== *)
theory KSU_FileWrapper
  imports KSU_Prelude
begin

text \<open>
  Wrapping an open file (\<open>infra/file_wrapper.c\<close>): a new descriptor with the SELinux label of the module
  whose operations are those of the original file.

  Files, paths and worlds of the operations are abstract: a file is a number, \<open>'w\<close> is what the operations
  of a file act on. An operation gets its file, a second file where it has one, and its other arguments.
  Reference counts, the wrapper behind each file, the private data of its dentry, the label and mode of
  its inode and the descriptor table are the state. Kernel functions are parameters, in \<open>fw_env\<close>.
\<close>

section \<open>Operations of a file\<close>

datatype fop = Llseek | Read | Write | Read_iter | Write_iter | Iopoll | Iterate | Iterate_shared | Poll
  | Unlocked_ioctl | Compat_ioctl | Mmap | Flush | Release | Fsync | Fasync | Lock | Sendpage | Get_unmapped_area
  | Check_flags | Flock | Splice_write | Splice_read | Splice_eof | Setlease | Fallocate | Show_fdinfo
  | Copy_file_range | Remap_file_range | Fadvise

type_synonym 'w op_fn = "nat \<Rightarrow> nat \<Rightarrow> u64 list \<Rightarrow> 'w \<Rightarrow> int \<times> 'w"
type_synonym 'w file_ops = "fop \<Rightarrow> 'w op_fn option"

text \<open>What a pointer in the table of a wrapper is: a function of this file or the original's own function.\<close>

datatype wrapper_fn = WForward | WChecked | WCopy | WRemap | WRelease | WOriginal

abbreviation REMAP_FILE_DEDUP :: u64 where "REMAP_FILE_DEDUP \<equiv> 1"

text \<open>The functions that pass the call on without a test, for an operation \<open>k\<close>. A NULL operation of the original
  would be called: nothing.\<close>

definition ksu_wrapper_forward :: "fop \<Rightarrow> 'w file_ops \<Rightarrow> nat \<Rightarrow> nat \<Rightarrow> u64 list \<Rightarrow> 'w \<Rightarrow> (int \<times> 'w) option" where
  "ksu_wrapper_forward k orig_ops orig other args w = map_option (\<lambda>f. f orig other args w) (orig_ops k)"

text \<open>The functions that test the operation first. The two without a result do nothing where it is missing.\<close>

definition ksu_wrapper_checked :: "fop \<Rightarrow> 'w file_ops \<Rightarrow> nat \<Rightarrow> nat \<Rightarrow> u64 list \<Rightarrow> 'w \<Rightarrow> (int \<times> 'w) option" where
  "ksu_wrapper_checked k orig_ops orig other args w = (case orig_ops k of
     Some f \<Rightarrow> Some (f orig other args w)
   | None \<Rightarrow> Some (if k = Splice_eof \<or> k = Show_fdinfo then 0 else - EINVAL, w))"

text \<open>\<open>orig_of\<close> gives the original behind the wrapper file. The wrapper is the output file here.\<close>

definition ksu_wrapper_copy_file_range ::
  "(nat \<Rightarrow> nat) \<Rightarrow> (nat \<Rightarrow> 'w file_ops) \<Rightarrow> nat \<Rightarrow> nat \<Rightarrow> u64 list \<Rightarrow> 'w \<Rightarrow> (int \<times> 'w) option" where
  "ksu_wrapper_copy_file_range orig_of ops file_in file_out args w =
     (let orig = orig_of file_out in map_option (\<lambda>f. f file_in orig args w) (ops orig Copy_file_range))"

text \<open>The flags are the last argument.\<close>

definition ksu_wrapper_remap_file_range ::
  "(nat \<Rightarrow> nat) \<Rightarrow> (nat \<Rightarrow> 'w file_ops) \<Rightarrow> nat \<Rightarrow> nat \<Rightarrow> u64 list \<Rightarrow> 'w \<Rightarrow> (int \<times> 'w) option" where
  "ksu_wrapper_remap_file_range orig_of ops file_in file_out args w =
     (if last args AND REMAP_FILE_DEDUP \<noteq> 0 then
        let orig = orig_of file_out in map_option (\<lambda>f. f file_in orig args w) (ops orig Remap_file_range)
      else
        let orig = orig_of file_in in map_option (\<lambda>f. f orig file_out args w) (ops orig Remap_file_range))"

definition direct_ops :: "fop list" where
  "direct_ops = [Llseek, Read, Write, Read_iter, Write_iter, Iopoll, Iterate, Iterate_shared, Poll, Unlocked_ioctl, Compat_ioctl,
     Mmap, Flush, Fsync, Fasync, Lock]"

text \<open>The table of a wrapper. \<open>newer\<close> is whether the kernel is 6.6 or later.\<close>

definition wrapper_ops :: "bool \<Rightarrow> 'w file_ops \<Rightarrow> fop \<Rightarrow> wrapper_fn option" where
  "wrapper_ops newer orig_ops k =
     (if k = Release then Some WRelease
      else if k = Check_flags then map_option (\<lambda>_. WOriginal) (orig_ops Check_flags)
      else if (k = Iterate \<or> k = Sendpage) \<and> newer then None
      else if k = Splice_eof \<and> \<not> newer then None
      else if orig_ops k = None then None
      else Some (if k = Copy_file_range then WCopy else if k = Remap_file_range then WRemap
                 else if k \<in> set direct_ops then WForward else WChecked))"

section \<open>State\<close>

record fw_inode =
  fi_mode :: u32
  fi_sid :: u32
  fi_open :: bool

record fw_state =
  fw_refs :: "nat \<Rightarrow> nat"
  fw_path_refs :: "nat \<Rightarrow> nat"
  fw_wrappers :: "(nat \<times> nat) list"
  fw_dentry :: "nat \<Rightarrow> nat option"
  fw_inodes :: "nat \<Rightarrow> fw_inode option"
  fw_fds :: "(int \<times> nat) list"
  fw_reserved :: "int list"
  fw_module :: int

text \<open>
  \<^item> \<open>fe_fget\<close>: the file behind a descriptor; \<open>fe_unused_fd\<close>: a free descriptor or an error;
  \<^item> \<open>fe_old\<close>: whether the kernel is older than 5.16 and the file has its own copy of the function that makes
    an anonymous file; \<open>fe_getfile\<close>: what the kernel's gives otherwise;
  \<^item> \<open>fe_mnt\<close>, \<open>fe_module_get\<close>, \<open>fe_alloc_inode\<close>, \<open>fe_init_sec\<close>, \<open>fe_alloc_file\<close>: the steps of that copy;
  \<^item> \<open>fe_mode\<close>, \<open>fe_path\<close>: mode and path of a file; \<open>fe_has_sec\<close>: whether an inode has SELinux data.
\<close>

record fw_env =
  fe_fget :: "int \<Rightarrow> nat option"
  fe_unused_fd :: int
  fe_alloc :: bool
  fe_old :: bool
  fe_getfile :: "int + nat"
  fe_mnt :: bool
  fe_module_get :: bool
  fe_alloc_inode :: int
  fe_init_sec :: int
  fe_alloc_file :: "int + nat"
  fe_path_alloc :: bool
  fe_mode :: "nat \<Rightarrow> u32"
  fe_path :: "nat \<Rightarrow> nat"
  fe_has_sec :: bool
  fe_file_sid :: u32
  fe_dentry_open :: "int + nat"

definition get_file :: "nat \<Rightarrow> fw_state \<Rightarrow> fw_state" where
  "get_file f s = s\<lparr>fw_refs := (fw_refs s)(f := fw_refs s f + 1)\<rparr>"

section \<open>Releasing\<close>

definition ksu_wrapper_d_release :: "nat \<Rightarrow> fw_state \<Rightarrow> fw_state" where
  "ksu_wrapper_d_release p s = s\<lparr>fw_path_refs := (fw_path_refs s)(p := fw_path_refs s p - 1)\<rparr>"

text \<open>The end of a file: its dentry goes with it.\<close>

definition dentry_free :: "nat \<Rightarrow> fw_state \<Rightarrow> fw_state" where
  "dentry_free f s = (case fw_dentry s f of
     None \<Rightarrow> s\<lparr>fw_inodes := (fw_inodes s)(f := None)\<rparr>
   | Some p \<Rightarrow> (ksu_wrapper_d_release p s)\<lparr>fw_dentry := (fw_dentry s)(f := None), fw_inodes := (fw_inodes s)(f := None)\<rparr>)"

text \<open>Giving a reference back. The last one of a wrapper releases the wrapper, which drops its reference to the
  original: \<open>ksu_wrapper_release\<close> and \<open>ksu_release_file_wrapper\<close>. The reference of the operations to the module
  is put by hand.\<close>

function fput :: "nat \<Rightarrow> fw_state \<Rightarrow> fw_state" where
  "fput f s =
     (let s1 = s\<lparr>fw_refs := (fw_refs s)(f := fw_refs s f - 1)\<rparr> in
      if fw_refs s1 f \<noteq> 0 then s1
      else (case map_of (fw_wrappers s1) f of
        None \<Rightarrow> s1
      | Some orig \<Rightarrow>
          dentry_free f (fput orig (s1\<lparr>fw_wrappers := filter (\<lambda>(g, _). g \<noteq> f) (fw_wrappers s1), fw_module := fw_module s1 - 1\<rparr>))))"
  by pat_completeness auto
termination
proof (relation "measure (\<lambda>(f, s). length (fw_wrappers s))")
  fix f :: nat and s x orig
  assume "x = s\<lparr>fw_refs := (fw_refs s)(f := fw_refs s f - 1)\<rparr>" "map_of (fw_wrappers x) f = Some orig"
  then have "(f, orig) \<in> set (fw_wrappers x)" by (meson map_of_SomeD)
  then show "((orig, x\<lparr>fw_wrappers := filter (\<lambda>(g, _). g \<noteq> f) (fw_wrappers x), fw_module := fw_module x - 1\<rparr>), f, s) \<in> measure (\<lambda>(f, s). length (fw_wrappers s))"
    using \<open>x = _\<close> length_filter_less [of "(f, orig)" "fw_wrappers x" "\<lambda>(g, _). g \<noteq> f"] by simp
qed simp

declare fput.simps [simp del]

section \<open>Creating and installing\<close>

abbreviation ENODEV :: int where "ENODEV \<equiv> 19"

text \<open>The wrapper holds a reference to the original; nothing where the allocation fails.\<close>

definition ksu_create_file_wrapper :: "fw_env \<Rightarrow> nat \<Rightarrow> fw_state \<Rightarrow> fw_state option" where
  "ksu_create_file_wrapper e fp s = (if \<not> fe_alloc e then None else Some (get_file fp s))"

definition ksu_release_file_wrapper :: "nat \<Rightarrow> fw_state \<Rightarrow> fw_state" where
  "ksu_release_file_wrapper orig s = fput orig s"

definition ksu_anon_inode_make_secure_inode :: "fw_env \<Rightarrow> int" where
  "ksu_anon_inode_make_secure_inode e =
     (if \<not> fe_mnt e then - ENODEV
      else if fe_alloc_inode e \<noteq> 0 then fe_alloc_inode e
      else if fe_init_sec e \<noteq> 0 then fe_init_sec e
      else 0)"

text \<open>A file for the wrapper with its private data set: the error or the file, and the state. Every path that fails gives
  the reference to the module back. The kernel's own function does the same in one step.\<close>

definition new_wrapper_file :: "nat \<Rightarrow> nat \<Rightarrow> fw_state \<Rightarrow> fw_state" where
  "new_wrapper_file f orig s = s\<lparr>fw_refs := (fw_refs s)(f := 1), fw_wrappers := (f, orig) # fw_wrappers s,
     fw_inodes := (fw_inodes s)(f := Some \<lparr>fi_mode = 0, fi_sid = 0, fi_open = False\<rparr>), fw_module := fw_module s + 1\<rparr>"

definition ksu_anon_inode_create_getfile_compat :: "fw_env \<Rightarrow> nat \<Rightarrow> fw_state \<Rightarrow> (int + nat) \<times> fw_state" where
  "ksu_anon_inode_create_getfile_compat e orig s =
     (if fe_old e then
        if \<not> fe_module_get e then (Inl (- ENOENT), s)
        else
          let r = ksu_anon_inode_make_secure_inode e in
          if r \<noteq> 0 then (Inl r, s)
          else (case fe_alloc_file e of
            Inl err \<Rightarrow> (Inl err, s)
          | Inr f \<Rightarrow> (Inr f, new_wrapper_file f orig s))
      else (case fe_getfile e of
        Inl err \<Rightarrow> (Inl err, s)
      | Inr f \<Rightarrow> (Inr f, new_wrapper_file f orig s)))"

definition put_fd :: "int \<Rightarrow> fw_state \<Rightarrow> fw_state" where
  "put_fd fd s = s\<lparr>fw_reserved := remove1 fd (fw_reserved s)\<rparr>"

definition ksu_install_file_wrapper :: "fw_env \<Rightarrow> int \<Rightarrow> fw_state \<Rightarrow> int \<times> fw_state" where
  "ksu_install_file_wrapper e fd s = (case fe_fget e fd of
     None \<Rightarrow> (- EBADF, s)
   | Some orig \<Rightarrow>
       let s1 = get_file orig s; out_fd = fe_unused_fd e in
       if out_fd < 0 then (out_fd, fput orig s1)
       else
         let s2 = s1\<lparr>fw_reserved := out_fd # fw_reserved s1\<rparr> in
         (case ksu_create_file_wrapper e orig s2 of
            None \<Rightarrow> (- ENOMEM, fput orig (put_fd out_fd s2))
          | Some s3 \<Rightarrow>
              (case ksu_anon_inode_create_getfile_compat e orig s3 of
                 (Inl err, s4) \<Rightarrow> (err, fput orig (put_fd out_fd (ksu_release_file_wrapper orig s4)))
               | (Inr f, s4) \<Rightarrow>
                   let s5 = s4\<lparr>fw_inodes := (fw_inodes s4)(f := Some \<lparr>fi_mode = fe_mode e orig,
                              fi_sid = (if fe_has_sec e then fe_file_sid e else 0), fi_open = True\<rparr>)\<rparr> in
                   if \<not> fe_path_alloc e then (- ENOMEM, fput orig (put_fd out_fd (fput f s5)))
                   else
                     let p = fe_path e orig;
                         s6 = s5\<lparr>fw_path_refs := (fw_path_refs s5)(p := fw_path_refs s5 p + 1),
                                 fw_dentry := (fw_dentry s5)(f := Some p),
                                 fw_fds := (out_fd, f) # fw_fds s5, fw_reserved := remove1 out_fd (fw_reserved s5)\<rparr>
                     in (out_fd, fput orig s6))))"

text \<open>Opening the inode of a wrapper again, through its name under \<open>/proc\<close>: the original's path is opened and
  wrapped; \<open>fp\<close> is the file that is being opened.\<close>

definition ksu_wrapper_open :: "fw_env \<Rightarrow> nat \<Rightarrow> fw_state \<Rightarrow> int \<times> fw_state" where
  "ksu_wrapper_open e fp s = (case fe_dentry_open e of
     Inl err \<Rightarrow> (err, s)
   | Inr orig \<Rightarrow>
       let s1 = s\<lparr>fw_refs := (fw_refs s)(orig := 1)\<rparr> in
       (case ksu_create_file_wrapper e orig s1 of
          None \<Rightarrow> (- ENOMEM, fput orig s1)
        | Some s2 \<Rightarrow> (0, s2\<lparr>fw_wrappers := (fp, orig) # fw_wrappers s2, fw_module := fw_module s2 + 1\<rparr>)))"

section \<open>Lemmas: references\<close>

definition fresh_file :: "nat \<Rightarrow> fw_state \<Rightarrow> bool" where
  "fresh_file f s \<longleftrightarrow> fw_refs s f = 0 \<and> f \<notin> fst ` set (fw_wrappers s) \<and> fw_dentry s f = None \<and> fw_inodes s f = None"

text \<open>The kernel's error codes are negative and a file it makes is new.\<close>

definition fw_env_ok :: "fw_env \<Rightarrow> fw_state \<Rightarrow> bool" where
  "fw_env_ok e s \<longleftrightarrow> (case fe_getfile e of Inl err \<Rightarrow> err < 0 | Inr f \<Rightarrow> fresh_file f s) \<and>
     (case fe_alloc_file e of Inl err \<Rightarrow> err < 0 | Inr f \<Rightarrow> fresh_file f s) \<and>
     fe_alloc_inode e \<le> 0 \<and> fe_init_sec e \<le> 0"

lemma fput_shared: "1 < fw_refs s f \<Longrightarrow> fput f s = s\<lparr>fw_refs := (fw_refs s)(f := fw_refs s f - 1)\<rparr>"
  by (subst fput.simps) (simp add: Let_def)

lemma fput_wrapper:
  assumes "fw_refs s f = 1" "map_of (fw_wrappers s) f = Some orig"
  shows "fput f s = dentry_free f (fput orig (s\<lparr>fw_refs := (fw_refs s)(f := 0),
    fw_wrappers := filter (\<lambda>(g, _). g \<noteq> f) (fw_wrappers s), fw_module := fw_module s - 1\<rparr>))"
  using assms by (subst fput.simps) (simp add: Let_def)

lemma fput_get: "0 < fw_refs s f \<Longrightarrow> fput f (get_file f s) = s"
  by (subst fput_shared) (auto simp: get_file_def)

lemma filter_fresh: "fresh_file f s \<Longrightarrow> filter (\<lambda>(g, _). g \<noteq> f) (fw_wrappers s) = fw_wrappers s"
  by (force simp: fresh_file_def filter_id_conv)

text \<open>Making the file of a wrapper: an error that leaves the state, or a new file.\<close>

lemma getfile_cases:
  assumes "fw_env_ok e s0" "ksu_anon_inode_create_getfile_compat e orig s = (r, s')"
  shows "(\<exists>err. r = Inl err \<and> err < 0 \<and> s' = s) \<or> (\<exists>f. r = Inr f \<and> fresh_file f s0 \<and> s' = new_wrapper_file f orig s)"
  using assms unfolding ksu_anon_inode_create_getfile_compat_def ksu_anon_inode_make_secure_inode_def fw_env_ok_def
  by (cases "fe_getfile e"; cases "fe_alloc_file e") (auto simp: Let_def split: if_splits, metis+)

text \<open>A new wrapper file over a state \<open>s\<close>, with \<open>n\<close> more references to the original than in \<open>s\<close>, goes without a trace.\<close>

lemma fput_new:
  assumes f: "fresh_file f s" "0 < fw_refs s orig" and d: "d = None \<or> (\<exists>p. d = Some p \<and> fw_path_refs s' p = fw_path_refs s p + 1)"
    and s': "fw_refs s' = (fw_refs s)(orig := fw_refs s orig + 1 + n, f := 1)" "fw_wrappers s' = (f, orig) # fw_wrappers s"
      "fw_dentry s' = (fw_dentry s)(f := d)" "\<forall>g. g \<noteq> f \<longrightarrow> fw_inodes s' g = fw_inodes s g" "fw_module s' = fw_module s + 1"
      "fw_path_refs s' = (case d of None \<Rightarrow> fw_path_refs s | Some p \<Rightarrow> (fw_path_refs s)(p := fw_path_refs s p + 1))"
      "fw_fds s' = fw_fds s" "fw_reserved s' = r"
  shows "fput f s' = s\<lparr>fw_refs := (fw_refs s)(orig := fw_refs s orig + n), fw_reserved := r\<rparr>"
proof -
  have ne: "f \<noteq> orig" using f by (auto simp: fresh_file_def)
  let ?s1 = "s'\<lparr>fw_refs := (fw_refs s')(f := 0), fw_wrappers := fw_wrappers s, fw_module := fw_module s\<rparr>"
  have "fput f s' = dentry_free f (fput orig ?s1)"
    using fput_wrapper [of s' f orig] s' filter_fresh [OF f(1)] by simp
  also have "fput orig ?s1 = ?s1\<lparr>fw_refs := (fw_refs s)(orig := fw_refs s orig + n)\<rparr>"
    using f ne by (subst fput_shared) (auto simp: s'(1) fresh_file_def fun_eq_iff)
  also have "dentry_free f \<dots> = s\<lparr>fw_refs := (fw_refs s)(orig := fw_refs s orig + n), fw_reserved := r\<rparr>"
  proof -
    have "(fw_inodes s')(f := None) = fw_inodes s" "(fw_dentry s)(f := None) = fw_dentry s"
      using s'(4) f(1) by (auto simp: fresh_file_def fun_eq_iff)
    moreover have "fw_dentry s f = None" using f(1) by (simp add: fresh_file_def)
    ultimately show ?thesis using s' d
      by (cases d) (auto simp: dentry_free_def ksu_wrapper_d_release_def fun_upd_idem intro!: fw_state.equality)
  qed
  finally show ?thesis .
qed

text \<open>(C35) Wrapping a file keeps the books. When any step fails the caller gets an error and every reference count, the
  descriptor table and the wrappers are as before. When it succeeds there is one new file with one reference, behind the
  new descriptor, that carries the label of the module and the mode of the original; it holds exactly one
  reference to the original and one to its path; and closing it gives all of them back.\<close>

theorem file_wrapper_references:
  assumes "fe_fget e fd = Some orig" "0 < fw_refs s orig" "fw_env_ok e s"
    and "ksu_install_file_wrapper e fd s = (ret, s')"
  shows "ret < 0 \<and> s' = s \<or>
    0 \<le> ret \<and> (\<exists>f. fresh_file f s \<and> fw_fds s' = (ret, f) # fw_fds s \<and> fw_reserved s' = fw_reserved s \<and>
      map_of (fw_wrappers s') f = Some orig \<and>
      fw_inodes s' f = Some \<lparr>fi_mode = fe_mode e orig, fi_sid = (if fe_has_sec e then fe_file_sid e else 0), fi_open = True\<rparr> \<and>
      fw_refs s' = (fw_refs s)(orig := fw_refs s orig + 1, f := 1) \<and>
      fw_path_refs s' = (fw_path_refs s)(fe_path e orig := fw_path_refs s (fe_path e orig) + 1) \<and>
      fput f (s'\<lparr>fw_fds := fw_fds s\<rparr>) = s)"
proof -
  define s1 where "s1 = get_file orig s"
  define s2 where "s2 = s1\<lparr>fw_reserved := fe_unused_fd e # fw_reserved s1\<rparr>"
  define s3 where "s3 = get_file orig s2"
  note inst = assms(4) [unfolded ksu_install_file_wrapper_def assms(1) option.case Let_def, folded s1_def, folded s2_def]
  have put2: "fput orig (put_fd (fe_unused_fd e) s2) = s"
    using fput_get [OF assms(2)] by (simp add: put_fd_def s2_def s1_def get_file_def)
  have put3: "fput orig s3 = s2" using fput_get [of s2 orig] assms(2) by (simp add: s3_def s2_def s1_def get_file_def)
  consider "fe_unused_fd e < 0" | "0 \<le> fe_unused_fd e" "\<not> fe_alloc e" | "0 \<le> fe_unused_fd e" "fe_alloc e" by linarith
  then show ?thesis
  proof cases
    case 1
    then show ?thesis using inst fput_get [OF assms(2)] by (simp add: s1_def)
  next
    case 2
    then show ?thesis using inst put2 by (simp add: ksu_create_file_wrapper_def)
  next
    case 3
    obtain r s4 where g: "ksu_anon_inode_create_getfile_compat e orig s3 = (r, s4)" by fastforce
    have c: "ksu_create_file_wrapper e orig s2 = Some s3" using 3 by (simp add: ksu_create_file_wrapper_def s3_def)
    show ?thesis
    proof (cases r)
      case (Inl err)
      then have "err < 0" "s4 = s3" using getfile_cases [OF assms(3) g] by auto
      then show ?thesis using inst 3 c g Inl put2 put3 by (simp add: ksu_release_file_wrapper_def)
    next
      case (Inr f)
      then have f: "fresh_file f s" "s4 = new_wrapper_file f orig s3" using getfile_cases [OF assms(3) g] by auto
      then have ne: "f \<noteq> orig" using assms(2) by (auto simp: fresh_file_def)
      define s5 where "s5 = s4\<lparr>fw_inodes := (fw_inodes s4)(f := Some \<lparr>fi_mode = fe_mode e orig,
        fi_sid = (if fe_has_sec e then fe_file_sid e else 0), fi_open = True\<rparr>)\<rparr>"
      let ?p = "fe_path e orig"
      let ?s6 = "s5\<lparr>fw_path_refs := (fw_path_refs s5)(?p := fw_path_refs s5 ?p + 1), fw_dentry := (fw_dentry s5)(f := Some ?p),
        fw_fds := (fe_unused_fd e, f) # fw_fds s5, fw_reserved := remove1 (fe_unused_fd e) (fw_reserved s5)\<rparr>"
      have inst5: "(if \<not> fe_path_alloc e then (- ENOMEM, fput orig (put_fd (fe_unused_fd e) (fput f s5))) else (fe_unused_fd e, fput orig ?s6)) = (ret, s')"
        using inst [unfolded c g Inr option.case prod.case sum.case, folded s5_def] 3(1) by simp
      have f5: "fw_refs s5 = (fw_refs s)(orig := fw_refs s orig + 2, f := 1)" "fw_wrappers s5 = (f, orig) # fw_wrappers s"
        "fw_dentry s5 = fw_dentry s" "\<forall>g. g \<noteq> f \<longrightarrow> fw_inodes s5 g = fw_inodes s g" "fw_module s5 = fw_module s + 1"
        "fw_path_refs s5 = fw_path_refs s" "fw_fds s5 = fw_fds s" "fw_reserved s5 = fe_unused_fd e # fw_reserved s"
        "fw_inodes s5 f = Some \<lparr>fi_mode = fe_mode e orig, fi_sid = (if fe_has_sec e then fe_file_sid e else 0), fi_open = True\<rparr>"
        by (simp_all add: s5_def f(2) new_wrapper_file_def s3_def s2_def s1_def get_file_def)
      show ?thesis
      proof (cases "fe_path_alloc e")
        case False
        have "fput f s5 = s2"
          using fput_new [OF f(1) assms(2), of None s5 1] f5 f(1) by (simp add: s2_def s1_def get_file_def fresh_file_def fun_upd_idem)
        then show ?thesis using inst5 False put2 by simp
      next
        case True
        have s': "s' = ?s6\<lparr>fw_refs := (fw_refs s)(orig := fw_refs s orig + 1, f := 1)\<rparr>" "ret = fe_unused_fd e"
          using inst5 True ne assms(2) by (auto simp: fput_shared f5(1) fun_upd_twist)
        have "fput f (s'\<lparr>fw_fds := fw_fds s\<rparr>) = s\<lparr>fw_refs := (fw_refs s)(orig := fw_refs s orig + 0), fw_reserved := fw_reserved s\<rparr>"
          by (rule fput_new [OF f(1) assms(2), where d = "Some ?p"]) (simp_all add: s'(1) f5)
        then show ?thesis using s' f(1) f5 3(1) by auto
      qed
    qed
  qed
qed

definition fenv0 :: fw_env where
  "fenv0 = \<lparr>fe_fget = (\<lambda>fd. if fd = 0 then Some 1 else None), fe_unused_fd = 5, fe_alloc = True, fe_old = False, fe_getfile = Inr 9,
     fe_mnt = True, fe_module_get = True, fe_alloc_inode = 0, fe_init_sec = 0, fe_alloc_file = Inr 9, fe_path_alloc = True,
     fe_mode = (\<lambda>_. 0x2190), fe_path = (\<lambda>_. 3), fe_has_sec = True, fe_file_sid = 77, fe_dentry_open = Inr 8\<rparr>"

definition fst0 :: fw_state where
  "fst0 = \<lparr>fw_refs = (\<lambda>f. if f = 1 then 1 else 0), fw_path_refs = (\<lambda>_. 1), fw_wrappers = [], fw_dentry = (\<lambda>_. None),
     fw_inodes = (\<lambda>_. None), fw_fds = [(0, 1)], fw_reserved = [], fw_module = 1\<rparr>"

theorem file_wrapper_references_witness:
  "\<exists>s' f. ksu_install_file_wrapper fenv0 0 fst0 = (5, s') \<and> fw_fds s' = [(5, f), (0, 1)] \<and> fw_refs s' 1 = 2 \<and>
     fput f (s'\<lparr>fw_fds := [(0, 1)]\<rparr>) = fst0"
proof -
  obtain ret s' where run: "ksu_install_file_wrapper fenv0 0 fst0 = (ret, s')" by fastforce
  have "ret = 5" using run by (simp add: ksu_install_file_wrapper_def fenv0_def ksu_create_file_wrapper_def
      ksu_anon_inode_create_getfile_compat_def Let_def)
  moreover have "fw_env_ok fenv0 fst0" by (simp add: fw_env_ok_def fresh_file_def fenv0_def fst0_def)
  moreover have "fe_fget fenv0 0 = Some 1" "0 < fw_refs fst0 1" "fw_fds fst0 = [(0, 1)]" "fw_refs fst0 1 = 1"
    by (simp_all add: fenv0_def fst0_def)
  moreover have "\<not> fresh_file 1 fst0" by (simp add: fresh_file_def fst0_def)
  ultimately show ?thesis using file_wrapper_references [OF _ _ _ run, of 1] run by auto
qed

text \<open>A file opened again through the inode of a wrapper keeps one reference for good: opening takes one, wrapping takes
  another, and only the second is given back.\<close>

lemma reopen_leaks_reference:
  assumes "fe_dentry_open e = Inr orig" "fe_alloc e" "fp \<noteq> orig" "fw_refs s fp = 1" "fw_dentry s fp = None"
    and "ksu_wrapper_open e fp s = (ret, s')"
  shows "ret = 0 \<and> fw_refs (fput fp s') orig = 1"
proof -
  have s': "ret = 0" "s' = (get_file orig (s\<lparr>fw_refs := (fw_refs s)(orig := 1)\<rparr>))\<lparr>fw_wrappers := (fp, orig) # fw_wrappers s, fw_module := fw_module s + 1\<rparr>"
    using assms(1,2,6) by (auto simp: ksu_wrapper_open_def ksu_create_file_wrapper_def Let_def get_file_def)
  have "fput fp s' = dentry_free fp (fput orig (s'\<lparr>fw_refs := (fw_refs s')(fp := 0),
      fw_wrappers := filter (\<lambda>(g, _). g \<noteq> fp) (fw_wrappers s'), fw_module := fw_module s' - 1\<rparr>))"
    using fput_wrapper [of s' fp orig] assms(3,4) by (simp add: s'(2) get_file_def)
  also have "fw_refs \<dots> orig = 1"
    using assms(3,5) by (subst fput_shared) (simp_all add: s'(2) get_file_def dentry_free_def)
  finally show ?thesis using s'(1) by simp
qed

section \<open>Lemmas: the operations of a wrapper\<close>

text \<open>Calling an operation of the wrapper \<open>f\<close> of \<open>orig\<close>: nothing where its table has no entry. For the two operations on two files the
  wrapper is the file whose table the kernel uses.\<close>

definition call_wrapper ::
  "bool \<Rightarrow> (nat \<Rightarrow> nat) \<Rightarrow> (nat \<Rightarrow> 'w file_ops) \<Rightarrow> nat \<Rightarrow> fop \<Rightarrow> nat \<Rightarrow> u64 list \<Rightarrow> 'w \<Rightarrow> (int \<times> 'w) option option" where
  "call_wrapper newer orig_of ops f k other args w =
     map_option (\<lambda>fn. case fn of
         WForward \<Rightarrow> ksu_wrapper_forward k (ops (orig_of f)) (orig_of f) other args w
       | WChecked \<Rightarrow> ksu_wrapper_checked k (ops (orig_of f)) (orig_of f) other args w
       | WCopy \<Rightarrow> ksu_wrapper_copy_file_range orig_of ops other f args w
       | WRemap \<Rightarrow> if last args AND REMAP_FILE_DEDUP \<noteq> 0
                   then ksu_wrapper_remap_file_range orig_of ops other f args w
                   else ksu_wrapper_remap_file_range orig_of ops f other args w
       | WOriginal \<Rightarrow> map_option (\<lambda>op. op f other args w) (ops (orig_of f) k)
       | WRelease \<Rightarrow> Some (0, w))
     (wrapper_ops newer (ops (orig_of f)) k)"

text \<open>The call the kernel would make on the original.\<close>

definition call_original :: "(nat \<Rightarrow> 'w file_ops) \<Rightarrow> nat \<Rightarrow> fop \<Rightarrow> nat \<Rightarrow> u64 list \<Rightarrow> 'w \<Rightarrow> (int \<times> 'w) option" where
  "call_original ops orig k other args w =
     map_option (\<lambda>op. if k = Copy_file_range \<or> k = Remap_file_range \<and> last args AND REMAP_FILE_DEDUP \<noteq> 0
                      then op other orig args w else op orig other args w) (ops orig k)"

definition old_op :: "bool \<Rightarrow> fop \<Rightarrow> bool" where
  "old_op newer k \<longleftrightarrow> (k = Iterate \<or> k = Sendpage) \<and> newer \<or> k = Splice_eof \<and> \<not> newer"

text \<open>A wrapper behaves like the file behind it: apart from its own release function, and the check of flags, which does not look
  at the file, it has an operation exactly when the original has it on this kernel, no call ends in a missing operation, and the
  call is the original's operation with the original file in the place of the wrapper, also for the copies and remaps
  between two files.\<close>

theorem wrapper_forwards:
  assumes "k \<noteq> Release" "k \<noteq> Check_flags"
  shows "case call_wrapper newer orig_of ops f k other args w of
      None \<Rightarrow> ops (orig_of f) k = None \<or> old_op newer k
    | Some r \<Rightarrow> r = call_original ops (orig_of f) k other args w \<and> r \<noteq> None \<and> \<not> old_op newer k"
  using assms by (cases "ops (orig_of f) k") (auto simp: call_wrapper_def call_original_def wrapper_ops_def old_op_def ksu_wrapper_forward_def
      ksu_wrapper_checked_def ksu_wrapper_copy_file_range_def ksu_wrapper_remap_file_range_def Let_def split: option.splits)

definition wops0 :: "nat \<Rightarrow> nat file_ops" where
  "wops0 f k = (if k = Read then Some (\<lambda>f g args w. (int f, w + 1)) else None)"

theorem wrapper_forwards_witness:
  "call_wrapper True (\<lambda>_. 1) wops0 9 Read 0 [] 3 = Some (Some (1, 4)) \<and> call_wrapper True (\<lambda>_. 1) wops0 9 Write 0 [] 3 = None"
proof -
  have "call_wrapper True (\<lambda>_. 1) wops0 9 Read 0 [] 3 \<noteq> None" "wops0 1 Write = None"
    by (simp_all add: call_wrapper_def wrapper_ops_def wops0_def direct_ops_def)
  moreover have "call_original wops0 1 Read 0 [] 3 = Some (1, 4)" by (simp add: call_original_def wops0_def)
  ultimately show ?thesis
    using wrapper_forwards [where k = Read and newer = True and orig_of = "\<lambda>_. 1" and ops = wops0 and f = 9 and other = 0 and args = "[]" and w = 3] wrapper_forwards [where k = Write and newer = True and orig_of = "\<lambda>_. 1" and ops = wops0 and f = 9 and other = 0 and args = "[]" and w = 3]
    by (auto simp: call_original_def split: option.splits)
qed

end
