(* ===== verification/KSU_Supercall.thy ===== *)
theory KSU_Supercall
  imports KSU_Runtime KSU_Symbols KSU_Sepolicy KSU_FileWrapper
begin

text \<open>
  The driver interface (\<open>supercall/dispatch.c\<close>, \<open>supercall/perm.c\<close>, \<open>supercall/supercall.c\<close>): the handlers behind the
  ioctl numbers, who may call them, and the commands hidden in the reboot system call.

  A handler gets the address of its argument in user memory and returns its code, what it wrote to user
  memory and the new state. User memory is read with \<open>ce_read\<close>, nothing on a fault, and \<open>ce_write\<close> is
  whether a write succeeds; structures are decoded at their offsets. The outer option is for the calls that
  may not return. The state is that of all the parts the handlers call.
\<close>

section \<open>State\<close>

record sc_world =
  sc_su :: su_world
  sc_features :: "su_world feature_state"
  sc_boot :: boot_state
  sc_selinux :: selinux_state
  sc_files :: fw_state
  sc_persists :: nat
  sc_nuked :: "bytes list"
  sc_pgrp :: "nat \<Rightarrow> nat"
  sc_ksuver :: u32
  sc_release :: bytes
  sc_version :: bytes
  sc_orig_release :: bytes
  sc_orig_version :: bytes
  sc_works :: "(nat \<times> u64) list"

record sc_env =
  ce_su :: su_env
  ce_pol :: pol_env
  ce_fw :: fw_env
  ce_symcfg :: sym_cfg
  ce_kallsyms :: kallsyms
  ce_sort :: "batch_entry list \<Rightarrow> batch_entry list"
  ce_names_alloc :: bool
  ce_addrs_alloc :: bool
  ce_batch_alloc :: bool
  ce_index_alloc :: bool
  ce_signal_index :: "nat \<Rightarrow> bool"
  ce_signal_walk :: "nat \<Rightarrow> bool"
  ce_signal_exact :: "nat \<Rightarrow> bool"
  ce_strndup :: "u64 \<Rightarrow> nat \<Rightarrow> int + bytes"
  ce_read :: "u64 \<Rightarrow> nat \<Rightarrow> bytes option"
  ce_write :: "u64 \<Rightarrow> nat \<Rightarrow> bool"
  ce_kmalloc :: "nat \<Rightarrow> bool"
  ce_kzalloc :: kzalloc_fn
  ce_find_task :: "int \<Rightarrow> nat option"
  ce_leader :: "nat \<Rightarrow> nat"
  ce_session :: "nat \<Rightarrow> nat"
  ce_init_task :: nat
  ce_kern_path :: "bytes \<Rightarrow> int"
  ce_fstype :: "bytes \<Rightarrow> bytes"
  ce_sulog_fd :: "int \<times> int"
  ce_su_version :: u32
  ce_version_tag :: bytes
  ce_module :: bool
  ce_bundled :: bool
  ce_preinit :: bool
  ce_tracepoints :: bool
  ce_init_found :: bool
  ce_persist_alloc :: bool
  ce_persist_add :: int
  ce_tw_alloc :: bool
  ce_tw_add :: int
  ce_dump_alloc :: bool

type_synonym writes = "(u64 \<times> bytes) list"
type_synonym sc_result = "(int \<times> writes \<times> sc_world) option"

abbreviation sc_k :: "sc_world \<Rightarrow> ksu_world" where "sc_k w \<equiv> sw_ksu (sc_su w)"
abbreviation ce_k :: "sc_env \<Rightarrow> ksu_env" where "ce_k e \<equiv> se_env (ce_su e)"

definition set_k :: "ksu_world \<Rightarrow> sc_world \<Rightarrow> sc_world" where
  "set_k k w = w\<lparr>sc_su := (sc_su w)\<lparr>sw_ksu := k\<rparr>\<rparr>"

definition current_uid :: "sc_world \<Rightarrow> u32" where
  "current_uid w = cr_uid (current_cred (sc_k w))"

text \<open>Storing the allowlist of the current task's state.\<close>

definition set_allow :: "allow_state \<Rightarrow> ksu_world \<Rightarrow> ksu_world" where
  "set_allow s k = k\<lparr>kw_esc := (kw_esc k)\<lparr>xs_allow := s\<rparr>\<rparr>"

definition fail :: "int \<Rightarrow> sc_world \<Rightarrow> sc_result" where
  "fail code w = Some (code, [], w)"

text \<open>The copy at the end of most handlers.\<close>

definition reply :: "sc_env \<Rightarrow> u64 \<Rightarrow> bytes \<Rightarrow> sc_world \<Rightarrow> sc_result" where
  "reply e addr b w = (if ce_write e addr (length b) then Some (0, [(addr, b)], w) else fail (- EFAULT) w)"

definition u16_bytes :: "u16 \<Rightarrow> bytes" where
  "u16_bytes x = le_enc 2 (unat x)"

section \<open>Permissions\<close>

definition is_manager :: "sc_env \<Rightarrow> sc_world \<Rightarrow> bool" where
  "is_manager e w = is_uid_manager (ke_cfg (ce_k e)) (kw_appid (sc_k w)) (current_uid w)"

definition only_manager :: "sc_env \<Rightarrow> sc_world \<Rightarrow> bool" where
  "only_manager e w = is_manager e w"

definition only_root :: "sc_env \<Rightarrow> sc_world \<Rightarrow> bool" where
  "only_root e w = (current_uid w = 0)"

definition manager_or_root :: "sc_env \<Rightarrow> sc_world \<Rightarrow> bool" where
  "manager_or_root e w = (current_uid w = 0 \<or> is_manager e w)"

definition always_allow :: "sc_env \<Rightarrow> sc_world \<Rightarrow> bool" where
  "always_allow e w = True"

definition allowed_for_su :: "sc_env \<Rightarrow> sc_world \<Rightarrow> bool" where
  "allowed_for_su e w = (is_manager e w \<or> allowed_current (ce_k e) (sc_k w))"

section \<open>Becoming root and information\<close>

text \<open>The log entries: the first with the identity from before, the second with the uid in force afterwards.\<close>

definition do_grant_root :: "sc_env \<Rightarrow> u64 \<Rightarrow> sc_world \<Rightarrow> sc_result" where
  "do_grant_root e arg w =
     (let k = ce_k e; se = ce_su e; lg = se_log se; c = current_cred (sc_k w) in
      case escape_with_root_profile (ke_cfg k) (kw_appid (sc_k w)) (ke_allow_shell k) (ke_hf k) (se_esc se) (se_ns se)
             (ke_lsm k) (kw_esc (sc_k w)) of
        None \<Rightarrow> None
      | Some (ret, es) \<Rightarrow>
          let k1 = (sc_k w)\<lparr>kw_esc := es\<rparr> in
          (case ksu_sulog_emit_grant_root (lg_user lg) (lg_task lg) (lg_alloc1 lg) (lg_alloc2 lg) (lg_push_alloc lg) (lg_now lg)
                  ret (cr_uid c) (cr_euid c) (sw_log (sc_su w)) of
             None \<Rightarrow> None
           | Some (_, log1) \<Rightarrow>
               let su1 = (sc_su w)\<lparr>sw_ksu := k1, sw_log := log1\<rparr> in
               Some (ret, [], w\<lparr>sc_su := compat_log se (cr_uid (current_cred k1)) 105 su1\<rparr>)))"

abbreviation KSU_GET_INFO_FLAG_LKM :: u32 where "KSU_GET_INFO_FLAG_LKM \<equiv> 1"
abbreviation KSU_GET_INFO_FLAG_MANAGER :: u32 where "KSU_GET_INFO_FLAG_MANAGER \<equiv> 2"
abbreviation KSU_GET_INFO_FLAG_LATE_LOAD :: u32 where "KSU_GET_INFO_FLAG_LATE_LOAD \<equiv> 4"
abbreviation KSU_GET_INFO_FLAG_BUNDLED :: u32 where "KSU_GET_INFO_FLAG_BUNDLED \<equiv> 16"
abbreviation KSU_GET_INFO_FLAG_PREINIT :: u32 where "KSU_GET_INFO_FLAG_PREINIT \<equiv> 32"
abbreviation KERNEL_SU_UAPI_VERSION :: u32 where "KERNEL_SU_UAPI_VERSION \<equiv> 6"

definition flag :: "bool \<Rightarrow> u32 \<Rightarrow> u32" where
  "flag b v = (if b then v else 0)"

definition info_flags :: "sc_env \<Rightarrow> sc_world \<Rightarrow> u32" where
  "info_flags e w = flag (ce_module e) KSU_GET_INFO_FLAG_LKM OR flag (ce_module e \<and> ce_bundled e) KSU_GET_INFO_FLAG_BUNDLED OR
     flag (is_manager e w) KSU_GET_INFO_FLAG_MANAGER OR flag (bt_late_loaded (sc_boot w)) KSU_GET_INFO_FLAG_LATE_LOAD"

definition do_get_info :: "sc_env \<Rightarrow> u64 \<Rightarrow> sc_world \<Rightarrow> sc_result" where
  "do_get_info e arg w =
     (let version = (if sc_ksuver w \<noteq> 0 then sc_ksuver w else ce_su_version e);
          flags = info_flags e w OR flag (ce_preinit e \<and> \<not> bt_late_loaded (sc_boot w)) KSU_GET_INFO_FLAG_PREINIT
      in reply e arg (u32_bytes version @ u32_bytes flags @ u32_bytes KSU_FEATURE_MAX @ u32_bytes KERNEL_SU_UAPI_VERSION) w)"

definition do_get_info_legacy :: "sc_env \<Rightarrow> u64 \<Rightarrow> sc_world \<Rightarrow> sc_result" where
  "do_get_info_legacy e arg w =
     reply e arg (u32_bytes (ce_su_version e) @ u32_bytes (info_flags e w) @ u32_bytes KSU_FEATURE_MAX) w"

definition sc_report_event :: "sc_env \<Rightarrow> u64 \<Rightarrow> sc_world \<Rightarrow> sc_result" where
  "sc_report_event e arg w =
     (case do_report_event (map_option bytes_u32 (ce_read e arg 4)) (sc_boot w) (sc_k w) of
        (ret, b, k) \<Rightarrow> Some (ret, [], (set_k k w)\<lparr>sc_boot := b\<rparr>))"

definition do_set_sepolicy :: "sc_env \<Rightarrow> u64 \<Rightarrow> sc_world \<Rightarrow> sc_result" where
  "do_set_sepolicy e arg w = (case ce_read e arg 16 of
     None \<Rightarrow> fail (- EFAULT) w
   | Some b \<Rightarrow>
       (case handle_sepolicy (ce_pol e) (bytes_u64 (field 8 8 b)) (bytes_u64 (field 0 8 b)) (sc_selinux w) of
          (ret, st) \<Rightarrow> Some (ret, [], w\<lparr>sc_selinux := st\<rparr>)))"

definition do_check_safemode :: "sc_env \<Rightarrow> u64 \<Rightarrow> sc_world \<Rightarrow> sc_result" where
  "do_check_safemode e arg w =
     (case ksu_is_safe_mode (sc_boot w) of (safe, b) \<Rightarrow> reply e arg (bool_byte safe) (w\<lparr>sc_boot := b\<rparr>))"

section \<open>Allowlist, profiles and features\<close>

definition do_new_get_allow_list_common :: "sc_env \<Rightarrow> u64 \<Rightarrow> bool \<Rightarrow> sc_world \<Rightarrow> sc_result" where
  "do_new_get_allow_list_common e arg allow w = (case ce_read e arg 4 of
     None \<Rightarrow> fail (- EFAULT) w
   | Some b \<Rightarrow>
       let cnt = (of_nat (le_dec (field 0 2 b)) :: u16) in
       if cnt \<noteq> 0 \<and> \<not> ce_kmalloc e (4 * unat cnt) then fail (- ENOMEM) w
       else
         (case ksu_get_allow_list (ke_cfg (ce_k e)) (kw_appid (sc_k w)) (kw_allow (sc_k w)) cnt allow of (uids, n, sum_all) \<Rightarrow>
            if \<not> ce_write e arg 4 then fail (- EFAULT) w
            else
              let head = (arg, u16_bytes n @ u16_bytes sum_all) in
              if n = 0 then Some (0, [head], w)
              else if \<not> ce_write e (arg + 4) (4 * unat n) then Some (- EFAULT, [head], w)
              else Some (0, [head, (arg + 4, concat (map u32_bytes uids))], w)))"

definition do_new_get_deny_list :: "sc_env \<Rightarrow> u64 \<Rightarrow> sc_world \<Rightarrow> sc_result" where
  "do_new_get_deny_list e arg = do_new_get_allow_list_common e arg False"

definition do_new_get_allow_list :: "sc_env \<Rightarrow> u64 \<Rightarrow> sc_world \<Rightarrow> sc_result" where
  "do_new_get_allow_list e arg = do_new_get_allow_list_common e arg True"

definition do_get_allow_list_common :: "sc_env \<Rightarrow> u64 \<Rightarrow> bool \<Rightarrow> sc_world \<Rightarrow> sc_result" where
  "do_get_allow_list_common e arg allow w =
     (if \<not> ce_kmalloc e (4 * 128) then fail (- ENOMEM) w
      else
        (case ksu_get_allow_list (ke_cfg (ce_k e)) (kw_appid (sc_k w)) (kw_allow (sc_k w)) 128 allow of (uids, n, _) \<Rightarrow>
           if \<not> ce_write e (arg + 512) 4 then fail (- EFAULT) w
           else
             let head = (arg + 512, u32_bytes (ucast n)) in
             if n \<noteq> 0 \<and> \<not> ce_write e arg (4 * unat n) then Some (- EFAULT, [head], w)
             else Some (0, [head, (arg, concat (map u32_bytes uids))], w)))"

definition do_get_deny_list :: "sc_env \<Rightarrow> u64 \<Rightarrow> sc_world \<Rightarrow> sc_result" where
  "do_get_deny_list e arg = do_get_allow_list_common e arg False"

definition do_get_allow_list :: "sc_env \<Rightarrow> u64 \<Rightarrow> sc_world \<Rightarrow> sc_result" where
  "do_get_allow_list e arg = do_get_allow_list_common e arg True"

definition do_uid_granted_root :: "sc_env \<Rightarrow> u64 \<Rightarrow> sc_world \<Rightarrow> sc_result" where
  "do_uid_granted_root e arg w = (case ce_read e arg 8 of
     None \<Rightarrow> fail (- EFAULT) w
   | Some b \<Rightarrow>
       let k = ce_k e;
           granted = ksu_is_uid_granted_root (ke_cfg k) (kw_appid (sc_k w)) (ke_allow_shell k) (ke_hf k) (kw_allow (sc_k w))
             (ke_lsm k) (ke_sc k) (current_cred (sc_k w)) (bytes_u32 (field 0 4 b))
       in reply e arg (take 4 b @ bool_byte granted @ drop 5 b) w)"

definition do_uid_should_umount :: "sc_env \<Rightarrow> u64 \<Rightarrow> sc_world \<Rightarrow> sc_result" where
  "do_uid_should_umount e arg w = (case ce_read e arg 8 of
     None \<Rightarrow> fail (- EFAULT) w
   | Some b \<Rightarrow>
       let k = ce_k e in
       (case ksu_uid_should_umount (ke_cfg k) (kw_appid (sc_k w)) (ke_allow_shell k) (ke_hf k) (kw_allow (sc_k w)) (bytes_u32 (field 0 4 b)) of
          None \<Rightarrow> None
        | Some (r, s) \<Rightarrow> reply e arg (take 4 b @ bool_byte r @ drop 5 b) (set_k (set_allow s (sc_k w)) w)))"

definition do_get_manager_appid :: "sc_env \<Rightarrow> u64 \<Rightarrow> sc_world \<Rightarrow> sc_result" where
  "do_get_manager_appid e arg w = reply e arg (u32_bytes (ksu_get_manager_appid (ke_cfg (ce_k e)) (kw_appid (sc_k w)))) w"

definition do_get_app_profile :: "sc_env \<Rightarrow> u64 \<Rightarrow> sc_world \<Rightarrow> sc_result" where
  "do_get_app_profile e arg w =
     (if cfg_disable_policy (ke_cfg (ce_k e)) then fail (- EOPNOTSUPP) w
      else (case ce_read e (arg + 260) 4 of
        None \<Rightarrow> fail (- EFAULT) w
      | Some b \<Rightarrow>
          (case ksu_get_app_profile (ke_hf (ce_k e)) (kw_allow (sc_k w)) (bytes_u32 b) of
             None \<Rightarrow> None
           | Some (None, s) \<Rightarrow> fail (- ENOENT) (set_k (set_allow s (sc_k w)) w)
           | Some (Some p, s) \<Rightarrow>
               (case al_heap s p of
                  None \<Rightarrow> None
                | Some d \<Rightarrow>
                    reply e arg (app_profile_bytes (pd_profile d)) (set_k (set_allow (ksu_put_app_profile s p) (sc_k w)) w)))))"

text \<open>Saving the list is work for the init task; it is queued when the task and the memory are there.\<close>

definition ksu_persistent_allow_list :: "sc_env \<Rightarrow> sc_world \<Rightarrow> sc_world" where
  "ksu_persistent_allow_list e w =
     (if \<not> ce_init_found e then w
      else if \<not> ce_persist_alloc e then w
      else if ce_persist_add e \<noteq> 0 then w
      else w\<lparr>sc_persists := Suc (sc_persists w)\<rparr>)"

definition do_set_app_profile :: "sc_env \<Rightarrow> u64 \<Rightarrow> sc_world \<Rightarrow> sc_result" where
  "do_set_app_profile e arg w =
     (let k = ce_k e in
      if cfg_disable_policy (ke_cfg k) then fail (- EOPNOTSUPP) w
      else (case ce_read e arg app_profile_size of
        None \<Rightarrow> fail (- EFAULT) w
      | Some b \<Rightarrow>
          (case ksu_set_app_profile (ke_cfg k) (ke_hf k) (ce_kzalloc e) (kw_allow (sc_k w)) (app_profile_of b) of (ret, s) \<Rightarrow>
             let w1 = set_k (set_allow s (sc_k w)) w in
             Some (ret, [], if ret = 0 then (let w2 = ksu_persistent_allow_list e w1 in set_k (ksu_mark_running_process k (sc_k w2)) w2) else w1))))"

abbreviation KSU_FEATURE_FLAG_SUPPORTED :: u8 where "KSU_FEATURE_FLAG_SUPPORTED \<equiv> 1"
abbreviation KSU_FEATURE_FLAG_FORCED :: u8 where "KSU_FEATURE_FLAG_FORCED \<equiv> 2"

definition do_get_feature :: "sc_env \<Rightarrow> u64 \<Rightarrow> sc_world \<Rightarrow> sc_result" where
  "do_get_feature e arg w = (case ce_read e arg 24 of
     None \<Rightarrow> fail (- EFAULT) w
   | Some b \<Rightarrow>
       let fid = bytes_u32 (field 0 4 b) in
       (case ksu_get_feature (sc_features w) (sc_su w) fid (bytes_u64 (field 8 8 b)) False of (ret, value, supported) \<Rightarrow>
          let supp = (if supported then KSU_FEATURE_FLAG_SUPPORTED OR
                        (if ksu_feature_is_forced (sc_features w) fid then KSU_FEATURE_FLAG_FORCED else 0) else 0)
          in if ret \<noteq> 0 \<and> supported then fail ret w
             else reply e arg (take 8 b @ u64_bytes value @ [supp] @ drop 17 b) w))"

definition do_set_feature :: "sc_env \<Rightarrow> u64 \<Rightarrow> sc_world \<Rightarrow> sc_result" where
  "do_set_feature e arg w = (case ce_read e arg 16 of
     None \<Rightarrow> fail (- EFAULT) w
   | Some b \<Rightarrow>
       (case ksu_set_feature (sc_features w) (bytes_u32 (field 0 4 b)) (bytes_u64 (field 8 8 b)) (sc_su w) of (ret, su) \<Rightarrow>
          Some (ret, [], w\<lparr>sc_su := su\<rparr>)))"

definition do_get_wrapper_fd :: "sc_env \<Rightarrow> u64 \<Rightarrow> sc_world \<Rightarrow> sc_result" where
  "do_get_wrapper_fd e arg w =
     (if ksu_file_sid (ke_sc (ce_k e)) = 0 then fail (- EINVAL) w
      else (case ce_read e arg 8 of
        None \<Rightarrow> fail (- EFAULT) w
      | Some b \<Rightarrow>
          (case ksu_install_file_wrapper (ce_fw e) (sint (bytes_u32 (field 0 4 b))) (sc_files w) of (ret, fs) \<Rightarrow>
             Some (ret, [], w\<lparr>sc_files := fs\<rparr>))))"

section \<open>Marks, mounts and the rest\<close>

abbreviation KSU_MARK_GET :: u32 where "KSU_MARK_GET \<equiv> 1"
abbreviation KSU_MARK_MARK :: u32 where "KSU_MARK_MARK \<equiv> 2"
abbreviation KSU_MARK_UNMARK :: u32 where "KSU_MARK_UNMARK \<equiv> 3"
abbreviation KSU_MARK_REFRESH :: u32 where "KSU_MARK_REFRESH \<equiv> 4"

definition do_manage_mark :: "sc_env \<Rightarrow> u64 \<Rightarrow> sc_world \<Rightarrow> sc_result" where
  "do_manage_mark e arg w = (case ce_read e arg 12 of
     None \<Rightarrow> fail (- EFAULT) w
   | Some b \<Rightarrow>
       let operation = bytes_u32 (field 0 4 b); pid = sint (bytes_u32 (field 4 4 b)); k = sc_k w in
       if operation = KSU_MARK_GET then
         let ret = ksu_get_task_mark (ce_find_task e) pid k in
         if ret < 0 then fail ret w else reply e arg (take 8 b @ u32_bytes (word_of_int ret)) w
       else if operation = KSU_MARK_MARK \<or> operation = KSU_MARK_UNMARK then
         let mark = (operation = KSU_MARK_MARK) in
         if pid = 0 then reply e arg b (set_k (if mark then ksu_mark_all_process k else ksu_unmark_all_process k) w)
         else (case ksu_set_task_mark (ce_find_task e) pid mark k of (ret, k1) \<Rightarrow>
                 if ret < 0 then fail ret (set_k k1 w) else reply e arg b (set_k k1 w))
       else if operation = KSU_MARK_REFRESH then reply e arg b (set_k (ksu_mark_running_process (ce_k e) k) w)
       else fail (- EINVAL) w)"

definition do_nuke_ext4_sysfs :: "sc_env \<Rightarrow> u64 \<Rightarrow> sc_world \<Rightarrow> sc_result" where
  "do_nuke_ext4_sysfs e arg w = (case ce_read e arg 8 of
     None \<Rightarrow> fail (- EFAULT) w
   | Some b \<Rightarrow>
       let ptr = bytes_u64 b in
       if ptr = 0 then fail (- EINVAL) w
       else (case strncpy_from_user (se_ustr (ce_su e) ptr) 256 of (ret, mnt) \<Rightarrow>
         if ret < 0 then fail (- EFAULT) w
         else if ret = 256 then fail (- ENAMETOOLONG) w
         else (case nuke_ext4_sysfs (ce_kern_path e mnt) (ce_fstype e mnt) of (r, gone) \<Rightarrow>
           Some (r, [], if gone then w\<lparr>sc_nuked := mnt # sc_nuked w\<rparr> else w))))"

abbreviation KSU_UMOUNT_WIPE :: u8 where "KSU_UMOUNT_WIPE \<equiv> 0"
abbreviation KSU_UMOUNT_ADD :: u8 where "KSU_UMOUNT_ADD \<equiv> 1"
abbreviation KSU_UMOUNT_DEL :: u8 where "KSU_UMOUNT_DEL \<equiv> 2"
abbreviation KSU_UMOUNT_GETSIZE :: u8 where "KSU_UMOUNT_GETSIZE \<equiv> 107"
abbreviation KSU_UMOUNT_GETLIST :: u8 where "KSU_UMOUNT_GETLIST \<equiv> 108"

text \<open>The copies of the list, one path after the other: the code and what was written.\<close>

fun umount_getlist :: "sc_env \<Rightarrow> u64 \<Rightarrow> (bytes \<times> u32) list \<Rightarrow> int \<times> writes" where
  "umount_getlist e user_buf [] = (0, [])"
| "umount_getlist e user_buf ((mnt, flags) # ms) =
     (if \<not> ce_write e user_buf (length mnt + 1) then (- EFAULT, [])
      else (case umount_getlist e (user_buf + of_nat (length mnt + 1)) ms of (ret, ws) \<Rightarrow> (ret, (user_buf, mnt @ [0]) # ws)))"

definition umount_size :: "(bytes \<times> u32) list \<Rightarrow> nat" where
  "umount_size ms = fold (\<lambda>(mnt, flags) total. total + length mnt + 1) ms 0"

text \<open>The path in the buffer of 256 bytes, of which \<open>n\<close> may be copied and the last is set to 0.\<close>

definition umount_path :: "sc_env \<Rightarrow> u64 \<Rightarrow> nat \<Rightarrow> int \<times> bytes" where
  "umount_path e ptr n = (case strncpy_from_user (se_ustr (ce_su e) ptr) n of (ret, b) \<Rightarrow> (ret, take 255 b))"

definition set_mounts :: "(bytes \<times> u32) list \<Rightarrow> sc_world \<Rightarrow> sc_world" where
  "set_mounts ms w = set_k ((sc_k w)\<lparr>kw_mounts := ms\<rparr>) w"

definition add_try_umount :: "sc_env \<Rightarrow> u64 \<Rightarrow> sc_world \<Rightarrow> sc_result" where
  "add_try_umount e arg w = (case ce_read e arg 16 of
     None \<Rightarrow> fail (- EFAULT) w
   | Some b \<Rightarrow>
       let ptr = bytes_u64 (field 0 8 b); flags = bytes_u32 (field 8 4 b); mode = b ! 12; ms = kw_mounts (sc_k w) in
       if mode = KSU_UMOUNT_WIPE then Some (0, [], set_mounts [] w)
       else if mode = KSU_UMOUNT_ADD then
         (case umount_path e ptr 256 of (len, path) \<Rightarrow>
            if len \<le> 0 then fail (- EFAULT) w
            else if \<not> ce_kmalloc e 32 then fail (- ENOMEM) w
            else if \<not> ce_kmalloc e (length path + 1) then fail (- ENOMEM) w
            else if path \<in> fst ` set ms then fail (- EEXIST) w
            else Some (0, [], set_mounts ((path, flags) # ms) w))
       else if mode = KSU_UMOUNT_DEL then
         (case umount_path e ptr 255 of (len, path) \<Rightarrow>
            if len \<le> 0 then fail (- EFAULT) w
            else Some (0, [], set_mounts (filter (\<lambda>(m, f). m \<noteq> path) ms) w))
       else if mode = KSU_UMOUNT_GETSIZE then
         if ptr = 0 then fail (- EFAULT) w
         else reply e ptr (u64_bytes (of_nat (umount_size ms))) w
       else if mode = KSU_UMOUNT_GETLIST then
         if ptr = 0 then fail (- EFAULT) w
         else (case umount_getlist e ptr ms of (ret, ws) \<Rightarrow> Some (ret, ws, w))
       else fail (- EINVAL) w)"

definition do_get_hook_mode :: "sc_env \<Rightarrow> u64 \<Rightarrow> sc_world \<Rightarrow> sc_result" where
  "do_get_hook_mode e arg w = reply e arg (strscpy_pad (if ce_tracepoints e then chars ''Tracepoint'' else chars ''Kprobes'') 16) w"

definition do_get_version_tag :: "sc_env \<Rightarrow> u64 \<Rightarrow> sc_world \<Rightarrow> sc_result" where
  "do_get_version_tag e arg w = reply e arg (strscpy_pad (ce_version_tag e) 32) w"

definition do_set_init_pgrp :: "sc_env \<Rightarrow> u64 \<Rightarrow> sc_world \<Rightarrow> sc_result" where
  "do_set_init_pgrp e arg w =
     (let p = ce_leader e (kw_current (sc_k w)); init_group = sc_pgrp w (ce_init_task e) in
      if ce_session e p \<noteq> ce_session e (ce_init_task e) then fail (- EPERM) w
      else Some (0, [], if sc_pgrp w p \<noteq> init_group then w\<lparr>sc_pgrp := (sc_pgrp w)(p := init_group)\<rparr> else w))"

definition do_get_sulog_fd :: "sc_env \<Rightarrow> u64 \<Rightarrow> sc_world \<Rightarrow> sc_result" where
  "do_get_sulog_fd e arg w = (case ce_read e arg 4 of
     None \<Rightarrow> fail (- EFAULT) w
   | Some b \<Rightarrow>
       if bytes_u32 b \<noteq> 0 then fail (- EINVAL) w
       else (case ksu_install_sulog_fd (fst (ce_sulog_fd e)) (snd (ce_sulog_fd e)) (sw_log (sc_su w)) of (ret, log) \<Rightarrow>
         Some (ret, [], w\<lparr>sc_su := (sc_su w)\<lparr>sw_log := log\<rparr>\<rparr>)))"

definition do_disable_escape_to_root :: "sc_env \<Rightarrow> u64 \<Rightarrow> sc_world \<Rightarrow> sc_result" where
  "do_disable_escape_to_root e arg w =
     (let k = sc_k w; t = kw_current k in
      Some (0, [], set_k (k\<lparr>kw_esc := (kw_esc k)\<lparr>xs_tasks := (xs_tasks (kw_esc k))(t := (kw_tasks k t)\<lparr>tk_disable_escape := True\<rparr>)\<rparr>\<rparr>) w))"

text \<open>The loop over the names; an overlong or empty name is a gap.\<close>

fun lookup_names :: "sc_env \<Rightarrow> u64 \<Rightarrow> nat \<Rightarrow> int + bytes option list" where
  "lookup_names e unames 0 = Inr []"
| "lookup_names e unames (Suc cnt) = (case ce_read e unames 8 of
     None \<Rightarrow> Inl (- EFAULT)
   | Some b \<Rightarrow>
       (case ce_strndup e (bytes_u64 b) (sy_name_len (ce_symcfg e)) of
          Inl err \<Rightarrow>
            if err = - EINVAL then map_sum (\<lambda>r. r) ((#) None) (lookup_names e (unames + 8) cnt) else Inl err
        | Inr name \<Rightarrow>
            map_sum (\<lambda>r. r) ((#) (if cstr name = [] then None else Some (cstr name))) (lookup_names e (unames + 8) cnt)))"

fun put_addrs :: "sc_env \<Rightarrow> u64 \<Rightarrow> u64 list \<Rightarrow> bool \<times> writes" where
  "put_addrs e uaddrs [] = (True, [])"
| "put_addrs e uaddrs (a # as) =
     (if \<not> ce_write e uaddrs 8 then (False, [])
      else (case put_addrs e (uaddrs + 8) as of (done, ws) \<Rightarrow> (done, (uaddrs, u64_bytes a) # ws)))"

abbreviation KSU_LOOKUP_SYMBOLS_MAX :: u32 where "KSU_LOOKUP_SYMBOLS_MAX \<equiv> 1024"

definition do_lookup_symbols :: "sc_env \<Rightarrow> u64 \<Rightarrow> sc_world \<Rightarrow> sc_result" where
  "do_lookup_symbols e arg w = (case ce_read e arg 24 of
     None \<Rightarrow> fail (- EFAULT) w
   | Some b \<Rightarrow>
       let cnt = bytes_u32 (field 16 4 b) in
       if bytes_u32 (field 20 4 b) \<noteq> 0 then fail (- EINVAL) w
       else if cnt = 0 \<or> cnt > KSU_LOOKUP_SYMBOLS_MAX then fail (- EINVAL) w
       else if \<not> ce_names_alloc e \<or> \<not> ce_addrs_alloc e then fail (- ENOMEM) w
       else (case lookup_names e (bytes_u64 (field 0 8 b)) (unat cnt) of
         Inl err \<Rightarrow> fail err w
       | Inr names \<Rightarrow>
           (case ksu_lookup_kernel_symbols (ce_symcfg e) (ce_kallsyms e) (ce_sort e) (ce_batch_alloc e) (ce_index_alloc e)
                   (ce_signal_index e) (ce_signal_walk e) (ce_signal_exact e) names of (ret, addrs) \<Rightarrow>
              if ret < 0 then fail ret w
              else (case put_addrs e (bytes_u64 (field 8 8 b)) addrs of (done, ws) \<Rightarrow>
                Some (if done then ret else - EFAULT, ws, w)))))"

section \<open>The table of commands\<close>

definition ioc :: "u32 \<Rightarrow> u32 \<Rightarrow> u32 \<Rightarrow> u32" where
  "ioc dir nr sz = push_bit 30 dir OR push_bit 16 sz OR push_bit 8 0x4b OR nr"

abbreviation IOC_NONE :: u32 where "IOC_NONE \<equiv> 0"
abbreviation IOC_WRITE :: u32 where "IOC_WRITE \<equiv> 1"
abbreviation IOC_READ :: u32 where "IOC_READ \<equiv> 2"
abbreviation IOC_RW :: u32 where "IOC_RW \<equiv> 3"

definition KSU_IOCTL_GRANT_ROOT :: u32 where "KSU_IOCTL_GRANT_ROOT = ioc IOC_NONE 1 0"
definition KSU_IOCTL_GET_INFO :: u32 where "KSU_IOCTL_GET_INFO = ioc IOC_READ 2 16"
definition KSU_IOCTL_GET_INFO_LEGACY :: u32 where "KSU_IOCTL_GET_INFO_LEGACY = ioc IOC_READ 2 0"
definition KSU_IOCTL_REPORT_EVENT :: u32 where "KSU_IOCTL_REPORT_EVENT = ioc IOC_WRITE 3 0"
definition KSU_IOCTL_SET_SEPOLICY :: u32 where "KSU_IOCTL_SET_SEPOLICY = ioc IOC_RW 4 0"
definition KSU_IOCTL_CHECK_SAFEMODE :: u32 where "KSU_IOCTL_CHECK_SAFEMODE = ioc IOC_READ 5 0"
definition KSU_IOCTL_GET_ALLOW_LIST :: u32 where "KSU_IOCTL_GET_ALLOW_LIST = ioc IOC_RW 6 0"
definition KSU_IOCTL_GET_DENY_LIST :: u32 where "KSU_IOCTL_GET_DENY_LIST = ioc IOC_RW 7 0"
definition KSU_IOCTL_NEW_GET_ALLOW_LIST :: u32 where "KSU_IOCTL_NEW_GET_ALLOW_LIST = ioc IOC_RW 6 4"
definition KSU_IOCTL_NEW_GET_DENY_LIST :: u32 where "KSU_IOCTL_NEW_GET_DENY_LIST = ioc IOC_RW 7 4"
definition KSU_IOCTL_UID_GRANTED_ROOT :: u32 where "KSU_IOCTL_UID_GRANTED_ROOT = ioc IOC_RW 8 0"
definition KSU_IOCTL_UID_SHOULD_UMOUNT :: u32 where "KSU_IOCTL_UID_SHOULD_UMOUNT = ioc IOC_RW 9 0"
definition KSU_IOCTL_GET_MANAGER_APPID :: u32 where "KSU_IOCTL_GET_MANAGER_APPID = ioc IOC_READ 10 0"
definition KSU_IOCTL_GET_APP_PROFILE :: u32 where "KSU_IOCTL_GET_APP_PROFILE = ioc IOC_RW 11 0"
definition KSU_IOCTL_SET_APP_PROFILE :: u32 where "KSU_IOCTL_SET_APP_PROFILE = ioc IOC_WRITE 12 0"
definition KSU_IOCTL_GET_FEATURE :: u32 where "KSU_IOCTL_GET_FEATURE = ioc IOC_RW 13 0"
definition KSU_IOCTL_SET_FEATURE :: u32 where "KSU_IOCTL_SET_FEATURE = ioc IOC_WRITE 14 0"
definition KSU_IOCTL_GET_WRAPPER_FD :: u32 where "KSU_IOCTL_GET_WRAPPER_FD = ioc IOC_WRITE 15 0"
definition KSU_IOCTL_MANAGE_MARK :: u32 where "KSU_IOCTL_MANAGE_MARK = ioc IOC_RW 16 0"
definition KSU_IOCTL_NUKE_EXT4_SYSFS :: u32 where "KSU_IOCTL_NUKE_EXT4_SYSFS = ioc IOC_WRITE 17 0"
definition KSU_IOCTL_ADD_TRY_UMOUNT :: u32 where "KSU_IOCTL_ADD_TRY_UMOUNT = ioc IOC_WRITE 18 0"
definition KSU_IOCTL_SET_INIT_PGRP :: u32 where "KSU_IOCTL_SET_INIT_PGRP = ioc IOC_NONE 19 0"
definition KSU_IOCTL_GET_SULOG_FD :: u32 where "KSU_IOCTL_GET_SULOG_FD = ioc IOC_WRITE 20 4"
definition KSU_IOCTL_DISABLE_ESCAPE_TO_ROOT :: u32 where "KSU_IOCTL_DISABLE_ESCAPE_TO_ROOT = ioc IOC_NONE 21 0"
definition KSU_IOCTL_LOOKUP_SYMBOLS :: u32 where "KSU_IOCTL_LOOKUP_SYMBOLS = ioc IOC_WRITE 22 24"
definition KSU_IOCTL_GET_HOOK_MODE :: u32 where "KSU_IOCTL_GET_HOOK_MODE = ioc IOC_READ 98 0"
definition KSU_IOCTL_GET_VERSION_TAG :: u32 where "KSU_IOCTL_GET_VERSION_TAG = ioc IOC_READ 99 0"

record ksu_ioctl_cmd_map =
  im_cmd :: u32
  im_handler :: "sc_env \<Rightarrow> u64 \<Rightarrow> sc_world \<Rightarrow> sc_result"
  im_perm_check :: "sc_env \<Rightarrow> sc_world \<Rightarrow> bool"
  im_allow_su_session :: bool

definition cmd_map ::
  "u32 \<Rightarrow> (sc_env \<Rightarrow> u64 \<Rightarrow> sc_world \<Rightarrow> sc_result) \<Rightarrow> (sc_env \<Rightarrow> sc_world \<Rightarrow> bool) \<Rightarrow> bool \<Rightarrow> ksu_ioctl_cmd_map" where
  "cmd_map c h p su = \<lparr>im_cmd = c, im_handler = h, im_perm_check = p, im_allow_su_session = su\<rparr>"

definition ksu_ioctl_handlers :: "ksu_ioctl_cmd_map list" where
  "ksu_ioctl_handlers = [
     cmd_map KSU_IOCTL_GRANT_ROOT do_grant_root allowed_for_su False,
     cmd_map KSU_IOCTL_GET_INFO do_get_info always_allow False,
     cmd_map KSU_IOCTL_GET_INFO_LEGACY do_get_info_legacy always_allow False,
     cmd_map KSU_IOCTL_REPORT_EVENT sc_report_event only_root False,
     cmd_map KSU_IOCTL_SET_SEPOLICY do_set_sepolicy only_root False,
     cmd_map KSU_IOCTL_CHECK_SAFEMODE do_check_safemode always_allow False,
     cmd_map KSU_IOCTL_GET_ALLOW_LIST do_get_allow_list manager_or_root False,
     cmd_map KSU_IOCTL_GET_DENY_LIST do_get_deny_list manager_or_root False,
     cmd_map KSU_IOCTL_NEW_GET_ALLOW_LIST do_new_get_allow_list manager_or_root False,
     cmd_map KSU_IOCTL_NEW_GET_DENY_LIST do_new_get_deny_list manager_or_root False,
     cmd_map KSU_IOCTL_UID_GRANTED_ROOT do_uid_granted_root manager_or_root False,
     cmd_map KSU_IOCTL_UID_SHOULD_UMOUNT do_uid_should_umount manager_or_root False,
     cmd_map KSU_IOCTL_GET_MANAGER_APPID do_get_manager_appid manager_or_root False,
     cmd_map KSU_IOCTL_GET_APP_PROFILE do_get_app_profile manager_or_root False,
     cmd_map KSU_IOCTL_SET_APP_PROFILE do_set_app_profile manager_or_root False,
     cmd_map KSU_IOCTL_GET_FEATURE do_get_feature manager_or_root False,
     cmd_map KSU_IOCTL_SET_FEATURE do_set_feature manager_or_root False,
     cmd_map KSU_IOCTL_GET_WRAPPER_FD do_get_wrapper_fd manager_or_root True,
     cmd_map KSU_IOCTL_MANAGE_MARK do_manage_mark manager_or_root False,
     cmd_map KSU_IOCTL_NUKE_EXT4_SYSFS do_nuke_ext4_sysfs manager_or_root False,
     cmd_map KSU_IOCTL_ADD_TRY_UMOUNT add_try_umount manager_or_root False,
     cmd_map KSU_IOCTL_SET_INIT_PGRP do_set_init_pgrp only_root False,
     cmd_map KSU_IOCTL_GET_SULOG_FD do_get_sulog_fd only_root False,
     cmd_map KSU_IOCTL_DISABLE_ESCAPE_TO_ROOT do_disable_escape_to_root only_root True,
     cmd_map KSU_IOCTL_LOOKUP_SYMBOLS do_lookup_symbols only_root False,
     cmd_map KSU_IOCTL_GET_HOOK_MODE do_get_hook_mode manager_or_root False,
     cmd_map KSU_IOCTL_GET_VERSION_TAG do_get_version_tag manager_or_root False]"

text \<open>A descriptor is its context: the permissions it was installed with.\<close>

definition ksu_is_su_session_fd :: "u64 option \<Rightarrow> bool" where
  "ksu_is_su_session_fd context = (case context of None \<Rightarrow> False | Some permissions \<Rightarrow> permissions AND KSU_DRIVER_PERMISSION_SU_SESSION \<noteq> 0)"

fun ioctl_loop :: "ksu_ioctl_cmd_map list \<Rightarrow> sc_env \<Rightarrow> u64 option \<Rightarrow> u32 \<Rightarrow> u64 \<Rightarrow> sc_world \<Rightarrow> sc_result" where
  "ioctl_loop [] e filp cmd argp w = fail (- ENOTTY) w"
| "ioctl_loop (h # hs) e filp cmd argp w =
     (if cmd = im_cmd h then
        if \<not> im_perm_check h e w \<and> \<not> (im_allow_su_session h \<and> ksu_is_su_session_fd filp) then fail (- EPERM) w
        else im_handler h e argp w
      else ioctl_loop hs e filp cmd argp w)"

definition ksu_supercall_handle_ioctl :: "sc_env \<Rightarrow> u64 option \<Rightarrow> u32 \<Rightarrow> u64 \<Rightarrow> sc_world \<Rightarrow> sc_result" where
  "ksu_supercall_handle_ioctl = ioctl_loop ksu_ioctl_handlers"

definition ksu_supercall_cleanup_state :: "sc_world \<Rightarrow> sc_world" where
  "ksu_supercall_cleanup_state w = set_mounts [] w"

section \<open>The reboot system call\<close>

text \<open>Closing the descriptor installed last; there is none under a negative number.\<close>

definition close_installed :: "int \<Rightarrow> ksu_world \<Rightarrow> ksu_world" where
  "close_installed fd k = (if fd < 0 then k else k\<lparr>kw_fds := tl (kw_fds k)\<rparr>)"

definition ksu_install_fd_tw_func :: "sc_env \<Rightarrow> u64 \<Rightarrow> sc_world \<Rightarrow> writes \<times> sc_world" where
  "ksu_install_fd_tw_func e outp w = (case ksu_install_fd (ce_k e) (sc_k w) of (fd, k) \<Rightarrow>
     if ce_write e outp 4 then ([(outp, u32_bytes (word_of_int fd))], set_k k w)
     else ([], set_k (close_installed fd k) w))"

abbreviation KSU_INSTALL_MAGIC1 :: u32 where "KSU_INSTALL_MAGIC1 \<equiv> 0xDEADBEEF"
abbreviation KSU_INSTALL_MAGIC2 :: u32 where "KSU_INSTALL_MAGIC2 \<equiv> 0xCAFEBABE"
abbreviation CHANGE_MANAGER_UID :: u32 where "CHANGE_MANAGER_UID \<equiv> 10006"
abbreviation GET_SULOG_DUMP_V2 :: u32 where "GET_SULOG_DUMP_V2 \<equiv> 10010"
abbreviation CHANGE_KSUVER :: u32 where "CHANGE_KSUVER \<equiv> 10011"
abbreviation CHANGE_SPOOF_UNAME :: u32 where "CHANGE_SPOOF_UNAME \<equiv> 10012"

definition reboot_install :: "sc_env \<Rightarrow> u64 \<Rightarrow> sc_world \<Rightarrow> sc_world" where
  "reboot_install e arg4 w =
     (if \<not> ce_tw_alloc e then w
      else if ce_tw_add e \<noteq> 0 then w
      else w\<lparr>sc_works := sc_works w @ [(kw_current (sc_k w), arg4)]\<rparr>)"

text \<open>The confirmation: the address itself.\<close>

definition reboot_reply :: "sc_env \<Rightarrow> u64 \<Rightarrow> writes" where
  "reboot_reply e arg4 = (if ce_write e arg4 8 then [(arg4, u64_bytes arg4)] else [])"

definition change_manager_uid :: "sc_env \<Rightarrow> u32 \<Rightarrow> u64 \<Rightarrow> sc_world \<Rightarrow> writes \<times> sc_world" where
  "change_manager_uid e cmd arg4 w =
     (let cfg = ke_cfg (ce_k e); k = sc_k w; appid = ksu_set_manager_appid cfg (kw_appid k) cmd in
      (if cmd = ksu_get_manager_appid cfg appid then reboot_reply e arg4 else [], set_k (k\<lparr>kw_appid := appid\<rparr>) w))"

definition opt_write :: "u64 \<Rightarrow> bytes option \<Rightarrow> writes" where
  "opt_write addr b = (case b of None \<Rightarrow> [] | Some bs \<Rightarrow> [(addr, bs)])"

text \<open>The dump of the log: three addresses at the argument, then the time, the index and the 250 entries.\<close>

definition sulog_dump :: "sc_env \<Rightarrow> u64 \<Rightarrow> sc_world \<Rightarrow> writes" where
  "sulog_dump e arg4 w =
     (let ptrs = map_option (\<lambda>b. (bytes_u64 (field 0 8 b), bytes_u64 (field 8 8 b), bytes_u64 (field 16 8 b))) (ce_read e arg4 24);
          (index_ptr, buf_ptr, uptime_ptr) = (case ptrs of None \<Rightarrow> (0, 0, 0) | Some p \<Rightarrow> p);
          (ret, uptime, idx, buf) = ksu_sulog_handle_compat_dump ptrs (lg_now_sec (se_log (ce_su e))) (ce_write e uptime_ptr 4) (ce_dump_alloc e)
            (ce_write e index_ptr 1) (ce_write e buf_ptr 2000) (sw_log (sc_su w))
      in opt_write uptime_ptr (map_option u32_bytes uptime) @ opt_write index_ptr (map_option (\<lambda>i. [i]) idx) @
         opt_write buf_ptr (map_option (\<lambda>es. concat (map (\<lambda>(t, d). u32_bytes t @ u32_bytes d) es)) buf) @
         (if ret \<noteq> 0 then [] else reboot_reply e arg4))"

definition spoof_uname :: "sc_env \<Rightarrow> u64 \<Rightarrow> sc_world \<Rightarrow> writes \<times> sc_world" where
  "spoof_uname e arg4 w = (case ce_read e arg4 8 of
     None \<Rightarrow> ([], w)
   | Some u_pptr \<Rightarrow> (case ce_read e (bytes_u64 u_pptr) 8 of
       None \<Rightarrow> ([], w)
     | Some u_ptr \<Rightarrow>
         (case strncpy_from_user (se_ustr (ce_su e) (bytes_u64 u_ptr)) 65 of (ret1, buf1) \<Rightarrow>
            if ret1 < 0 then ([], w)
            else
              let rel = take 64 buf1 in
              (case strncpy_from_user (se_ustr (ce_su e) (bytes_u64 u_ptr + of_nat (length rel) + 1)) 65 of (ret2, buf2) \<Rightarrow>
                 if ret2 < 0 then ([], w)
                 else
                   let ver = take 64 buf2;
                       w1 = (if sc_orig_release w = [] then
                               w\<lparr>sc_orig_release := take 64 (cstr (sc_release w)), sc_orig_version := take 64 (cstr (sc_version w))\<rparr>
                             else w);
                       (rel1, ver1) = (if rel = chars ''default'' \<or> ver = chars ''default'' then (sc_orig_release w1, sc_orig_version w1)
                                       else (rel, ver))
                   in (reboot_reply e arg4, w1\<lparr>sc_release := take 64 rel1, sc_version := take 64 ver1\<rparr>)))))"

definition reboot_handler_pre :: "sc_env \<Rightarrow> u32 \<Rightarrow> u32 \<Rightarrow> u32 \<Rightarrow> u64 \<Rightarrow> sc_world \<Rightarrow> writes \<times> sc_world" where
  "reboot_handler_pre e magic1 magic2 cmd arg4 w =
     (let w1 = (if magic1 = KSU_INSTALL_MAGIC1 \<and> magic2 = KSU_INSTALL_MAGIC2 then reboot_install e arg4 w else w) in
      if magic2 = CHANGE_MANAGER_UID then if current_uid w \<noteq> 0 then ([], w1) else change_manager_uid e cmd arg4 w1
      else if magic2 = GET_SULOG_DUMP_V2 then if current_uid w \<noteq> 0 then ([], w1) else (sulog_dump e arg4 w1, w1)
      else if magic2 = CHANGE_KSUVER then if current_uid w \<noteq> 0 then ([], w1) else (reboot_reply e arg4, w1\<lparr>sc_ksuver := cmd\<rparr>)
      else if magic2 = CHANGE_SPOOF_UNAME then if current_uid w \<noteq> 0 then ([], w1) else spoof_uname e arg4 w1
      else ([], w1))"

section \<open>Lemmas: who may do what\<close>

lemma ioctl_numbers:
  "KSU_IOCTL_GRANT_ROOT = 0x4b01" "KSU_IOCTL_GET_INFO = 0x80104b02" "KSU_IOCTL_GET_INFO_LEGACY = 0x80004b02"
  "KSU_IOCTL_REPORT_EVENT = 0x40004b03" "KSU_IOCTL_SET_SEPOLICY = 0xc0004b04" "KSU_IOCTL_CHECK_SAFEMODE = 0x80004b05"
  "KSU_IOCTL_GET_ALLOW_LIST = 0xc0004b06" "KSU_IOCTL_GET_DENY_LIST = 0xc0004b07" "KSU_IOCTL_NEW_GET_ALLOW_LIST = 0xc0044b06"
  "KSU_IOCTL_NEW_GET_DENY_LIST = 0xc0044b07" "KSU_IOCTL_UID_GRANTED_ROOT = 0xc0004b08" "KSU_IOCTL_UID_SHOULD_UMOUNT = 0xc0004b09"
  "KSU_IOCTL_GET_MANAGER_APPID = 0x80004b0a" "KSU_IOCTL_GET_APP_PROFILE = 0xc0004b0b" "KSU_IOCTL_SET_APP_PROFILE = 0x40004b0c"
  "KSU_IOCTL_GET_FEATURE = 0xc0004b0d" "KSU_IOCTL_SET_FEATURE = 0x40004b0e" "KSU_IOCTL_GET_WRAPPER_FD = 0x40004b0f"
  "KSU_IOCTL_MANAGE_MARK = 0xc0004b10" "KSU_IOCTL_NUKE_EXT4_SYSFS = 0x40004b11" "KSU_IOCTL_ADD_TRY_UMOUNT = 0x40004b12"
  "KSU_IOCTL_SET_INIT_PGRP = 0x4b13" "KSU_IOCTL_GET_SULOG_FD = 0x40044b14" "KSU_IOCTL_DISABLE_ESCAPE_TO_ROOT = 0x4b15"
  "KSU_IOCTL_LOOKUP_SYMBOLS = 0x40184b16" "KSU_IOCTL_GET_HOOK_MODE = 0x80004b62" "KSU_IOCTL_GET_VERSION_TAG = 0x80004b63"
  by code_simp+

definition unprivileged :: "sc_env \<Rightarrow> sc_world \<Rightarrow> bool" where
  "unprivileged e w \<longleftrightarrow> \<not> manager_or_root e w \<and> \<not> allowed_for_su e w"

lemma ioctl_loop_denied:
  assumes "\<forall>h\<in>set hs. \<not> im_perm_check h e w" "\<forall>h\<in>set hs. im_allow_su_session h \<longrightarrow> \<not> ksu_is_su_session_fd filp"
  shows "ioctl_loop hs e filp cmd arg w = fail (if cmd \<in> im_cmd ` set hs then - EPERM else - ENOTTY) w"
  using assms by (induction hs) auto

lemma cmd_map_sel [simp]:
  "im_cmd (cmd_map c h p su) = c" "im_handler (cmd_map c h p su) = h" "im_perm_check (cmd_map c h p su) = p"
  "im_allow_su_session (cmd_map c h p su) = su"
  by (simp_all add: cmd_map_def)

definition ioctl_cmds :: "u32 set" where
  "ioctl_cmds = im_cmd ` set ksu_ioctl_handlers"

text \<open>All an unprivileged caller reaches.\<close>

lemma ioctl_unprivileged:
  assumes "unprivileged e w"
  shows "ksu_supercall_handle_ioctl e filp cmd arg w =
    (if cmd = KSU_IOCTL_GET_INFO then do_get_info e arg w
     else if cmd = KSU_IOCTL_GET_INFO_LEGACY then do_get_info_legacy e arg w
     else if cmd = KSU_IOCTL_CHECK_SAFEMODE then do_check_safemode e arg w
     else if cmd = KSU_IOCTL_GET_WRAPPER_FD \<and> ksu_is_su_session_fd filp then do_get_wrapper_fd e arg w
     else if cmd = KSU_IOCTL_DISABLE_ESCAPE_TO_ROOT \<and> ksu_is_su_session_fd filp then do_disable_escape_to_root e arg w
     else fail (if cmd \<in> ioctl_cmds then - EPERM else - ENOTTY) w)"
proof -
  have p: "\<not> only_root e w" "\<not> manager_or_root e w" "\<not> allowed_for_su e w" "always_allow e w"
    using assms by (auto simp: unprivileged_def manager_or_root_def only_root_def always_allow_def)
  show ?thesis
    unfolding ksu_supercall_handle_ioctl_def ioctl_cmds_def ksu_ioctl_handlers_def ioctl_loop.simps cmd_map_sel
    by (simp only: p simp_thms if_True if_False list.set image_insert image_empty cmd_map_sel insert_iff empty_iff)
       (auto simp: ioctl_numbers)
qed

lemma reply_world: "reply e a b w = Some (ret, ws, w') \<Longrightarrow> w' = w \<and> (ret = 0 \<or> ret = - EFAULT \<and> ws = [])"
  by (auto simp: reply_def fail_def split: if_splits)

lemma reply_some: "\<exists>ret ws. reply e a b w = Some (ret, ws, w)"
  by (simp add: reply_def fail_def)

definition root_only_cmds :: "u32 set" where
  "root_only_cmds = {KSU_IOCTL_REPORT_EVENT, KSU_IOCTL_SET_SEPOLICY, KSU_IOCTL_SET_INIT_PGRP, KSU_IOCTL_GET_SULOG_FD, KSU_IOCTL_LOOKUP_SYMBOLS}"

lemma ioctl_root_only:
  assumes "current_uid w \<noteq> 0" "cmd \<in> root_only_cmds"
  shows "ksu_supercall_handle_ioctl e filp cmd arg w = Some (- EPERM, [], w)"
proof -
  have p: "\<not> only_root e w" using assms(1) by (simp add: only_root_def)
  from assms(2) consider "cmd = KSU_IOCTL_REPORT_EVENT" | "cmd = KSU_IOCTL_SET_SEPOLICY" | "cmd = KSU_IOCTL_SET_INIT_PGRP"
    | "cmd = KSU_IOCTL_GET_SULOG_FD" | "cmd = KSU_IOCTL_LOOKUP_SYMBOLS" unfolding root_only_cmds_def by blast
  then show ?thesis
    unfolding ksu_supercall_handle_ioctl_def ksu_ioctl_handlers_def ioctl_loop.simps cmd_map_sel
    by cases (simp_all add: ioctl_numbers p fail_def)
qed

definition with_escape_disabled :: "sc_world \<Rightarrow> sc_world" where
  "with_escape_disabled w =
     (let k = sc_k w; t = kw_current k in
      set_k (k\<lparr>kw_esc := (kw_esc k)\<lparr>xs_tasks := (kw_tasks k)(t := (kw_tasks k t)\<lparr>tk_disable_escape := True\<rparr>)\<rparr>\<rparr>) w)"

lemma wrapper_fd_world:
  "\<exists>ret fs. do_get_wrapper_fd e arg w = Some (ret, [], w\<lparr>sc_files := fs\<rparr>)"
proof -
  have fail: "\<exists>ret fs. fail r w = Some (ret, [], w\<lparr>sc_files := fs\<rparr>)" for r
    by (rule exI [of _ r], rule exI [of _ "sc_files w"]) (simp add: fail_def)
  show ?thesis
  proof (cases "ksu_file_sid (ke_sc (ce_k e)) = 0 \<or> ce_read e arg 8 = None")
    case True
    then show ?thesis using fail [of "- EINVAL"] fail [of "- EFAULT"] by (cases "ksu_file_sid (ke_sc (ce_k e)) = 0") (simp_all add: do_get_wrapper_fd_def)
  next
    case False
    then obtain b where "ce_read e arg 8 = Some b" "ksu_file_sid (ke_sc (ce_k e)) \<noteq> 0" by blast
    then show ?thesis by (simp add: do_get_wrapper_fd_def case_prod_beta) blast
  qed
qed

text \<open>What an unprivileged call may answer and do.\<close>

definition harmless :: "u64 option \<Rightarrow> u32 \<Rightarrow> sc_world \<Rightarrow> int \<Rightarrow> writes \<Rightarrow> sc_world \<Rightarrow> bool" where
  "harmless filp cmd w ret ws w' \<longleftrightarrow>
     cmd \<in> {KSU_IOCTL_GET_INFO, KSU_IOCTL_GET_INFO_LEGACY} \<and> w' = w \<or>
     cmd = KSU_IOCTL_CHECK_SAFEMODE \<and> w' = w\<lparr>sc_boot := snd (ksu_is_safe_mode (sc_boot w))\<rparr> \<or>
     cmd = KSU_IOCTL_GET_WRAPPER_FD \<and> ksu_is_su_session_fd filp \<and> ws = [] \<and> (\<exists>fs. w' = w\<lparr>sc_files := fs\<rparr>) \<or>
     cmd = KSU_IOCTL_DISABLE_ESCAPE_TO_ROOT \<and> ksu_is_su_session_fd filp \<and> ret = 0 \<and> ws = [] \<and> w' = with_escape_disabled w \<or>
     ret = (if cmd \<in> ioctl_cmds then - EPERM else - ENOTTY) \<and> ws = [] \<and> w' = w"

lemma ioctl_harmless:
  assumes "unprivileged e w"
  shows "\<exists>ret ws w'. ksu_supercall_handle_ioctl e filp cmd arg w = Some (ret, ws, w') \<and> harmless filp cmd w ret ws w'"
proof -
  note run = ioctl_unprivileged [OF assms, of filp cmd arg]
  consider "cmd = KSU_IOCTL_GET_INFO" | "cmd = KSU_IOCTL_GET_INFO_LEGACY" | "cmd = KSU_IOCTL_CHECK_SAFEMODE"
    | "cmd = KSU_IOCTL_GET_WRAPPER_FD \<and> ksu_is_su_session_fd filp" | "cmd = KSU_IOCTL_DISABLE_ESCAPE_TO_ROOT \<and> ksu_is_su_session_fd filp"
    | "ksu_supercall_handle_ioctl e filp cmd arg w = fail (if cmd \<in> ioctl_cmds then - EPERM else - ENOTTY) w"
    unfolding run by argo
  then show ?thesis
  proof cases
    case 1
    then have "ksu_supercall_handle_ioctl e filp cmd arg w = do_get_info e arg w" unfolding run by simp
    moreover obtain ret ws where "do_get_info e arg w = Some (ret, ws, w)" unfolding do_get_info_def Let_def using reply_some by blast
    ultimately show ?thesis using 1 by (simp add: harmless_def)
  next
    case 2
    then have "ksu_supercall_handle_ioctl e filp cmd arg w = do_get_info_legacy e arg w" unfolding run by (simp add: ioctl_numbers)
    moreover obtain ret ws where "do_get_info_legacy e arg w = Some (ret, ws, w)" unfolding do_get_info_legacy_def using reply_some by blast
    ultimately show ?thesis using 2 by (simp add: harmless_def)
  next
    case 3
    then have "ksu_supercall_handle_ioctl e filp cmd arg w = do_check_safemode e arg w" unfolding run by (simp add: ioctl_numbers)
    moreover obtain ret ws where "do_check_safemode e arg w = Some (ret, ws, w\<lparr>sc_boot := snd (ksu_is_safe_mode (sc_boot w))\<rparr>)"
      unfolding do_check_safemode_def case_prod_beta using reply_some by blast
    ultimately show ?thesis using 3 by (simp add: harmless_def)
  next
    case 4
    then have "ksu_supercall_handle_ioctl e filp cmd arg w = do_get_wrapper_fd e arg w" unfolding run by (simp add: ioctl_numbers)
    moreover obtain ret fs where "do_get_wrapper_fd e arg w = Some (ret, [], w\<lparr>sc_files := fs\<rparr>)" using wrapper_fd_world by blast
    moreover have "harmless filp cmd w ret [] (w\<lparr>sc_files := fs\<rparr>)" using 4 unfolding harmless_def by blast
    ultimately show ?thesis by simp
  next
    case 5
    then have "ksu_supercall_handle_ioctl e filp cmd arg w = do_disable_escape_to_root e arg w" unfolding run by (simp add: ioctl_numbers)
    then show ?thesis using 5 by (simp add: harmless_def do_disable_escape_to_root_def with_escape_disabled_def Let_def)
  next
    case 6
    then show ?thesis by (simp add: harmless_def fail_def)
  qed
qed

text \<open>(C36) The permission boundary of the driver. Whatever the descriptor, command and argument are, a caller with a uid
  other than 0 gets a permission error and no effect for the commands of root, which a manager too cannot use. A
  caller that is neither root, nor the manager, nor allowed su always gets an answer; it can read the information
  about the module and change nothing by that, it can ask for safe mode, it can through a su-session descriptor wrap a
  file of its own or disable its own way to root, and everything else is refused without effect.\<close>

theorem ioctl_permissions:
  assumes "current_uid w \<noteq> 0"
  shows "(cmd \<in> root_only_cmds \<longrightarrow> ksu_supercall_handle_ioctl e filp cmd arg w = Some (- EPERM, [], w)) \<and>
    (unprivileged e w \<longrightarrow>
      (\<exists>ret ws w'. ksu_supercall_handle_ioctl e filp cmd arg w = Some (ret, ws, w') \<and> harmless filp cmd w ret ws w'))"
  using ioctl_root_only [OF assms] ioctl_harmless by blast

section \<open>Lemmas: sequences of calls\<close>

text \<open>The parts of the environment the permission checks read.\<close>

definition same_policy :: "sc_env \<Rightarrow> sc_env \<Rightarrow> bool" where
  "same_policy d e \<longleftrightarrow> ke_cfg (ce_k e) = ke_cfg (ce_k d) \<and> ke_allow_shell (ce_k e) = ke_allow_shell (ce_k d) \<and>
     ke_hf (ce_k e) = ke_hf (ce_k d) \<and> ke_lsm (ce_k e) = ke_lsm (ce_k d) \<and> ke_sc (ce_k e) = ke_sc (ce_k d) \<and>
     ke_adb_only (ce_k e) = ke_adb_only (ce_k d)"

text \<open>One call of the current task through a plain descriptor: an ioctl, a reboot, or the work that the return
  from a reboot runs. User memory, allocations and the rest of the environment differ from call to call.\<close>

inductive driver_step :: "sc_env \<Rightarrow> sc_world \<Rightarrow> sc_world \<Rightarrow> bool" for d :: sc_env where
  ioctl: "driver_step d w w'" if "same_policy d e" "\<not> ksu_is_su_session_fd filp"
    "ksu_supercall_handle_ioctl e filp cmd arg w = Some (ret, ws, w')"
| reboot: "driver_step d w w'" if "same_policy d e" "reboot_handler_pre e magic1 magic2 cmd arg w = (ws, w')"
| work: "driver_step d w w'" if "same_policy d e" "sc_works w = (kw_current (sc_k w), outp) # rest"
    "ksu_install_fd_tw_func e outp (w\<lparr>sc_works := rest\<rparr>) = (ws, w')"

definition upd_driver :: "boot_state \<Rightarrow> (nat \<times> u64) list \<Rightarrow> (nat \<times> u64) list \<Rightarrow> sc_world \<Rightarrow> sc_world" where
  "upd_driver b works fds w = (set_k ((sc_k w)\<lparr>kw_fds := fds\<rparr>) w)\<lparr>sc_boot := b, sc_works := works\<rparr>"

definition driver_frame :: "sc_world \<Rightarrow> sc_world \<Rightarrow> bool" where
  "driver_frame w w' \<longleftrightarrow> (\<exists>b works n.
     w' = upd_driver b works (replicate n (kw_current (sc_k w), 0) @ kw_fds (sc_k w)) w \<and>
     b \<in> {sc_boot w, snd (ksu_is_safe_mode (sc_boot w))})"

lemma upd_driver_twice [simp]: "upd_driver b works fds (upd_driver b' works' fds' w) = upd_driver b works fds w"
  by (simp add: upd_driver_def set_k_def)

lemma upd_driver_same: "upd_driver (sc_boot w) (sc_works w) (kw_fds (sc_k w)) w = w"
  by (simp add: upd_driver_def set_k_def)

lemma upd_driver_sel [simp]:
  "sc_boot (upd_driver b works fds w) = b" "kw_fds (sc_k (upd_driver b works fds w)) = fds"
  "kw_esc (sc_k (upd_driver b works fds w)) = kw_esc (sc_k w)" "kw_appid (sc_k (upd_driver b works fds w)) = kw_appid (sc_k w)"
  by (simp_all add: upd_driver_def set_k_def)

lemma safe_mode_twice: "snd (ksu_is_safe_mode (snd (ksu_is_safe_mode b))) = snd (ksu_is_safe_mode b)"
  by (simp add: ksu_is_safe_mode_def Let_def ksu_stop_input_hook_runtime_def call_def)

lemma driver_frame_refl: "driver_frame w w"
  unfolding driver_frame_def using upd_driver_same [of w]
  by (intro exI [of _ "sc_boot w"] exI [of _ "sc_works w"] exI [of _ 0]) simp

lemma driver_frame_trans:
  assumes "driver_frame u v" "driver_frame v w"
  shows "driver_frame u w"
proof -
  from assms(1) obtain b works n where v: "v = upd_driver b works (replicate n (kw_current (sc_k u), 0) @ kw_fds (sc_k u)) u"
    and b: "b \<in> {sc_boot u, snd (ksu_is_safe_mode (sc_boot u))}" unfolding driver_frame_def by blast
  from assms(2) obtain c works' m where w: "w = upd_driver c works' (replicate m (kw_current (sc_k v), 0) @ kw_fds (sc_k v)) v"
    and c: "c \<in> {sc_boot v, snd (ksu_is_safe_mode (sc_boot v))}" unfolding driver_frame_def by blast
  have "w = upd_driver c works' (replicate (m + n) (kw_current (sc_k u), 0) @ kw_fds (sc_k u)) u"
    unfolding w unfolding v by (simp add: replicate_add)
  moreover have "c \<in> {sc_boot u, snd (ksu_is_safe_mode (sc_boot u))}"
    using b c safe_mode_twice [of "sc_boot u"] unfolding v by auto
  ultimately show ?thesis unfolding driver_frame_def by blast
qed

lemma unprivileged_frame:
  assumes "driver_frame w w'" "same_policy d e"
  shows "unprivileged e w' = unprivileged d w"
  using assms unfolding driver_frame_def same_policy_def
  by (auto simp: unprivileged_def manager_or_root_def allowed_for_su_def is_manager_def current_uid_def allowed_current_def)

lemma same_policy_refl [simp]: "same_policy d d"
  by (simp add: same_policy_def)

lemma install_works_frame:
  assumes "ksu_install_fd_tw_func e outp (w\<lparr>sc_works := rest\<rparr>) = (ws, w')"
  shows "driver_frame w w'"
proof -
  have "\<exists>n. w' = upd_driver (sc_boot w) rest (replicate n (kw_current (sc_k w), 0) @ kw_fds (sc_k w)) w"
    using assms unfolding ksu_install_fd_tw_func_def ksu_install_fd_def ksu_install_fd_with_permissions_def
    by (auto simp: upd_driver_def set_k_def close_installed_def split: if_splits intro: exI [of _ 0] exI [of _ 1])
  then show ?thesis unfolding driver_frame_def by blast
qed

lemma driver_frame_works: "driver_frame w (w\<lparr>sc_works := x\<rparr>)"
  unfolding driver_frame_def
  by (rule exI [of _ "sc_boot w"], rule exI [of _ x], rule exI [of _ 0]) (simp add: upd_driver_def set_k_def)

lemma driver_frame_boot: "driver_frame w (w\<lparr>sc_boot := snd (ksu_is_safe_mode (sc_boot w))\<rparr>)"
  unfolding driver_frame_def
  by (rule exI [of _ "snd (ksu_is_safe_mode (sc_boot w))"], rule exI [of _ "sc_works w"], rule exI [of _ 0])
     (simp add: upd_driver_def set_k_def)

lemma reboot_nonroot:
  assumes "current_uid w \<noteq> 0"
  shows "reboot_handler_pre e magic1 magic2 cmd arg w =
    ([], if magic1 = KSU_INSTALL_MAGIC1 \<and> magic2 = KSU_INSTALL_MAGIC2 then reboot_install e arg w else w)"
  using assms unfolding reboot_handler_pre_def Let_def by simp

lemma reboot_nonroot_frame:
  assumes "current_uid w \<noteq> 0" "reboot_handler_pre e magic1 magic2 cmd arg w = (ws, w')"
  shows "driver_frame w w'"
proof -
  have w': "w' = (if magic1 = KSU_INSTALL_MAGIC1 \<and> magic2 = KSU_INSTALL_MAGIC2 then reboot_install e arg w else w)"
    using assms(2) unfolding reboot_nonroot [OF assms(1)] by simp
  have "driver_frame w (reboot_install e arg w)" by (simp add: reboot_install_def driver_frame_refl driver_frame_works)
  then show ?thesis unfolding w' by (simp add: driver_frame_refl)
qed

lemma ioctl_plain_frame:
  assumes "unprivileged e w" "\<not> ksu_is_su_session_fd filp" "ksu_supercall_handle_ioctl e filp cmd arg w = Some (ret, ws, w')"
  shows "driver_frame w w'"
proof -
  have "harmless filp cmd w ret ws w'" using ioctl_harmless [OF assms(1), of filp cmd arg] assms(3) by force
  then have "w' = w \<or> w' = w\<lparr>sc_boot := snd (ksu_is_safe_mode (sc_boot w))\<rparr>" using assms(2) unfolding harmless_def by blast
  then show ?thesis using driver_frame_refl driver_frame_boot by blast
qed

lemma unprivileged_uid: "unprivileged e w \<Longrightarrow> current_uid w \<noteq> 0"
  by (auto simp: unprivileged_def manager_or_root_def)

lemma driver_step_frame:
  assumes "driver_step d w w'" "unprivileged d w"
  shows "driver_frame w w'"
  using assms(1)
proof cases
  case (ioctl e filp cmd arg ret ws)
  then show ?thesis using assms(2) unprivileged_frame [OF driver_frame_refl ioctl(1)] by (intro ioctl_plain_frame) auto
next
  case (reboot e magic1 magic2 cmd arg ws)
  then show ?thesis using reboot_nonroot_frame unprivileged_uid [OF assms(2)] by blast
next
  case (work e outp rest ws)
  then show ?thesis using install_works_frame by blast
qed


section \<open>An app without rights\<close>

definition app_task :: task where
  "app_task = task0\<lparr>tk_cred := (tk_cred task0)\<lparr>cr_uid := 10200, cr_euid := 10200\<rparr>\<rparr>"

definition sce0 :: sc_env where
  "sce0 = \<lparr>ce_su = su0\<lparr>se_ustr := (\<lambda>_. \<lparr>us_str = chars ''/x'', us_fault = False, us_partial = 0\<rparr>)\<rparr>, ce_pol = penv0, ce_fw = fenv0,
     ce_symcfg = demo_symcfg, ce_kallsyms = demo_ksyms, ce_sort = demo_sort,
     ce_names_alloc = True, ce_addrs_alloc = True, ce_batch_alloc = True, ce_index_alloc = True, ce_signal_index = (\<lambda>_. False),
     ce_signal_walk = (\<lambda>_. False), ce_signal_exact = (\<lambda>_. False), ce_strndup = (\<lambda>_ _. Inr []), ce_read = (\<lambda>_ n. Some (replicate n 0)),
     ce_write = (\<lambda>_ _. True), ce_kmalloc = (\<lambda>_. True), ce_kzalloc = kz0, ce_find_task = (\<lambda>_. None), ce_leader = (\<lambda>t. t),
     ce_session = (\<lambda>t. t), ce_init_task = 1, ce_kern_path = (\<lambda>_. 0), ce_fstype = (\<lambda>_. []), ce_sulog_fd = (3, 0), ce_su_version = 1,
     ce_version_tag = [], ce_module = True, ce_bundled = False, ce_preinit = False, ce_tracepoints = True, ce_init_found = True,
     ce_persist_alloc = True, ce_persist_add = 0, ce_tw_alloc = True, ce_tw_add = 0, ce_dump_alloc = True\<rparr>"

definition scw0 :: sc_world where
  "scw0 = \<lparr>sc_su = suw0\<lparr>sw_ksu := kworld0\<lparr>kw_esc := esc0\<lparr>xs_tasks := (\<lambda>_. app_task)\<rparr>\<rparr>\<rparr>,
     sc_features = \<lparr>ft_handlers = (\<lambda>_. None), ft_values = (\<lambda>_. 0), ft_mask = (\<lambda>_. False), ft_pending = (\<lambda>_. False)\<rparr>,
     sc_boot = boot0, sc_selinux = sst0, sc_files = fst0, sc_persists = 0, sc_nuked = [], sc_pgrp = (\<lambda>t. t), sc_ksuver = 0,
     sc_release = [], sc_version = [], sc_orig_release = [], sc_orig_version = [], sc_works = []\<rparr>"

lemma app_unprivileged: "unprivileged sce0 scw0"
proof -
  have "\<not> ksu_is_allow_uid cfg0 KSU_INVALID_APPID False hf0 st1 10200"
    using find_allowed_iff [OF st1_inv hf0_bound, of 10200]
    by (auto simp: ksu_is_allow_uid_def forbid_system_uid_def st1_abs prof0_def is_uid_manager_def cfg0_def)
  then show ?thesis
    by (simp add: unprivileged_def manager_or_root_def allowed_for_su_def is_manager_def current_uid_def allowed_current_def scw0_def
        sce0_def su0_def suw0_def kworld0_def kenv0_def esc0_def app_task_def task0_def ksu_is_allow_uid_for_current_def
        ksu_is_uid_granted_root_def is_uid_manager_def cfg0_def)
qed

theorem ioctl_permissions_witness:
  "ksu_supercall_handle_ioctl sce0 (Some 0) KSU_IOCTL_SET_SEPOLICY 0 scw0 = Some (- EPERM, [], scw0) \<and>
   ksu_supercall_handle_ioctl sce0 (Some KSU_DRIVER_PERMISSION_SU_SESSION) KSU_IOCTL_SET_APP_PROFILE 0 scw0 = Some (- EPERM, [], scw0)"
proof
  have uid: "current_uid scw0 \<noteq> 0" by (rule unprivileged_uid [OF app_unprivileged])
  show "ksu_supercall_handle_ioctl sce0 (Some 0) KSU_IOCTL_SET_SEPOLICY 0 scw0 = Some (- EPERM, [], scw0)"
    using ioctl_permissions [OF uid, of KSU_IOCTL_SET_SEPOLICY sce0 "Some 0" 0] by (simp add: root_only_cmds_def)
  have "KSU_IOCTL_SET_APP_PROFILE \<in> ioctl_cmds" by (simp add: ioctl_cmds_def ksu_ioctl_handlers_def)
  then show "ksu_supercall_handle_ioctl sce0 (Some KSU_DRIVER_PERMISSION_SU_SESSION) KSU_IOCTL_SET_APP_PROFILE 0 scw0 = Some (- EPERM, [], scw0)"
    using ioctl_permissions [OF uid, of KSU_IOCTL_SET_APP_PROFILE sce0 "Some KSU_DRIVER_PERMISSION_SU_SESSION" 0] app_unprivileged
    by (auto simp: harmless_def ioctl_numbers)
qed


section \<open>Lemmas: the list of paths to unmount\<close>

definition umount_ok :: "(bytes \<times> u32) list \<Rightarrow> bool" where
  "umount_ok ms \<longleftrightarrow> distinct (map fst ms) \<and> (\<forall>m\<in>fst ` set ms. m \<noteq> [] \<and> 0 \<notin> set m \<and> length m \<le> 255)"

lemma set_mounts_sel [simp]: "kw_mounts (sc_k (set_mounts ms w)) = ms"
  by (simp add: set_mounts_def set_k_def)

lemma set_mounts_twice [simp]: "set_mounts ms (set_mounts ms' w) = set_mounts ms w"
  by (simp add: set_mounts_def set_k_def)

lemma set_mounts_same [simp]: "set_mounts (kw_mounts (sc_k w)) w = w"
  by (simp add: set_mounts_def set_k_def)

lemma umount_path_ok:
  assumes "umount_path e ptr n = (len, path)" "0 < len"
  shows "path \<noteq> [] \<and> 0 \<notin> set path \<and> length path \<le> 255"
  using assms cstr_nonzero [of "us_str (se_ustr (ce_su e) ptr)"]
  by (auto simp: umount_path_def strncpy_from_user_def Let_def split: if_splits dest: in_set_takeD)

lemma umount_ok_filter: "umount_ok ms \<Longrightarrow> umount_ok (filter P ms)"
  by (auto simp: umount_ok_def distinct_map_filter)

lemma umount_ok_add: "umount_ok ms \<Longrightarrow> path \<notin> fst ` set ms \<Longrightarrow> path \<noteq> [] \<and> 0 \<notin> set path \<and> length path \<le> 255 \<Longrightarrow>
  umount_ok ((path, flags) # ms)"
  by (auto simp: umount_ok_def)

text \<open>A request to the list: the address, the flags and the mode of the argument.\<close>

definition umount_request :: "sc_env \<Rightarrow> u64 \<Rightarrow> u64 \<Rightarrow> u32 \<Rightarrow> u8 \<Rightarrow> bool" where
  "umount_request e arg ptr flags mode \<longleftrightarrow>
     (\<exists>b. ce_read e arg 16 = Some b \<and> bytes_u64 (field 0 8 b) = ptr \<and> bytes_u32 (field 8 4 b) = flags \<and> b ! 12 = mode)"

lemma add_try_umount_by:
  assumes "umount_request e arg ptr flags mode"
  shows "add_try_umount e arg w =
    (let ms = kw_mounts (sc_k w) in
     if mode = KSU_UMOUNT_WIPE then Some (0, [], set_mounts [] w)
     else if mode = KSU_UMOUNT_ADD then
       (case umount_path e ptr 256 of (len, path) \<Rightarrow>
          if len \<le> 0 then fail (- EFAULT) w
          else if \<not> ce_kmalloc e 32 then fail (- ENOMEM) w
          else if \<not> ce_kmalloc e (length path + 1) then fail (- ENOMEM) w
          else if path \<in> fst ` set ms then fail (- EEXIST) w
          else Some (0, [], set_mounts ((path, flags) # ms) w))
     else if mode = KSU_UMOUNT_DEL then
       (case umount_path e ptr 255 of (len, path) \<Rightarrow>
          if len \<le> 0 then fail (- EFAULT) w
          else Some (0, [], set_mounts (filter (\<lambda>(m, f). m \<noteq> path) ms) w))
     else if mode = KSU_UMOUNT_GETSIZE then
       if ptr = 0 then fail (- EFAULT) w
       else reply e ptr (u64_bytes (of_nat (umount_size ms))) w
     else if mode = KSU_UMOUNT_GETLIST then
       if ptr = 0 then fail (- EFAULT) w
       else (case umount_getlist e ptr ms of (ret, ws) \<Rightarrow> Some (ret, ws, w))
     else fail (- EINVAL) w)"
  using assms unfolding umount_request_def add_try_umount_def Let_def by auto

text \<open>What a call leaves in the list.\<close>

definition umount_next :: "sc_env \<Rightarrow> u64 \<Rightarrow> u32 \<Rightarrow> u8 \<Rightarrow> (bytes \<times> u32) list \<Rightarrow> (bytes \<times> u32) list \<Rightarrow> bool" where
  "umount_next e ptr flags mode ms ms' \<longleftrightarrow>
     (if mode = KSU_UMOUNT_WIPE then ms' = []
      else if mode = KSU_UMOUNT_ADD then \<exists>len path. umount_path e ptr 256 = (len, path) \<and> 0 < len \<and> path \<notin> fst ` set ms \<and> ms' = (path, flags) # ms
      else if mode = KSU_UMOUNT_DEL then \<exists>len path. umount_path e ptr 255 = (len, path) \<and> 0 < len \<and> ms' = filter (\<lambda>(m, f). m \<noteq> path) ms
      else ms' = ms)"

definition umount_answer :: "sc_env \<Rightarrow> u64 \<Rightarrow> u32 \<Rightarrow> u8 \<Rightarrow> sc_world \<Rightarrow> sc_result \<Rightarrow> bool" where
  "umount_answer e ptr flags mode w r \<longleftrightarrow>
     (\<exists>ret ws ms'. r = Some (ret, ws, set_mounts ms' w) \<and>
        (ret \<noteq> 0 \<and> ms' = kw_mounts (sc_k w) \<or> ret = 0 \<and> umount_next e ptr flags mode (kw_mounts (sc_k w)) ms'))"

lemma umount_answer_new:
  "umount_next e ptr flags mode (kw_mounts (sc_k w)) ms' \<Longrightarrow> umount_answer e ptr flags mode w (Some (0, [], set_mounts ms' w))"
  unfolding umount_answer_def by blast

lemma umount_answer_same:
  "ret \<noteq> 0 \<or> umount_next e ptr flags mode (kw_mounts (sc_k w)) (kw_mounts (sc_k w)) \<Longrightarrow> umount_answer e ptr flags mode w (Some (ret, ws, w))"
  unfolding umount_answer_def by (rule exI [of _ ret], rule exI [of _ ws], rule exI [of _ "kw_mounts (sc_k w)"]) auto

lemma umount_answer_fail: "ret \<noteq> 0 \<Longrightarrow> umount_answer e ptr flags mode w (fail ret w)"
  unfolding fail_def by (rule umount_answer_same) simp

lemma umount_answer_reply:
  "umount_next e ptr flags mode (kw_mounts (sc_k w)) (kw_mounts (sc_k w)) \<Longrightarrow> umount_answer e ptr flags mode w (reply e a b w)"
  unfolding reply_def using umount_answer_same [of 0] umount_answer_fail by simp

lemmas umount_answers = umount_answer_new umount_answer_same umount_answer_fail umount_answer_reply

lemma add_try_umount_answer:
  assumes "umount_request e arg ptr flags mode"
  shows "umount_answer e ptr flags mode w (add_try_umount e arg w)"
proof -
  consider "mode = KSU_UMOUNT_WIPE" | "mode = KSU_UMOUNT_ADD" | "mode = KSU_UMOUNT_DEL"
    | "mode \<notin> {KSU_UMOUNT_WIPE, KSU_UMOUNT_ADD, KSU_UMOUNT_DEL}" by blast
  then show ?thesis
  proof cases
    case 1
    then show ?thesis unfolding add_try_umount_by [OF assms] Let_def by (simp add: umount_next_def umount_answer_new)
  next
    case 2
    obtain len path where p: "umount_path e ptr 256 = (len, path)" by fastforce
    show ?thesis unfolding add_try_umount_by [OF assms] Let_def
      using 2 by (auto simp: p umount_next_def intro!: umount_answers)
  next
    case 3
    obtain len path where p: "umount_path e ptr 255 = (len, path)" by fastforce
    show ?thesis unfolding add_try_umount_by [OF assms] Let_def
      using 3 by (auto simp: p umount_next_def intro!: umount_answers)
  next
    case 4
    then have "umount_next e ptr flags mode (kw_mounts (sc_k w)) (kw_mounts (sc_k w))" by (simp add: umount_next_def)
    then show ?thesis unfolding add_try_umount_by [OF assms] Let_def
      using 4 by (auto intro!: umount_answers split: prod.split)
  qed
qed

lemma umount_next_ok:
  assumes "umount_ok ms" "umount_next e ptr flags mode ms ms'"
  shows "umount_ok ms'"
  using assms umount_path_ok [of e ptr] umount_ok_add umount_ok_filter
  by (auto simp: umount_next_def umount_ok_def [of "[]"] split: if_splits)

text \<open>How user space reads the copied list: strings one after the other, each with its NUL.\<close>

function c_strings :: "bytes \<Rightarrow> bytes list" where
  "c_strings [] = []"
| "c_strings (c # cs) = cstr (c # cs) # c_strings (drop (Suc (length (cstr (c # cs)))) (c # cs))"
  by pat_completeness auto
termination by (relation "measure length") auto

lemma c_strings_append: "0 \<notin> set m \<Longrightarrow> c_strings (m @ 0 # bs) = m # c_strings bs"
  by (cases m) (simp_all del: cstr_append_zero add: cstr_append_zero [of "[]", simplified] cstr_append_zero [of "_ # _", simplified])

definition contiguous :: "u64 \<Rightarrow> writes \<Rightarrow> bool" where
  "contiguous ptr ws \<longleftrightarrow> (\<forall>i < length ws. fst (ws ! i) = ptr + of_nat (length (concat (map snd (take i ws)))))"

lemma contiguous_Cons:
  assumes "contiguous (ptr + of_nat (length b)) ws"
  shows "contiguous ptr ((ptr, b) # ws)"
  unfolding contiguous_def
proof (intro allI impI)
  fix i
  assume "i < length ((ptr, b) # ws)"
  then show "fst (((ptr, b) # ws) ! i) = ptr + of_nat (length (concat (map snd (take i ((ptr, b) # ws)))))"
    using assms by (cases i) (auto simp: contiguous_def algebra_simps)
qed

lemma umount_size_sum: "umount_size ms = sum_list (map (\<lambda>(m, f). length m + 1) ms)"
proof -
  have "fold (\<lambda>(mnt, flags) acc. acc + length mnt + 1) ms t = t + sum_list (map (\<lambda>(m, f). length m + 1) ms)" for t
    by (induction ms arbitrary: t) auto
  then show ?thesis by (simp add: umount_size_def)
qed

lemma umount_getlist_spec:
  assumes "umount_getlist e ptr ms = (0, ws)" "\<forall>m\<in>fst ` set ms. 0 \<notin> set m"
  shows "c_strings (concat (map snd ws)) = map fst ms \<and> length (concat (map snd ws)) = umount_size ms \<and> contiguous ptr ws"
  using assms
proof (induction e ptr ms arbitrary: ws rule: umount_getlist.induct)
  case (1 e ptr)
  then show ?case by (simp add: umount_size_def contiguous_def)
next
  case (2 e ptr mnt flags ms)
  from "2.prems"(1) have ok: "ce_write e ptr (length mnt + 1)" by (auto split: if_splits)
  with "2.prems"(1) obtain ws' where rest: "umount_getlist e (ptr + of_nat (length mnt + 1)) ms = (0, ws')" and ws: "ws = (ptr, mnt @ [0]) # ws'"
    by (auto split: prod.splits)
  have IH: "c_strings (concat (map snd ws')) = map fst ms \<and> length (concat (map snd ws')) = umount_size ms \<and>
      contiguous (ptr + of_nat (length mnt + 1)) ws'"
    by (rule "2.IH") (use ok rest "2.prems"(2) in auto)
  then show ?case using "2.prems"(2) contiguous_Cons [of ptr "mnt @ [0]" ws'] unfolding ws
    by (simp add: c_strings_append umount_size_sum)
qed

lemma umount_path_del:
  assumes "umount_path e ptr 256 = (len, path)" "0 < len" "se_ustr (ce_su d) ptr' = se_ustr (ce_su e) ptr"
  shows "\<exists>len'. umount_path d ptr' 255 = (len', path) \<and> 0 < len'"
  using assms by (auto simp: umount_path_def strncpy_from_user_def Let_def split: if_splits)

lemma filter_absent: "path \<notin> fst ` set ms \<Longrightarrow> filter (\<lambda>(m, f). m \<noteq> path) ms = ms"
  by (induction ms) auto

lemma umount_add_del:
  assumes "umount_request e arg ptr flags KSU_UMOUNT_ADD" "add_try_umount e arg w = Some (0, ws, w')"
    and "umount_request d arg' ptr' flags' KSU_UMOUNT_DEL" "se_ustr (ce_su d) ptr' = se_ustr (ce_su e) ptr"
  shows "add_try_umount d arg' w' = Some (0, [], w)"
proof -
  let ?ms = "kw_mounts (sc_k w)"
  obtain len path where p: "umount_path e ptr 256 = (len, path)" "0 < len" "path \<notin> fst ` set ?ms" "w' = set_mounts ((path, flags) # ?ms) w"
    using assms(2) unfolding add_try_umount_by [OF assms(1)] Let_def by (auto simp: fail_def split: prod.splits if_splits)
  obtain len' where "umount_path d ptr' 255 = (len', path)" "0 < len'" using umount_path_del [OF p(1,2) assms(4)] by blast
  then show ?thesis unfolding add_try_umount_by [OF assms(3)] Let_def p(4) by (simp add: filter_absent [OF p(3)])
qed

lemma add_try_umount_keeps:
  assumes "umount_ok (kw_mounts (sc_k w))"
  shows "\<exists>ret ws ms'. add_try_umount e arg w = Some (ret, ws, set_mounts ms' w) \<and> umount_ok ms' \<and> (ret \<noteq> 0 \<longrightarrow> ms' = kw_mounts (sc_k w))"
proof (cases "ce_read e arg 16")
  case None
  then show ?thesis using assms
    by (intro exI [of _ "- EFAULT"] exI [of _ "[]"] exI [of _ "kw_mounts (sc_k w)"]) (simp add: add_try_umount_def fail_def)
next
  case (Some b)
  then have "umount_request e arg (bytes_u64 (field 0 8 b)) (bytes_u32 (field 8 4 b)) (b ! 12)" by (simp add: umount_request_def)
  from add_try_umount_answer [OF this, of w] show ?thesis using umount_next_ok [OF assms] assms
    unfolding umount_answer_def by blast
qed

text \<open>(C38) The list of paths to unmount. Every call returns, keeps the paths distinct, nonempty and at most 255 bytes long,
  and changes the list only when it reports success. The copy of the list fills user memory without gaps from the given
  address, takes exactly the announced size, and reading its strings gives back the paths in order. Adding a path and
  then deleting it restores the list, whatever the length of the path in user memory.\<close>

theorem umount_list_roundtrip:
  assumes "umount_ok (kw_mounts (sc_k w))"
  shows "(\<exists>ret ws ms'. add_try_umount e arg w = Some (ret, ws, set_mounts ms' w) \<and> umount_ok ms' \<and> (ret \<noteq> 0 \<longrightarrow> ms' = kw_mounts (sc_k w))) \<and>
    (umount_request e arg ptr flags KSU_UMOUNT_GETLIST \<and> add_try_umount e arg w = Some (0, ws, w') \<longrightarrow>
      w' = w \<and> c_strings (concat (map snd ws)) = map fst (kw_mounts (sc_k w)) \<and>
      length (concat (map snd ws)) = umount_size (kw_mounts (sc_k w)) \<and> contiguous ptr ws) \<and>
    (umount_request e arg ptr flags KSU_UMOUNT_ADD \<and> add_try_umount e arg w = Some (0, ws, w') \<and>
     umount_request d arg' ptr' flags' KSU_UMOUNT_DEL \<and> se_ustr (ce_su d) ptr' = se_ustr (ce_su e) ptr \<longrightarrow>
      add_try_umount d arg' w' = Some (0, [], w))"
proof (intro conjI impI; (elim conjE)?)
  show "\<exists>ret ws ms'. add_try_umount e arg w = Some (ret, ws, set_mounts ms' w) \<and> umount_ok ms' \<and> (ret \<noteq> 0 \<longrightarrow> ms' = kw_mounts (sc_k w))"
    by (rule add_try_umount_keeps [OF assms])
next
  assume r: "umount_request e arg ptr flags KSU_UMOUNT_GETLIST" and run: "add_try_umount e arg w = Some (0, ws, w')"
  have "umount_getlist e ptr (kw_mounts (sc_k w)) = (0, ws)" and w': "w' = w"
    using run unfolding add_try_umount_by [OF r] Let_def by (auto simp: fail_def split: if_splits prod.splits)
  from umount_getlist_spec [OF this(1)] assms
  have l: "c_strings (concat (map snd ws)) = map fst (kw_mounts (sc_k w)) \<and>
      length (concat (map snd ws)) = umount_size (kw_mounts (sc_k w)) \<and> contiguous ptr ws"
    by (auto simp: umount_ok_def)
  show "w' = w" by (rule w')
  show "c_strings (concat (map snd ws)) = map fst (kw_mounts (sc_k w))" "length (concat (map snd ws)) = umount_size (kw_mounts (sc_k w))"
    "contiguous ptr ws" using l by blast+
next
  assume "umount_request e arg ptr flags KSU_UMOUNT_ADD" "add_try_umount e arg w = Some (0, ws, w')"
    "umount_request d arg' ptr' flags' KSU_UMOUNT_DEL" "se_ustr (ce_su d) ptr' = se_ustr (ce_su e) ptr"
  then show "add_try_umount d arg' w' = Some (0, [], w)" by (rule umount_add_del)
qed

definition req0 :: "u8 \<Rightarrow> bytes" where
  "req0 mode = [0, 0x50, 0, 0, 0, 0, 0, 0, 2, 0, 0, 0, mode, 0, 0, 0]"

definition sce_umount :: "u8 \<Rightarrow> sc_env" where
  "sce_umount mode = sce0\<lparr>ce_read := (\<lambda>_ _. Some (req0 mode))\<rparr>"

lemma umount_request0: "umount_request (sce_umount mode) 64 0x5000 2 mode"
proof -
  have "field 0 8 (req0 mode) = [0, 0x50, 0, 0, 0, 0, 0, 0]" "field 8 4 (req0 mode) = [2, 0, 0, 0]" "req0 mode ! 12 = mode"
    by (simp_all add: req0_def field_def)
  moreover have "bytes_u64 [0, 0x50, 0, 0, 0, 0, 0, 0] = 0x5000" "bytes_u32 [2, 0, 0, 0] = 2" by code_simp+
  ultimately show ?thesis by (simp add: umount_request_def sce_umount_def)
qed

theorem umount_list_roundtrip_witness:
  "\<exists>ws w'. add_try_umount (sce_umount KSU_UMOUNT_GETLIST) 64 scw0 = Some (0, ws, scw0) \<and>
     c_strings (concat (map snd ws)) = [chars ''/m'', chars ''/n''] \<and>
     add_try_umount (sce_umount KSU_UMOUNT_ADD) 64 scw0 = Some (0, [], w') \<and> kw_mounts (sc_k w') = (chars ''/x'', 2) # kw_mounts (sc_k scw0) \<and>
     add_try_umount (sce_umount KSU_UMOUNT_DEL) 64 w' = Some (0, [], scw0)"
proof -
  have ms: "kw_mounts (sc_k scw0) = [(chars ''/m'', 2), (chars ''/n'', 0)]" by (simp add: scw0_def suw0_def kworld0_def)
  have ok: "umount_ok (kw_mounts (sc_k scw0))" unfolding ms by code_simp
  obtain ws where list: "add_try_umount (sce_umount KSU_UMOUNT_GETLIST) 64 scw0 = Some (0, ws, scw0)"
    unfolding add_try_umount_by [OF umount_request0] ms by (simp add: sce_umount_def sce0_def)
  have path: "umount_path (sce_umount KSU_UMOUNT_ADD) 0x5000 256 = (2, chars ''/x'')" by code_simp
  let ?w = "set_mounts ((chars ''/x'', 2) # kw_mounts (sc_k scw0)) scw0"
  have new: "chars ''/x'' \<notin> fst ` set (kw_mounts (sc_k scw0))" unfolding ms by code_simp
  have add: "add_try_umount (sce_umount KSU_UMOUNT_ADD) 64 scw0 = Some (0, [], ?w)"
    unfolding add_try_umount_by [OF umount_request0] Let_def path using new by (simp add: sce_umount_def sce0_def)
  have "se_ustr (ce_su (sce_umount KSU_UMOUNT_DEL)) 0x5000 = se_ustr (ce_su (sce_umount KSU_UMOUNT_ADD)) 0x5000"
    by (simp add: sce_umount_def)
  with umount_list_roundtrip [OF ok, of "sce_umount KSU_UMOUNT_ADD" 64 "0x5000" 2 "[]" ?w "sce_umount KSU_UMOUNT_DEL" 64 "0x5000" 2]
  have del: "add_try_umount (sce_umount KSU_UMOUNT_DEL) 64 ?w = Some (0, [], scw0)" using add umount_request0 by blast
  have "c_strings (concat (map snd ws)) = [chars ''/m'', chars ''/n'']"
    using umount_list_roundtrip [OF ok, of "sce_umount KSU_UMOUNT_GETLIST" 64 "0x5000" 2 ws scw0] list umount_request0 unfolding ms by simp
  with list add del show ?thesis by (metis set_mounts_sel)
qed

end
