(* ===== verification/KSU_RustText.thy ===== *)
theory KSU_RustText
  imports KSU_Prelude
begin

text \<open>
  Text as the Rust programs see it: a string is a list of Unicode code points, stored as UTF-8. White space,
  splitting and trimming, encoding, the checked decoding and the decoding that replaces what is not UTF-8, and decimal
  numbers.
\<close>

section \<open>Strings\<close>

type_synonym rstr = "u32 list"

definition rs :: "string \<Rightarrow> rstr" where
  "rs s = map ucast (chars s)"

definition is_whitespace :: "u32 \<Rightarrow> bool" where
  "is_whitespace c \<longleftrightarrow> 9 \<le> c \<and> c \<le> 13 \<or> c = 32 \<or> c = 0x85 \<or> c = 0xa0 \<or> c = 0x1680 \<or> 0x2000 \<le> c \<and> c \<le> 0x200a \<or>
     c = 0x2028 \<or> c = 0x2029 \<or> c = 0x202f \<or> c = 0x205f \<or> c = 0x3000"

definition trim :: "rstr \<Rightarrow> rstr" where
  "trim s = rev (dropWhile is_whitespace (rev (dropWhile is_whitespace s)))"

text \<open>Splitting at separators: every piece, and the pieces that are not empty.\<close>

fun split_on :: "(u32 \<Rightarrow> bool) \<Rightarrow> rstr \<Rightarrow> rstr list" where
  "split_on P [] = [[]]"
| "split_on P (c # cs) = (if P c then [] # split_on P cs else (case split_on P cs of [] \<Rightarrow> [[c]] | w # ws \<Rightarrow> (c # w) # ws))"

definition split_whitespace :: "rstr \<Rightarrow> rstr list" where
  "split_whitespace s = filter (\<lambda>w. w \<noteq> []) (split_on is_whitespace s)"

section \<open>UTF-8\<close>

definition utf8_char :: "u32 \<Rightarrow> bytes" where
  "utf8_char c =
     (let n = unat c in
      if n < 0x80 then [of_nat n]
      else if n < 0x800 then [of_nat (0xc0 + n div 64), of_nat (0x80 + n mod 64)]
      else if n < 0x10000 then [of_nat (0xe0 + n div 4096), of_nat (0x80 + n div 64 mod 64), of_nat (0x80 + n mod 64)]
      else [of_nat (0xf0 + n div 262144), of_nat (0x80 + n div 4096 mod 64), of_nat (0x80 + n div 64 mod 64), of_nat (0x80 + n mod 64)])"

definition as_bytes :: "rstr \<Rightarrow> bytes" where
  "as_bytes s = concat (map utf8_char s)"

text \<open>The characters of Rust: code points without the surrogates.\<close>

definition is_scalar :: "u32 \<Rightarrow> bool" where
  "is_scalar c \<longleftrightarrow> unat c < 0xd800 \<or> 0xdfff < unat c \<and> unat c < 0x110000"

text \<open>How many bytes a sequence has by its first byte, and which second bytes continue it.\<close>

definition utf8_width :: "u8 \<Rightarrow> nat" where
  "utf8_width b =
     (let n = unat b in
      if n < 0x80 then 1 else if 0xc2 \<le> n \<and> n \<le> 0xdf then 2 else if 0xe0 \<le> n \<and> n \<le> 0xef then 3
      else if 0xf0 \<le> n \<and> n \<le> 0xf4 then 4 else 0)"

definition utf8_cont :: "u8 \<Rightarrow> bool" where
  "utf8_cont b \<longleftrightarrow> 0x80 \<le> unat b \<and> unat b \<le> 0xbf"

definition utf8_second :: "u8 \<Rightarrow> u8 \<Rightarrow> bool" where
  "utf8_second b c \<longleftrightarrow>
     (let n = unat b; m = unat c in
      utf8_cont c \<and> (n = 0xe0 \<longrightarrow> 0xa0 \<le> m) \<and> (n = 0xed \<longrightarrow> m \<le> 0x9f) \<and> (n = 0xf0 \<longrightarrow> 0x90 \<le> m) \<and> (n = 0xf4 \<longrightarrow> m \<le> 0x8f))"

text \<open>The next character and how many bytes it takes, or nothing and how many bytes the longest beginning of a
  character takes.\<close>

definition utf8_next :: "bytes \<Rightarrow> u32 option \<times> nat" where
  "utf8_next bs =
     (let at = (\<lambda>i. unat (bs ! i)); w = utf8_width (bs ! 0); c = (\<lambda>i. i < length bs \<and> utf8_cont (bs ! i)) in
      if w = 0 then (None, 1)
      else if w = 1 then (Some (of_nat (at 0)), 1)
      else if \<not> (1 < length bs \<and> utf8_second (bs ! 0) (bs ! 1)) then (None, 1)
      else if w = 2 then (Some (of_nat ((at 0 - 0xc0) * 64 + (at 1 - 0x80))), 2)
      else if \<not> c 2 then (None, 2)
      else if w = 3 then (Some (of_nat ((at 0 - 0xe0) * 4096 + (at 1 - 0x80) * 64 + (at 2 - 0x80))), 3)
      else if \<not> c 3 then (None, 3)
      else (Some (of_nat ((at 0 - 0xf0) * 262144 + (at 1 - 0x80) * 4096 + (at 2 - 0x80) * 64 + (at 3 - 0x80))), 4))"

lemma utf8_next_drop: "bs \<noteq> [] \<Longrightarrow> (c, n) = utf8_next bs \<Longrightarrow> 0 < n"
  by (auto simp: utf8_next_def Let_def split: if_splits)

function from_utf8 :: "bytes \<Rightarrow> rstr option" where
  "from_utf8 bs =
     (if bs = [] then Some []
      else (case utf8_next bs of (None, _) \<Rightarrow> None | (Some c, n) \<Rightarrow> map_option ((#) c) (from_utf8 (drop n bs))))"
  by pat_completeness auto
termination
  by (relation "measure length") (use utf8_next_drop in auto)

function from_utf8_lossy :: "bytes \<Rightarrow> rstr" where
  "from_utf8_lossy bs =
     (if bs = [] then []
      else (case utf8_next bs of (c, n) \<Rightarrow> (case c of None \<Rightarrow> 0xfffd | Some c \<Rightarrow> c) # from_utf8_lossy (drop n bs)))"
  by pat_completeness auto
termination
  by (relation "measure length") (use utf8_next_drop in auto)

declare from_utf8.simps [simp del] from_utf8_lossy.simps [simp del]

section \<open>Lemmas\<close>

text \<open>The decoder on a sequence of each length, with the groups of six bits named.\<close>

lemmas utf8_next_defs = utf8_next_def Let_def utf8_width_def utf8_second_def utf8_cont_def

lemma utf8_next_1: "unat b < 0x80 \<Longrightarrow> utf8_next (b # r) = (Some (of_nat (unat b)), 1)"
  by (simp add: utf8_next_def Let_def utf8_width_def)

lemma utf8_next_2:
  assumes "unat b = 0xc0 + h" "unat c = 0x80 + l" "2 \<le> h" "h < 32" "l < 64"
  shows "utf8_next (b # c # r) = (Some (of_nat (h * 64 + l)), 2)"
  using assms(3-5) by (simp add: utf8_next_defs assms(1,2) del: of_nat_add of_nat_mult)

lemma utf8_next_3:
  assumes "unat b = 0xe0 + h" "unat c = 0x80 + m" "unat d = 0x80 + l" "h < 16" "m < 64" "l < 64"
    and "h = 0 \<longrightarrow> 32 \<le> m" "h = 13 \<longrightarrow> m < 32"
  shows "utf8_next (b # c # d # r) = (Some (of_nat (h * 4096 + m * 64 + l)), 3)"
  using assms(4-8) by (simp add: utf8_next_defs assms(1-3) del: of_nat_add of_nat_mult) auto

lemma utf8_next_4:
  assumes "unat b = 0xf0 + h" "unat c = 0x80 + m" "unat d = 0x80 + k" "unat e = 0x80 + l" "h \<le> 4" "m < 64" "k < 64" "l < 64"
    and "h = 0 \<longrightarrow> 16 \<le> m" "h = 4 \<longrightarrow> m < 16"
  shows "utf8_next (b # c # d # e # r) = (Some (of_nat (h * 262144 + m * 4096 + k * 64 + l)), 4)"
  using assms(5-10) by (simp add: utf8_next_defs assms(1-4) numeral_3_eq_3 del: of_nat_add of_nat_mult) auto

lemma unat_of_nat8: "m < 256 \<Longrightarrow> unat (of_nat m :: u8) = m"
  by (simp add: unat_of_nat take_bit_nat_eq_self)

lemma utf8_next_char:
  assumes "is_scalar c"
  shows "utf8_next (utf8_char c @ r) = (Some c, length (utf8_char c))"
proof -
  define n where "n = unat c"
  have c: "c = of_nat n" by (simp add: n_def)
  have lim: "n < 0xd800 \<or> 0xdfff < n \<and> n < 0x110000" using assms by (simp add: is_scalar_def n_def)
  note u = unat_of_nat8
  define a b d where "a = n div 64" and "b = a div 64" and "d = b div 64"
  have abd: "n div 64 = a" "n div 4096 = b" "n div 262144 = d"
    by (simp_all add: a_def b_def d_def div_mult2_eq [symmetric])
  have lin: "n = a * 64 + n mod 64" "a = b * 64 + a mod 64" "b = d * 64 + b mod 64" "n mod 64 < 64" "a mod 64 < 64" "b mod 64 < 64"
    by (simp_all add: a_def b_def d_def)
  have ch: "utf8_char c =
     (if n < 0x80 then [of_nat n]
      else if n < 0x800 then [of_nat (0xc0 + a), of_nat (0x80 + n mod 64)]
      else if n < 0x10000 then [of_nat (0xe0 + b), of_nat (0x80 + a mod 64), of_nat (0x80 + n mod 64)]
      else [of_nat (0xf0 + d), of_nat (0x80 + b mod 64), of_nat (0x80 + a mod 64), of_nat (0x80 + n mod 64)])"
    by (simp only: utf8_char_def n_def [symmetric] Let_def abd)
  consider "n < 0x80" | "0x80 \<le> n" "n < 0x800" | "0x800 \<le> n" "n < 0x10000" | "0x10000 \<le> n" by linarith
  then show ?thesis
  proof cases
    case 1
    then show ?thesis by (simp add: ch utf8_next_1 u c [symmetric])
  next
    case 2
    have "utf8_next (of_nat (0xc0 + a) # of_nat (0x80 + n mod 64) # r) = (Some (of_nat (a * 64 + n mod 64)), 2)"
      by (rule utf8_next_2) (use 2 lin in \<open>simp_all only: u\<close>)
    moreover have "a * 64 + n mod 64 = n" using lin by linarith
    moreover have "\<not> n < 0x80" using 2 by linarith+
    moreover from this have "utf8_char c = [of_nat (0xc0 + a), of_nat (0x80 + n mod 64)]" using 2 by (simp only: ch if_True if_False)
    ultimately show ?thesis by (simp flip: c del: of_nat_add of_nat_mult)
  next
    case 3
    have "utf8_next (of_nat (0xe0 + b) # of_nat (0x80 + a mod 64) # of_nat (0x80 + n mod 64) # r)
      = (Some (of_nat (b * 4096 + a mod 64 * 64 + n mod 64)), 3)"
    proof (rule utf8_next_3)
      show "b = 0 \<longrightarrow> 32 \<le> a mod 64" "b = 13 \<longrightarrow> a mod 64 < 32" using 3 lim lin by linarith+
    qed (use 3 lin in \<open>simp_all only: u\<close>)
    moreover have "b * 4096 + a mod 64 * 64 + n mod 64 = n" using lin by linarith
    moreover have "\<not> n < 0x80" "\<not> n < 0x800" using 3 by linarith+
    moreover from this have "utf8_char c = [of_nat (0xe0 + b), of_nat (0x80 + a mod 64), of_nat (0x80 + n mod 64)]" using 3 by (simp only: ch if_True if_False)
    ultimately show ?thesis by (simp flip: c del: of_nat_add of_nat_mult)
  next
    case 4
    have small: "n < 0x110000" using lim 4 by linarith
    have "utf8_next (of_nat (0xf0 + d) # of_nat (0x80 + b mod 64) # of_nat (0x80 + a mod 64) # of_nat (0x80 + n mod 64) # r)
      = (Some (of_nat (d * 262144 + b mod 64 * 4096 + a mod 64 * 64 + n mod 64)), 4)"
    proof (rule utf8_next_4)
      show "d = 0 \<longrightarrow> 16 \<le> b mod 64" "d = 4 \<longrightarrow> b mod 64 < 16" using 4 small lin by linarith+
    qed (use small lin in \<open>simp_all only: u\<close>)
    moreover have "d * 262144 + b mod 64 * 4096 + a mod 64 * 64 + n mod 64 = n" using lin by linarith
    moreover have "\<not> n < 0x80" "\<not> n < 0x800" "\<not> n < 0x10000" using 4 by linarith+
    moreover from this have "utf8_char c = [of_nat (0xf0 + d), of_nat (0x80 + b mod 64), of_nat (0x80 + a mod 64), of_nat (0x80 + n mod 64)]" using 4 by (simp only: ch if_True if_False)
    ultimately show ?thesis by (simp flip: c del: of_nat_add of_nat_mult)
  qed
qed

lemma utf8_char_ascii: "unat c < 0x80 \<Longrightarrow> utf8_char c = [ucast c]"
  by (simp add: utf8_char_def of_nat_unat)

lemma utf8_char_nonempty [simp]: "utf8_char c \<noteq> []"
  by (simp add: utf8_char_def Let_def)

lemma as_bytes_simps [simp]: "as_bytes [] = []" "as_bytes (c # s) = utf8_char c @ as_bytes s" "as_bytes (s @ t) = as_bytes s @ as_bytes t"
  by (simp_all add: as_bytes_def)

text \<open>Encoding and decoding.\<close>

lemma from_utf8_as_bytes: "list_all is_scalar s \<Longrightarrow> from_utf8 (as_bytes s) = Some s"
  by (induction s) (simp_all add: from_utf8.simps [of "[]"] from_utf8.simps [of "utf8_char _ @ _"] utf8_next_char)

lemma from_utf8_lossy_as_bytes: "list_all is_scalar s \<Longrightarrow> from_utf8_lossy (as_bytes s) = s"
  by (induction s) (simp_all add: from_utf8_lossy.simps [of "[]"] from_utf8_lossy.simps [of "utf8_char _ @ _"] utf8_next_char)

end
