(* ===== verification/KSU_KsudSepolicy.thy ===== *)
theory KSU_KsudSepolicy
  imports KSU_Supercall KSU_RustText "HOL-Library.Monad_Syntax"
begin

text \<open>
  The policy patcher of the daemon (\<open>ksud/src/sepolicy.rs\<close>, \<open>ksud/src/ksucalls.rs\<close>): the parser of policy
  rules, their expansion into atomic statements, the payload of the ioctl, and the way of a text through the ioctl
  into the policy of the kernel.

  Text is a list of Unicode code points, a parser takes the text and gives what it read and the rest, or nothing
  for an error; all errors of the parser combinators are of the kind that lets an alternative be tried.
\<close>

section \<open>Parser combinators\<close>

type_synonym 'a parser = "rstr \<Rightarrow> ('a \<times> rstr) option"

definition tag :: "rstr \<Rightarrow> rstr parser" where
  "tag t inp = (if take (length t) inp = t then Some (t, drop (length t) inp) else None)"

definition take_while :: "(u32 \<Rightarrow> bool) \<Rightarrow> rstr parser" where
  "take_while P inp = Some (takeWhile P inp, dropWhile P inp)"

definition take_while1 :: "(u32 \<Rightarrow> bool) \<Rightarrow> rstr parser" where
  "take_while1 P inp = (if takeWhile P inp = [] then None else Some (takeWhile P inp, dropWhile P inp))"

definition take_while_m_n :: "nat \<Rightarrow> nat \<Rightarrow> (u32 \<Rightarrow> bool) \<Rightarrow> rstr parser" where
  "take_while_m_n m n P inp =
     (let w = takeWhile P (take n inp) in if length w < m then None else Some (w, drop (length w) inp))"

definition is_space :: "u32 \<Rightarrow> bool" where
  "is_space c \<longleftrightarrow> c = 32 \<or> c = 9"

definition space0 :: "rstr parser" where "space0 = take_while is_space"
definition space1 :: "rstr parser" where "space1 = take_while1 is_space"

fun alt :: "'a parser list \<Rightarrow> 'a parser" where
  "alt [] inp = None"
| "alt (p # ps) inp = (case p inp of None \<Rightarrow> alt ps inp | Some r \<Rightarrow> Some r)"

section \<open>Objects of a rule\<close>

definition is_sepolicy_char :: "u32 \<Rightarrow> bool" where
  "is_sepolicy_char c \<longleftrightarrow> 48 \<le> c \<and> c \<le> 57 \<or> 65 \<le> c \<and> c \<le> 90 \<or> 97 \<le> c \<and> c \<le> 122 \<or> c = 95 \<or> c = 45"

definition parse_single_word :: "rstr parser" where
  "parse_single_word = take_while1 is_sepolicy_char"

definition parse_bracket_objs :: "rstr list parser" where
  "parse_bracket_objs inp = do {
     (_, inp) \<leftarrow> tag (rs ''{'') inp;
     (words, inp) \<leftarrow> take_while_m_n 1 100 (\<lambda>c. is_sepolicy_char c \<or> is_whitespace c) inp;
     (_, inp) \<leftarrow> tag (rs ''}'') inp;
     (let objs = split_whitespace words in if objs = [] then None else Some (objs, inp))
   }"

definition parse_single_obj :: "rstr list parser" where
  "parse_single_obj inp = do { (word, inp) \<leftarrow> take_while1 is_sepolicy_char inp; Some ([word], inp) }"

definition parse_star :: "rstr list parser" where
  "parse_star inp = do { (_, inp) \<leftarrow> tag (rs ''*'') inp; Some ([rs ''*''], inp) }"

definition parse_seobj :: "rstr list parser" where
  "parse_seobj = alt [parse_single_obj, parse_bracket_objs, parse_star]"

definition parse_seobj_no_star :: "rstr list parser" where
  "parse_seobj_no_star = alt [parse_single_obj, parse_bracket_objs]"

section \<open>Statements\<close>

text \<open>The statements with the fields of the source in its order.\<close>

datatype policy_statement =
    NormalPerm rstr "rstr list" "rstr list" "rstr list" "rstr list"
  | XPerm rstr "rstr list" "rstr list" "rstr list" rstr "rstr list"
  | TypeState rstr "rstr list"
  | TypeDecl rstr "rstr list"
  | TypeAttr "rstr list" "rstr list"
  | Attr rstr
  | TypeTransition rstr rstr rstr rstr "rstr option"
  | TypeChange rstr rstr rstr rstr rstr
  | GenFsCon rstr rstr rstr

definition NormalPerm_parse :: "policy_statement parser" where
  "NormalPerm_parse inp = do {
     (op, inp) \<leftarrow> alt [tag (rs ''allow''), tag (rs ''deny''), tag (rs ''auditallow''), tag (rs ''dontaudit'')] inp;
     (_, inp) \<leftarrow> space1 inp;
     (source, inp) \<leftarrow> parse_seobj inp;
     (_, inp) \<leftarrow> space1 inp;
     (target, inp) \<leftarrow> parse_seobj inp;
     (_, inp) \<leftarrow> space1 inp;
     (cls, inp) \<leftarrow> parse_seobj inp;
     (_, inp) \<leftarrow> space1 inp;
     (perm, inp) \<leftarrow> parse_seobj inp;
     Some (NormalPerm op source target cls perm, inp)
   }"

definition XPerm_parse :: "policy_statement parser" where
  "XPerm_parse inp = do {
     (op, inp) \<leftarrow> alt [tag (rs ''allowxperm''), tag (rs ''auditallowxperm''), tag (rs ''dontauditxperm'')] inp;
     (_, inp) \<leftarrow> space1 inp;
     (source, inp) \<leftarrow> parse_seobj inp;
     (_, inp) \<leftarrow> space1 inp;
     (target, inp) \<leftarrow> parse_seobj inp;
     (_, inp) \<leftarrow> space1 inp;
     (cls, inp) \<leftarrow> parse_seobj inp;
     (_, inp) \<leftarrow> space1 inp;
     (operation, inp) \<leftarrow> parse_single_word inp;
     (_, inp) \<leftarrow> space1 inp;
     (perm_set, inp) \<leftarrow> parse_seobj inp;
     Some (XPerm op source target cls operation perm_set, inp)
   }"

definition TypeState_parse :: "policy_statement parser" where
  "TypeState_parse inp = do {
     (op, inp) \<leftarrow> alt [tag (rs ''permissive''), tag (rs ''enforce'')] inp;
     (_, inp) \<leftarrow> space1 inp;
     (stype, inp) \<leftarrow> parse_seobj_no_star inp;
     Some (TypeState op stype, inp)
   }"

definition TypeDecl_parse :: "policy_statement parser" where
  "TypeDecl_parse inp = do {
     (_, inp) \<leftarrow> tag (rs ''type'') inp;
     (_, inp) \<leftarrow> space1 inp;
     (name, inp) \<leftarrow> parse_single_word inp;
     if inp = [] then Some (TypeDecl name [rs ''domain''], inp)
     else do {
       (_, inp) \<leftarrow> space1 inp;
       (attrs, inp) \<leftarrow> parse_seobj_no_star inp;
       Some (TypeDecl name attrs, inp)
     }
   }"

definition TypeAttr_parse :: "policy_statement parser" where
  "TypeAttr_parse inp = do {
     (_, inp) \<leftarrow> alt [tag (rs ''typeattribute''), tag (rs ''attradd'')] inp;
     (_, inp) \<leftarrow> space1 inp;
     (stype, inp) \<leftarrow> parse_seobj_no_star inp;
     (_, inp) \<leftarrow> space1 inp;
     (sattr, inp) \<leftarrow> parse_seobj_no_star inp;
     Some (TypeAttr stype sattr, inp)
   }"

definition Attr_parse :: "policy_statement parser" where
  "Attr_parse inp = do {
     (_, inp) \<leftarrow> tag (rs ''attribute'') inp;
     (_, inp) \<leftarrow> space1 inp;
     (name, inp) \<leftarrow> parse_single_word inp;
     Some (Attr name, inp)
   }"

definition TypeTransition_parse :: "policy_statement parser" where
  "TypeTransition_parse inp = do {
     (_, inp) \<leftarrow> alt [tag (rs ''type_transition''), tag (rs ''name_transition'')] inp;
     (_, inp) \<leftarrow> space1 inp;
     (source, inp) \<leftarrow> parse_single_word inp;
     (_, inp) \<leftarrow> space1 inp;
     (target, inp) \<leftarrow> parse_single_word inp;
     (_, inp) \<leftarrow> space1 inp;
     (cls, inp) \<leftarrow> parse_single_word inp;
     (_, inp) \<leftarrow> space1 inp;
     (dflt, inp) \<leftarrow> parse_single_word inp;
     if inp = [] then Some (TypeTransition source target cls dflt None, inp)
     else do {
       (_, inp) \<leftarrow> space1 inp;
       (object, inp) \<leftarrow> parse_single_word inp;
       Some (TypeTransition source target cls dflt (Some object), inp)
     }
   }"

definition TypeChange_parse :: "policy_statement parser" where
  "TypeChange_parse inp = do {
     (op, inp) \<leftarrow> alt [tag (rs ''type_change''), tag (rs ''type_member'')] inp;
     (_, inp) \<leftarrow> space1 inp;
     (source, inp) \<leftarrow> parse_single_word inp;
     (_, inp) \<leftarrow> space1 inp;
     (target, inp) \<leftarrow> parse_single_word inp;
     (_, inp) \<leftarrow> space1 inp;
     (cls, inp) \<leftarrow> parse_single_word inp;
     (_, inp) \<leftarrow> space1 inp;
     (dflt, inp) \<leftarrow> parse_single_word inp;
     Some (TypeChange op source target cls dflt, inp)
   }"

definition GenFsCon_parse :: "policy_statement parser" where
  "GenFsCon_parse inp = do {
     (_, inp) \<leftarrow> tag (rs ''genfscon'') inp;
     (_, inp) \<leftarrow> space1 inp;
     (fs, inp) \<leftarrow> parse_single_word inp;
     (_, inp) \<leftarrow> space1 inp;
     (path, inp) \<leftarrow> parse_single_word inp;
     (_, inp) \<leftarrow> space1 inp;
     (con, inp) \<leftarrow> parse_single_word inp;
     Some (GenFsCon fs path con, inp)
   }"

definition PolicyStatement_parse :: "policy_statement parser" where
  "PolicyStatement_parse inp = do {
     (_, inp) \<leftarrow> space0 inp;
     (statement, inp) \<leftarrow> alt [NormalPerm_parse, XPerm_parse, TypeState_parse, TypeDecl_parse, TypeAttr_parse, Attr_parse,
       TypeTransition_parse, TypeChange_parse, GenFsCon_parse] inp;
     (_, inp) \<leftarrow> space0 inp;
     (_, inp) \<leftarrow> take_while (\<lambda>c. c = 59) inp;
     (_, inp) \<leftarrow> space0 inp;
     Some (statement, inp)
   }"

text \<open>The loop over the lines; nothing where a line fails and the caller is strict.\<close>

fun parse_lines :: "bool \<Rightarrow> rstr list \<Rightarrow> policy_statement list option" where
  "parse_lines strict [] = Some []"
| "parse_lines strict (line # ls) =
     (let trimmed = trim line in
      if trimmed = [] \<or> take 1 trimmed = rs ''#'' then parse_lines strict ls
      else (case PolicyStatement_parse trimmed of
        Some (statement, _) \<Rightarrow> map_option ((#) statement) (parse_lines strict ls)
      | None \<Rightarrow> if strict then None else parse_lines strict ls))"

definition parse_sepolicy :: "rstr \<Rightarrow> bool \<Rightarrow> policy_statement list option" where
  "parse_sepolicy inp strict = parse_lines strict (split_on (\<lambda>c. c = 10 \<or> c = 59) inp)"

section \<open>Atomic statements\<close>

datatype policy_object = ObjAll | ObjOne bytes | ObjNone

definition policy_object_of :: "rstr \<Rightarrow> policy_object option" where
  "policy_object_of s =
     (if 0 \<in> set (as_bytes s) then None
      else if s = rs ''*'' then Some ObjAll
      else Some (ObjOne (as_bytes s)))"

text \<open>The seven objects of a statement are a list.\<close>

record atomic_statement =
  as_cmd :: u32
  as_subcmd :: u32
  as_sepols :: "policy_object list"

text \<open>A statement from the words of its first objects; the others are none.\<close>

definition atomic :: "u32 \<Rightarrow> u32 \<Rightarrow> rstr option list \<Rightarrow> atomic_statement option" where
  "atomic cmd subcmd ws =
     map_option (\<lambda>os. \<lparr>as_cmd = cmd, as_subcmd = subcmd, as_sepols = os @ replicate (7 - length ws) ObjNone\<rparr>)
       (those (map (\<lambda>x. case x of None \<Rightarrow> Some ObjNone | Some s \<Rightarrow> policy_object_of s) ws))"

definition NormalPerm_subcmd :: "rstr \<Rightarrow> u32" where
  "NormalPerm_subcmd op =
     (if op = rs ''allow'' then 1 else if op = rs ''deny'' then 2 else if op = rs ''auditallow'' then 3
      else if op = rs ''dontaudit'' then 4 else 0)"

definition XPerm_subcmd :: "rstr \<Rightarrow> u32" where
  "XPerm_subcmd op =
     (if op = rs ''allowxperm'' then 1 else if op = rs ''auditallowxperm'' then 2 else if op = rs ''dontauditxperm'' then 3 else 0)"

definition TypeState_subcmd :: "rstr \<Rightarrow> u32" where
  "TypeState_subcmd op = (if op = rs ''permissive'' then 1 else if op = rs ''enforce'' then 2 else 0)"

definition TypeChange_subcmd :: "rstr \<Rightarrow> u32" where
  "TypeChange_subcmd op = (if op = rs ''type_change'' then 1 else if op = rs ''type_member'' then 2 else 0)"

definition NormalPerm_atomics :: "rstr \<Rightarrow> rstr list \<Rightarrow> rstr list \<Rightarrow> rstr list \<Rightarrow> rstr list \<Rightarrow> atomic_statement option list" where
  "NormalPerm_atomics op source target cls perm =
     [atomic KSU_SEPOLICY_CMD_NORMAL_PERM (NormalPerm_subcmd op) [Some s, Some t, Some c, Some p].
      s \<leftarrow> source, t \<leftarrow> target, c \<leftarrow> cls, p \<leftarrow> perm]"

definition XPerm_atomics :: "rstr \<Rightarrow> rstr list \<Rightarrow> rstr list \<Rightarrow> rstr list \<Rightarrow> rstr \<Rightarrow> rstr list \<Rightarrow> atomic_statement option list" where
  "XPerm_atomics op source target cls operation perm_set =
     [atomic KSU_SEPOLICY_CMD_XPERM (XPerm_subcmd op) [Some s, Some t, Some c, Some operation, Some r].
      s \<leftarrow> source, t \<leftarrow> target, c \<leftarrow> cls, r \<leftarrow> perm_set]"

definition TypeState_atomics :: "rstr \<Rightarrow> rstr list \<Rightarrow> atomic_statement option list" where
  "TypeState_atomics op stype = [atomic KSU_SEPOLICY_CMD_TYPE_STATE (TypeState_subcmd op) [Some t]. t \<leftarrow> stype]"

definition TypeDecl_atomics :: "rstr \<Rightarrow> rstr list \<Rightarrow> atomic_statement option list" where
  "TypeDecl_atomics name attrs = [atomic KSU_SEPOLICY_CMD_TYPE 0 [Some name, Some attr]. attr \<leftarrow> attrs]"

definition TypeAttr_atomics :: "rstr list \<Rightarrow> rstr list \<Rightarrow> atomic_statement option list" where
  "TypeAttr_atomics stype sattr = [atomic KSU_SEPOLICY_CMD_TYPE_ATTR 0 [Some t, Some attr]. t \<leftarrow> stype, attr \<leftarrow> sattr]"

definition Attr_atomics :: "rstr \<Rightarrow> atomic_statement option list" where
  "Attr_atomics name = [atomic KSU_SEPOLICY_CMD_ATTR 0 [Some name]]"

definition TypeTransition_atomics :: "rstr \<Rightarrow> rstr \<Rightarrow> rstr \<Rightarrow> rstr \<Rightarrow> rstr option \<Rightarrow> atomic_statement option list" where
  "TypeTransition_atomics source target cls dflt object =
     [atomic KSU_SEPOLICY_CMD_TYPE_TRANSITION 0 [Some source, Some target, Some cls, Some dflt, object]]"

definition TypeChange_atomics :: "rstr \<Rightarrow> rstr \<Rightarrow> rstr \<Rightarrow> rstr \<Rightarrow> rstr \<Rightarrow> atomic_statement option list" where
  "TypeChange_atomics op source target cls dflt =
     [atomic KSU_SEPOLICY_CMD_TYPE_CHANGE (TypeChange_subcmd op) [Some source, Some target, Some cls, Some dflt]]"

definition GenFsCon_atomics :: "rstr \<Rightarrow> rstr \<Rightarrow> rstr \<Rightarrow> atomic_statement option list" where
  "GenFsCon_atomics fs path con = [atomic KSU_SEPOLICY_CMD_GENFSCON 0 [Some fs, Some path, Some con]]"

fun expand :: "policy_statement \<Rightarrow> atomic_statement option list" where
  "expand (NormalPerm op source target cls perm) = NormalPerm_atomics op source target cls perm"
| "expand (XPerm op source target cls operation perm_set) = XPerm_atomics op source target cls operation perm_set"
| "expand (TypeState op stype) = TypeState_atomics op stype"
| "expand (TypeDecl name attrs) = TypeDecl_atomics name attrs"
| "expand (TypeAttr stype sattr) = TypeAttr_atomics stype sattr"
| "expand (Attr name) = Attr_atomics name"
| "expand (TypeTransition source target cls dflt object) = TypeTransition_atomics source target cls dflt object"
| "expand (TypeChange op source target cls dflt) = TypeChange_atomics op source target cls dflt"
| "expand (GenFsCon fs path con) = GenFsCon_atomics fs path con"

definition flatten_atomic_statements :: "policy_statement list \<Rightarrow> atomic_statement list option" where
  "flatten_atomic_statements statements = map_option concat (those (map (\<lambda>s. those (expand s)) statements))"

section \<open>The payload\<close>

definition cmd_expected_argc :: "u32 \<Rightarrow> nat option" where
  "cmd_expected_argc cmd =
     (if cmd = KSU_SEPOLICY_CMD_NORMAL_PERM \<or> cmd = KSU_SEPOLICY_CMD_TYPE_CHANGE then Some 4
      else if cmd = KSU_SEPOLICY_CMD_XPERM \<or> cmd = KSU_SEPOLICY_CMD_TYPE_TRANSITION then Some 5
      else if cmd = KSU_SEPOLICY_CMD_TYPE_STATE \<or> cmd = KSU_SEPOLICY_CMD_ATTR then Some 1
      else if cmd = KSU_SEPOLICY_CMD_TYPE \<or> cmd = KSU_SEPOLICY_CMD_TYPE_ATTR then Some 2
      else if cmd = KSU_SEPOLICY_CMD_GENFSCON then Some 3
      else None)"

definition encode_policy_object :: "policy_object \<Rightarrow> bytes option" where
  "encode_policy_object object =
     (let b = (case object of ObjNone \<Rightarrow> [] | ObjAll \<Rightarrow> [] | ObjOne value \<Rightarrow> value) in
      if 2 ^ 32 \<le> length b then None else Some (u32_bytes (of_nat (length b)) @ b @ [0]))"

definition append_atomic_statement :: "atomic_statement \<Rightarrow> bytes option" where
  "append_atomic_statement statement = (case cmd_expected_argc (as_cmd statement) of
     None \<Rightarrow> None
   | Some expected_argc \<Rightarrow>
       map_option (\<lambda>objs. u32_bytes (as_cmd statement) @ u32_bytes (as_subcmd statement) @ concat objs)
         (those (map encode_policy_object (take expected_argc (as_sepols statement)))))"

definition serialize_atomic_statements :: "atomic_statement list \<Rightarrow> bytes option" where
  "serialize_atomic_statements statements = map_option concat (those (map append_atomic_statement statements))"

section \<open>Through the ioctl\<close>

text \<open>The call: the argument structure and the payload in the memory of the daemon, the descriptor, and the result
  with the state afterwards.\<close>

record ioctl_call =
  ic_filp :: "u64 option"
  ic_argp :: u64
  ic_payload :: u64

definition daemon_memory :: "ioctl_call \<Rightarrow> bytes \<Rightarrow> sc_env \<Rightarrow> sc_env" where
  "daemon_memory c payload e = e\<lparr>
     ce_read := (ce_read e)(ic_argp c := (\<lambda>n. Some (take n (u64_bytes (of_nat (length payload)) @ u64_bytes (ic_payload c))))),
     ce_pol := (ce_pol e)\<lparr>pe_user := (pe_user (ce_pol e))(ic_payload c := (\<lambda>n. Some (take n payload)))\<rparr>\<rparr>"

definition set_sepolicy :: "ioctl_call \<Rightarrow> bytes \<Rightarrow> sc_env \<Rightarrow> sc_world \<Rightarrow> (int \<times> sc_world) option" where
  "set_sepolicy c payload e w =
     map_option (\<lambda>(ret, ws, w'). (ret, w'))
       (ksu_supercall_handle_ioctl (daemon_memory c payload e) (ic_filp c) KSU_IOCTL_SET_SEPOLICY (ic_argp c) w)"

text \<open>Whether the batch is reported as a success, and the state.\<close>

definition apply_rules_batch :: "ioctl_call \<Rightarrow> policy_statement list \<Rightarrow> bool \<Rightarrow> sc_env \<Rightarrow> sc_world \<Rightarrow> (bool \<times> sc_world) option" where
  "apply_rules_batch c statements strict e w = (case flatten_atomic_statements statements of
     None \<Rightarrow> Some (False, w)
   | Some policies \<Rightarrow>
       if policies = [] then Some (True, w)
       else (case serialize_atomic_statements policies of
         None \<Rightarrow> Some (False, w)
       | Some payload \<Rightarrow>
           (case set_sepolicy c payload e w of
              None \<Rightarrow> None
            | Some (ret, w') \<Rightarrow>
                if ret < 0 then Some (\<not> strict, w')
                else if nat ret < length policies then Some (\<not> strict, w')
                else Some (True, w'))))"

definition live_patch :: "ioctl_call \<Rightarrow> rstr \<Rightarrow> sc_env \<Rightarrow> sc_world \<Rightarrow> (bool \<times> sc_world) option" where
  "live_patch c policy e w = (case parse_sepolicy (trim policy) False of
     None \<Rightarrow> Some (False, w)
   | Some statements \<Rightarrow> apply_rules_batch c statements False e w)"

text \<open>The text of the file, nothing where it cannot be read.\<close>

definition apply_file :: "ioctl_call \<Rightarrow> rstr option \<Rightarrow> sc_env \<Rightarrow> sc_world \<Rightarrow> (bool \<times> sc_world) option" where
  "apply_file c contents e w = (case contents of None \<Rightarrow> Some (False, w) | Some policy \<Rightarrow> live_patch c policy e w)"

definition check_rule :: "(rstr \<Rightarrow> bool) \<Rightarrow> (rstr \<Rightarrow> rstr option) \<Rightarrow> rstr \<Rightarrow> bool" where
  "check_rule path_exists read_file policy =
     (case (if path_exists policy then read_file policy else Some policy) of
        None \<Rightarrow> False
      | Some text \<Rightarrow> parse_sepolicy (trim text) True \<noteq> None)"

section \<open>Lemmas: the kernel reads what the daemon writes\<close>

lemma argc_agrees: "cmd_expected_argc cmd = sepol_expected_argc cmd"
  by (auto simp: cmd_expected_argc_def sepol_expected_argc_def)

text \<open>The argument the kernel gets for an object, and the command it gets for a statement.\<close>

definition object_arg :: "policy_object \<Rightarrow> bytes option" where
  "object_arg obj = (case obj of ObjOne b \<Rightarrow> if b = [] then None else Some b | _ \<Rightarrow> None)"

definition atomic_cmd :: "atomic_statement \<Rightarrow> sepol_cmd" where
  "atomic_cmd s = (\<lparr>sd_cmd = as_cmd s, sd_subcmd = as_subcmd s\<rparr>, map object_arg (take (the (cmd_expected_argc (as_cmd s))) (as_sepols s)))"

definition object_ok :: "policy_object \<Rightarrow> bool" where
  "object_ok obj = (case obj of ObjOne b \<Rightarrow> 0 \<notin> set b | _ \<Rightarrow> True)"

definition atomic_ok :: "atomic_statement \<Rightarrow> bool" where
  "atomic_ok s \<longleftrightarrow> cmd_expected_argc (as_cmd s) \<noteq> None \<and> length (as_sepols s) = 7 \<and> list_all object_ok (as_sepols s)"

lemma encode_object_arg:
  "encode_policy_object obj = Some b \<Longrightarrow> object_ok obj \<Longrightarrow> b = enc_arg (object_arg obj) \<and> arg_ok (object_arg obj)"
  by (auto simp: encode_policy_object_def object_arg_def object_ok_def enc_arg_def arg_ok_def Let_def split: policy_object.splits if_splits)

lemma those_Some: "those xs = Some ys \<longleftrightarrow> xs = map Some ys"
  by (induction xs arbitrary: ys) (auto split: option.splits simp: Cons_eq_map_conv)

lemma map_Some_list_all2: "map f xs = map Some ys \<longleftrightarrow> list_all2 (\<lambda>x y. f x = Some y) xs ys"
  by (induction xs arbitrary: ys) (auto simp: Cons_eq_map_conv list_all2_Cons1)

lemma encode_objects:
  "those (map encode_policy_object os) = Some bs \<Longrightarrow> list_all object_ok os \<Longrightarrow>
     concat bs = concat (map enc_arg (map object_arg os)) \<and> list_all arg_ok (map object_arg os)"
  unfolding those_Some
  by (induction os arbitrary: bs) (auto simp: Cons_eq_map_conv dest!: encode_object_arg)

lemma argc_le: "cmd_expected_argc cmd = Some n \<Longrightarrow> n \<le> 5"
  by (auto simp: cmd_expected_argc_def split: if_splits)

lemma append_atomic_cmd:
  assumes "append_atomic_statement s = Some b" "atomic_ok s"
  shows "b = enc_cmd (atomic_cmd s) \<and> cmd_ok (atomic_cmd s)"
proof -
  obtain n where n: "cmd_expected_argc (as_cmd s) = Some n" using assms(2) by (auto simp: atomic_ok_def)
  obtain objs where e: "those (map encode_policy_object (take n (as_sepols s))) = Some objs"
    and b: "b = u32_bytes (as_cmd s) @ u32_bytes (as_subcmd s) @ concat objs"
    using assms(1) n by (auto simp: append_atomic_statement_def)
  have "list_all object_ok (take n (as_sepols s))" using assms(2) by (auto simp: atomic_ok_def list_all_iff dest: in_set_takeD)
  from encode_objects [OF e this] show ?thesis
    using n argc_le [OF n] assms(2) by (simp add: b enc_cmd_def cmd_ok_def atomic_cmd_def atomic_ok_def argc_agrees [symmetric])
qed

lemma append_atomic_cmds:
  "map append_atomic_statement as = map Some bs \<Longrightarrow> list_all atomic_ok as \<Longrightarrow>
     concat bs = concat (map enc_cmd (map atomic_cmd as)) \<and> list_all cmd_ok (map atomic_cmd as)"
  by (induction as arbitrary: bs) (auto simp: Cons_eq_map_conv dest!: append_atomic_cmd)

lemma serialize_cmds:
  "serialize_atomic_statements as = Some payload \<Longrightarrow> list_all atomic_ok as \<Longrightarrow>
     payload = concat (map enc_cmd (map atomic_cmd as)) \<and> list_all cmd_ok (map atomic_cmd as)"
  using append_atomic_cmds unfolding serialize_atomic_statements_def by (auto simp: those_Some)

lemma policy_object_ok: "policy_object_of s = Some obj \<Longrightarrow> object_ok obj"
  by (auto simp: policy_object_of_def object_ok_def split: if_splits)

lemma atomic_ok_atomic:
  assumes "atomic cmd sub ws = Some a" "cmd_expected_argc cmd \<noteq> None" "length ws \<le> 7"
  shows "atomic_ok a"
proof -
  obtain os where "list_all2 (\<lambda>x y. (case x of None \<Rightarrow> Some ObjNone | Some s \<Rightarrow> policy_object_of s) = Some y) ws os"
    and a: "a = \<lparr>as_cmd = cmd, as_subcmd = sub, as_sepols = os @ replicate (7 - length ws) ObjNone\<rparr>"
    using assms(1) unfolding atomic_def by (auto simp: those_Some map_Some_list_all2)
  from this(1) have "length os = length ws \<and> list_all object_ok os"
    by (induction rule: list_all2_induct) (auto simp: object_ok_def [of ObjNone] split: option.splits dest: policy_object_ok)
  then show ?thesis using assms(2,3) by (auto simp: a atomic_ok_def list_all_iff object_ok_def [of ObjNone])
qed

lemmas atomics_defs = NormalPerm_atomics_def XPerm_atomics_def TypeState_atomics_def TypeDecl_atomics_def TypeAttr_atomics_def
  Attr_atomics_def TypeTransition_atomics_def TypeChange_atomics_def GenFsCon_atomics_def

lemma expand_ok: "Some a \<in> set (expand st) \<Longrightarrow> atomic_ok a"
  by (cases st) (auto simp: atomics_defs cmd_expected_argc_def dest!: sym [of "Some a"] intro!: atomic_ok_atomic)

lemma flatten_ok:
  assumes "flatten_atomic_statements sts = Some as"
  shows "list_all atomic_ok as"
proof -
  obtain ass where "map (\<lambda>s. those (expand s)) sts = map Some ass" and as: "as = concat ass"
    using assms unfolding flatten_atomic_statements_def by (auto simp: those_Some)
  then have *: "list_all2 (\<lambda>s l. expand s = map Some l) sts ass" by (simp add: map_Some_list_all2 those_Some)
  have "atomic_ok a" if l: "l \<in> set ass" and a: "a \<in> set l" for l a
  proof -
    obtain i where "i < length ass" "ass ! i = l" using l by (auto simp: in_set_conv_nth)
    then obtain s where "expand s = map Some l" using * by (auto simp: list_all2_conv_all_nth)
    then show ?thesis using expand_ok [of a s] a by simp
  qed
  then show ?thesis by (auto simp: as list_all_iff)
qed

section \<open>Lemmas: what the parser returns\<close>

definition word_ok :: "rstr \<Rightarrow> bool" where
  "word_ok w \<longleftrightarrow> w \<noteq> [] \<and> list_all is_sepolicy_char w"

definition obj_word :: "rstr \<Rightarrow> bool" where
  "obj_word w \<longleftrightarrow> word_ok w \<or> w = rs ''*''"

fun statement_words :: "policy_statement \<Rightarrow> rstr set" where
  "statement_words (NormalPerm op s t c p) = set s \<union> set t \<union> set c \<union> set p"
| "statement_words (XPerm op s t c x p) = set s \<union> set t \<union> set c \<union> {x} \<union> set p"
| "statement_words (TypeState op t) = set t"
| "statement_words (TypeDecl n a) = insert n (set a)"
| "statement_words (TypeAttr t a) = set t \<union> set a"
| "statement_words (Attr n) = {n}"
| "statement_words (TypeTransition s t c d obj) = {s, t, c, d} \<union> set_option obj"
| "statement_words (TypeChange op s t c d) = {s, t, c, d}"
| "statement_words (GenFsCon f p c) = {f, p, c}"

lemma sepolicy_char_ascii: "is_sepolicy_char c \<Longrightarrow> 45 \<le> c \<and> c < 123"
  unfolding is_sepolicy_char_def by (elim disjE conjE) (auto simp: word_le_nat_alt word_less_nat_alt)

lemma star_eq: "rs ''*'' = [42]"
  by code_simp

lemma utf8_obj_word:
  assumes "obj_word w"
  shows "as_bytes w = map ucast w \<and> 0 \<notin> set (as_bytes w) \<and> as_bytes w \<noteq> []"
proof -
  have c: "utf8_char c = [ucast c] \<and> (ucast c :: u8) \<noteq> 0" if "c \<in> set w" for c
  proof -
    have "42 \<le> c" "c < 123" using assms that sepolicy_char_ascii [of c]
      by (auto simp: obj_word_def word_ok_def star_eq list_all_iff word_le_nat_alt)
    then have "c < 0x80" "(ucast c :: u8) \<noteq> 0"
      by (simp_all add: word_less_nat_alt word_le_nat_alt unsigned_ucast_eq word_unat_eq_iff take_bit_nat_eq_self)
    then show ?thesis by (simp add: utf8_char_ascii word_less_nat_alt)
  qed
  have "map utf8_char w = map (\<lambda>c. [ucast c]) w" by (rule map_cong) (use c in auto)
  then have "as_bytes w = map ucast w" unfolding as_bytes_def by (simp only: concat_map_singleton)
  moreover have "w \<noteq> []" using assms by (auto simp: obj_word_def word_ok_def star_eq)
  ultimately show ?thesis using c by auto
qed

lemma split_on_chars: "w \<in> set (split_on P s) \<Longrightarrow> c \<in> set w \<Longrightarrow> c \<in> set s \<and> \<not> P c"
  by (induction s arbitrary: w) (fastforce split: if_splits list.splits)+

lemma split_whitespace_words:
  assumes "w \<in> set (split_whitespace s)" "list_all (\<lambda>c. is_sepolicy_char c \<or> is_whitespace c) s"
  shows "word_ok w"
  using assms split_on_chars [of w is_whitespace s] by (auto simp: split_whitespace_def word_ok_def list_all_iff)

lemma take_while1_all: "take_while1 P inp = Some (w, r) \<Longrightarrow> w \<noteq> [] \<and> list_all P w"
  by (auto simp: take_while1_def list_all_iff dest: set_takeWhileD split: if_splits)

lemma parse_single_word_ok: "parse_single_word inp = Some (w, r) \<Longrightarrow> word_ok w"
  unfolding parse_single_word_def word_ok_def by (rule take_while1_all)

lemma parse_bracket_ok:
  assumes "parse_bracket_objs inp = Some (ws, r)" "w \<in> set ws"
  shows "word_ok w"
proof -
  obtain words rest rest' where t: "take_while_m_n 1 100 (\<lambda>c. is_sepolicy_char c \<or> is_whitespace c) rest = Some (words, rest')"
    and ws: "ws = split_whitespace words"
    using assms(1) unfolding parse_bracket_objs_def by (auto simp: Let_def bind_eq_Some_conv split: if_splits)
  have "list_all (\<lambda>c. is_sepolicy_char c \<or> is_whitespace c) words"
    using t by (auto simp: take_while_m_n_def Let_def list_all_iff dest: set_takeWhileD split: if_splits)
  then show ?thesis using split_whitespace_words assms(2) ws by blast
qed

lemma parse_single_obj_ok: "parse_single_obj inp = Some (ws, r) \<Longrightarrow> w \<in> set ws \<Longrightarrow> word_ok w"
  unfolding parse_single_obj_def word_ok_def by (auto simp: bind_eq_Some_conv dest!: take_while1_all)

lemma parse_star_ok: "parse_star inp = Some (ws, r) \<Longrightarrow> ws = [rs ''*'']"
  unfolding parse_star_def by (auto simp: bind_eq_Some_conv)

lemma alt_Some: "alt ps inp = Some x \<Longrightarrow> \<exists>p\<in>set ps. p inp = Some x"
  by (induction ps) (auto split: option.splits)

lemma parse_seobj_no_star_ok: "parse_seobj_no_star inp = Some (ws, r) \<Longrightarrow> w \<in> set ws \<Longrightarrow> word_ok w"
  unfolding parse_seobj_no_star_def using parse_single_obj_ok parse_bracket_ok by (fastforce dest!: alt_Some)

lemma parse_seobj_ok: "parse_seobj inp = Some (ws, r) \<Longrightarrow> w \<in> set ws \<Longrightarrow> obj_word w"
  unfolding parse_seobj_def obj_word_def using parse_single_obj_ok parse_bracket_ok parse_star_ok
  by (fastforce dest!: alt_Some)

definition words_ok :: "policy_statement \<Rightarrow> bool" where
  "words_ok st \<longleftrightarrow> (\<forall>w\<in>statement_words st. obj_word w)"

lemma word_is_obj: "word_ok w \<Longrightarrow> obj_word w"
  by (simp add: obj_word_def)

lemmas word_facts = parse_seobj_ok parse_seobj_no_star_ok [THEN word_is_obj] parse_single_word_ok [THEN word_is_obj]

lemma NormalPerm_words: "NormalPerm_parse inp = Some (st, r) \<Longrightarrow> words_ok st"
  unfolding NormalPerm_parse_def words_ok_def by (auto simp: bind_eq_Some_conv dest: word_facts)

lemma XPerm_words: "XPerm_parse inp = Some (st, r) \<Longrightarrow> words_ok st"
  unfolding XPerm_parse_def words_ok_def by (auto simp: bind_eq_Some_conv dest: word_facts)

lemma TypeState_words: "TypeState_parse inp = Some (st, r) \<Longrightarrow> words_ok st"
  unfolding TypeState_parse_def words_ok_def by (auto simp: bind_eq_Some_conv dest: word_facts)

lemma domain_word: "obj_word (rs ''domain'')"
  by code_simp

lemma TypeDecl_words: "TypeDecl_parse inp = Some (st, r) \<Longrightarrow> words_ok st"
  unfolding TypeDecl_parse_def words_ok_def
  by (auto simp: bind_eq_Some_conv domain_word dest: word_facts split: if_splits)

lemma TypeAttr_words: "TypeAttr_parse inp = Some (st, r) \<Longrightarrow> words_ok st"
  unfolding TypeAttr_parse_def words_ok_def by (auto simp: bind_eq_Some_conv dest: word_facts)

lemma Attr_words: "Attr_parse inp = Some (st, r) \<Longrightarrow> words_ok st"
  unfolding Attr_parse_def words_ok_def by (auto simp: bind_eq_Some_conv dest: word_facts)

lemma TypeTransition_words: "TypeTransition_parse inp = Some (st, r) \<Longrightarrow> words_ok st"
  unfolding TypeTransition_parse_def words_ok_def by (auto simp: bind_eq_Some_conv dest: word_facts split: if_splits)

lemma TypeChange_words: "TypeChange_parse inp = Some (st, r) \<Longrightarrow> words_ok st"
  unfolding TypeChange_parse_def words_ok_def by (auto simp: bind_eq_Some_conv dest: word_facts)

lemma GenFsCon_words: "GenFsCon_parse inp = Some (st, r) \<Longrightarrow> words_ok st"
  unfolding GenFsCon_parse_def words_ok_def by (auto simp: bind_eq_Some_conv dest: word_facts)

lemmas statement_words_facts = NormalPerm_words XPerm_words TypeState_words TypeDecl_words TypeAttr_words Attr_words
  TypeTransition_words TypeChange_words GenFsCon_words

lemma PolicyStatement_words:
  assumes "PolicyStatement_parse inp = Some (st, r)"
  shows "words_ok st"
proof -
  obtain rest rest' where "alt [NormalPerm_parse, XPerm_parse, TypeState_parse, TypeDecl_parse, TypeAttr_parse, Attr_parse,
      TypeTransition_parse, TypeChange_parse, GenFsCon_parse] rest = Some (st, rest')"
    using assms unfolding PolicyStatement_parse_def by (auto simp: bind_eq_Some_conv)
  from alt_Some [OF this] show ?thesis using statement_words_facts by auto
qed

lemma parse_lines_words: "parse_lines strict ls = Some sts \<Longrightarrow> list_all words_ok sts"
  by (induction ls arbitrary: sts) (auto simp: Let_def PolicyStatement_words split: if_splits option.splits)

lemma parse_lines_lenient: "\<exists>sts. parse_lines False ls = Some sts"
  by (induction ls) (auto simp: Let_def split: option.split)

lemma parse_sepolicy_words: "parse_sepolicy inp strict = Some sts \<Longrightarrow> list_all words_ok sts"
  unfolding parse_sepolicy_def by (rule parse_lines_words)

lemma parse_sepolicy_lenient: "\<exists>sts. parse_sepolicy inp False = Some sts"
  unfolding parse_sepolicy_def by (rule parse_lines_lenient)

section \<open>Lemmas: a text reaches the policy\<close>

lemma policy_object_total: "obj_word s \<Longrightarrow> \<exists>obj. policy_object_of s = Some obj"
  using utf8_obj_word [of s] by (auto simp: policy_object_of_def)

lemma those_total: "None \<notin> set xs \<Longrightarrow> \<exists>ys. those xs = Some ys"
proof (induction xs)
  case (Cons x xs)
  then obtain y where "x = Some y" by (cases x) auto
  then show ?case using Cons by auto
qed simp

lemma atomic_total:
  assumes "\<forall>w. Some w \<in> set ws \<longrightarrow> obj_word w"
  shows "atomic cmd sub ws \<noteq> None"
proof -
  have "None \<notin> set (map (\<lambda>x. case x of None \<Rightarrow> Some ObjNone | Some s \<Rightarrow> policy_object_of s) ws)"
    using assms policy_object_total by (fastforce split: option.splits)
  then show ?thesis using those_total by (fastforce simp: atomic_def)
qed

lemma expand_total: "words_ok st \<Longrightarrow> None \<notin> set (expand st)"
  unfolding words_ok_def by (cases st) (auto dest!: sym [of None] simp: atomics_defs atomic_total)

lemma flatten_total:
  assumes "list_all words_ok sts"
  shows "\<exists>as. flatten_atomic_statements sts = Some as"
proof -
  have "None \<notin> set (map (\<lambda>s. those (expand s)) sts)"
    using assms expand_total those_total by (fastforce simp: list_all_iff)
  then show ?thesis unfolding flatten_atomic_statements_def using those_total by fastforce
qed

lemma set_sepolicy_root:
  assumes "current_uid w = 0" "length payload < 2 ^ 64"
  shows "set_sepolicy c payload e w =
    (case handle_sepolicy (ce_pol (daemon_memory c payload e)) (ic_payload c) (of_nat (length payload)) (sc_selinux w) of
       (ret, st) \<Rightarrow> Some (ret, w\<lparr>sc_selinux := st\<rparr>))"
proof -
  let ?e = "daemon_memory c payload e"
  have r: "only_root ?e w" using assms(1) by (simp add: only_root_def)
  have "ksu_supercall_handle_ioctl ?e (ic_filp c) KSU_IOCTL_SET_SEPOLICY (ic_argp c) w = do_set_sepolicy ?e (ic_argp c) w"
    unfolding ksu_supercall_handle_ioctl_def ksu_ioctl_handlers_def ioctl_loop.simps cmd_map_sel by (simp add: ioctl_numbers r)
  moreover have "ce_read ?e (ic_argp c) 16 = Some (u64_bytes (of_nat (length payload)) @ u64_bytes (ic_payload c))"
    by (simp add: daemon_memory_def)
  ultimately show ?thesis
    by (simp add: set_sepolicy_def do_set_sepolicy_def field_def split: prod.split)
qed

lemma batch_reaches_kernel:
  assumes "current_uid w = 0" "ic_payload c \<noteq> 0" "flatten_atomic_statements sts = Some as" "as \<noteq> []"
    and "serialize_atomic_statements as = Some payload" "length payload \<le> 0x800000"
    and "ss_policy (sc_selinux w) = Some old" "pe_payload_alloc (ce_pol e)"
    and "ksu_dup_sepolicy (ce_pol (daemon_memory c payload e)) old = Inr pol"
  defines "p \<equiv> ce_pol (daemon_memory c payload e)"
  defines "r \<equiv> fold (run_cmd p) (map atomic_cmd as) (sp_db pol, 0)"
  shows "set_sepolicy c payload e w = Some (snd r, w\<lparr>sc_selinux := publish p pol (fst r) (sc_selinux w)\<rparr>) \<and> 0 \<le> snd r"
proof -
  have enc: "payload = concat (map enc_cmd (map atomic_cmd as))" "list_all cmd_ok (map atomic_cmd as)"
    using serialize_cmds [OF assms(5) flatten_ok [OF assms(3)]] by blast+
  have "payload \<noteq> []" using assms(4) enc(1) by (cases as) simp_all
  moreover have len: "unat (of_nat (length payload) :: u64) = length payload" using assms(6) by (simp add: unat_of_nat take_bit_nat_eq_self)
  ultimately have pos: "(of_nat (length payload) :: u64) \<noteq> 0" "\<not> (of_nat (length payload) :: u64) > KSU_SEPOLICY_MAX_BATCH_SIZE"
    using assms(6) by (auto simp: word_less_nat_alt simp flip: unat_eq_0)
  have mem: "pe_user p (ic_payload c) (length payload) = Some payload" "pe_payload_alloc p"
    using assms(8) by (simp_all add: p_def daemon_memory_def)
  have "handle_sepolicy p (ic_payload c) (of_nat (length payload)) (sc_selinux w) = (snd r, publish p pol (fst r) (sc_selinux w))"
    using assms(2,7) pos mem assms(9) [folded p_def] sepol_loop_enc [OF enc(2), of p "sp_db pol" 0, folded enc(1) r_def]
    by (simp add: handle_sepolicy_def len)
  moreover have "0 \<le> snd r" using run_cmds_nonneg [of 0 p "map atomic_cmd as" "sp_db pol"] by (simp add: r_def)
  moreover have "length payload < 2 ^ 64" using assms(6) by simp
  ultimately show ?thesis using set_sepolicy_root [OF assms(1)] by (simp add: p_def [symmetric])
qed

text \<open>(C39) A rule text reaches the policy of the kernel as written. For every text the lenient parser returns and every
  statement it returns can be expanded. When root patches the live policy, the text has at least one rule, and the
  payload is within the limit of a batch, then the whole way from the text through the payload, the ioctl with its permission check
  and the reader of the kernel ends in exactly the expanded commands, run in order on a copy of the policy that is then
  published; nothing else of the kernel state changes, and the kernel never rejects what the daemon wrote.\<close>

theorem live_patch_reaches_policy:
  assumes "current_uid w = 0" "ic_payload c \<noteq> 0"
  shows "\<exists>sts as. parse_sepolicy (trim text) False = Some sts \<and> flatten_atomic_statements sts = Some as \<and>
    (as = [] \<longrightarrow> live_patch c text e w = Some (True, w)) \<and>
    (\<forall>payload old pol p. as \<noteq> [] \<and> serialize_atomic_statements as = Some payload \<and> length payload \<le> 0x800000 \<and>
       ss_policy (sc_selinux w) = Some old \<and> pe_payload_alloc (ce_pol e) \<and> p = ce_pol (daemon_memory c payload e) \<and>
       ksu_dup_sepolicy p old = Inr pol \<longrightarrow>
       live_patch c text e w =
         Some (True, w\<lparr>sc_selinux := publish p pol (fst (fold (run_cmd p) (map atomic_cmd as) (sp_db pol, 0))) (sc_selinux w)\<rparr>))"
proof -
  obtain sts where sts: "parse_sepolicy (trim text) False = Some sts" using parse_sepolicy_lenient by blast
  obtain as where as: "flatten_atomic_statements sts = Some as" using flatten_total [OF parse_sepolicy_words [OF sts]] by blast
  have "live_patch c text e w = Some (True, w\<lparr>sc_selinux := publish p pol (fst (fold (run_cmd p) (map atomic_cmd as) (sp_db pol, 0))) (sc_selinux w)\<rparr>)"
    if "as \<noteq> []" "serialize_atomic_statements as = Some payload" "length payload \<le> 0x800000" "ss_policy (sc_selinux w) = Some old"
      "pe_payload_alloc (ce_pol e)" "p = ce_pol (daemon_memory c payload e)" "ksu_dup_sepolicy p old = Inr pol" for payload old pol p
    using batch_reaches_kernel [OF assms as that(1-5) that(7) [unfolded that(6)]] that(1,2,6)
    by (simp add: live_patch_def sts apply_rules_batch_def as)
  moreover have "as = [] \<longrightarrow> live_patch c text e w = Some (True, w)" by (simp add: live_patch_def sts apply_rules_batch_def as)
  ultimately show ?thesis using sts as by blast
qed

section \<open>Lemmas: printing and parsing\<close>

fun join_words :: "rstr list \<Rightarrow> rstr" where
  "join_words [] = []"
| "join_words [w] = w"
| "join_words (w # ws) = w @ 32 # join_words ws"

definition print_objs :: "rstr list \<Rightarrow> rstr" where
  "print_objs ws = (case ws of [w] \<Rightarrow> w | _ \<Rightarrow> 123 # join_words ws @ [125])"

fun statement_text :: "policy_statement \<Rightarrow> rstr" where
  "statement_text (NormalPerm op s t c p) = op @ 32 # print_objs s @ 32 # print_objs t @ 32 # print_objs c @ 32 # print_objs p"
| "statement_text (XPerm op s t c x p) =
     op @ 32 # print_objs s @ 32 # print_objs t @ 32 # print_objs c @ 32 # x @ 32 # print_objs p"
| "statement_text (TypeState op t) = op @ 32 # print_objs t"
| "statement_text (TypeDecl n a) = rs ''type'' @ 32 # n @ 32 # print_objs a"
| "statement_text (TypeAttr t a) = rs ''typeattribute'' @ 32 # print_objs t @ 32 # print_objs a"
| "statement_text (Attr n) = rs ''attribute'' @ 32 # n"
| "statement_text (TypeTransition s t c d obj) =
     rs ''type_transition'' @ 32 # s @ 32 # t @ 32 # c @ 32 # d @ (case obj of None \<Rightarrow> [] | Some x \<Rightarrow> 32 # x)"
| "statement_text (TypeChange op s t c d) = op @ 32 # s @ 32 # t @ 32 # c @ 32 # d"
| "statement_text (GenFsCon f p c) = rs ''genfscon'' @ 32 # f @ 32 # p @ 32 # c"

definition objs_wf :: "rstr list \<Rightarrow> bool" where
  "objs_wf ws \<longleftrightarrow> ws \<noteq> [] \<and> list_all word_ok ws \<and> (1 < length ws \<longrightarrow> length (join_words ws) \<le> 100)"

definition objs_star_wf :: "rstr list \<Rightarrow> bool" where
  "objs_star_wf ws \<longleftrightarrow> objs_wf ws \<or> ws = [rs ''*'']"

fun statement_wf :: "policy_statement \<Rightarrow> bool" where
  "statement_wf (NormalPerm op s t c p) \<longleftrightarrow> op \<in> {rs ''allow'', rs ''deny'', rs ''auditallow'', rs ''dontaudit''} \<and>
     objs_star_wf s \<and> objs_star_wf t \<and> objs_star_wf c \<and> objs_star_wf p"
| "statement_wf (XPerm op s t c x p) \<longleftrightarrow> op \<in> {rs ''allowxperm'', rs ''auditallowxperm'', rs ''dontauditxperm''} \<and>
     objs_star_wf s \<and> objs_star_wf t \<and> objs_star_wf c \<and> word_ok x \<and> objs_star_wf p"
| "statement_wf (TypeState op t) \<longleftrightarrow> op \<in> {rs ''permissive'', rs ''enforce''} \<and> objs_wf t"
| "statement_wf (TypeDecl n a) \<longleftrightarrow> word_ok n \<and> objs_wf a"
| "statement_wf (TypeAttr t a) \<longleftrightarrow> objs_wf t \<and> objs_wf a"
| "statement_wf (Attr n) \<longleftrightarrow> word_ok n"
| "statement_wf (TypeTransition s t c d obj) \<longleftrightarrow> word_ok s \<and> word_ok t \<and> word_ok c \<and> word_ok d \<and> (\<forall>x\<in>set_option obj. word_ok x)"
| "statement_wf (TypeChange op s t c d) \<longleftrightarrow> op \<in> {rs ''type_change'', rs ''type_member''} \<and> word_ok s \<and> word_ok t \<and> word_ok c \<and> word_ok d"
| "statement_wf (GenFsCon f p c) \<longleftrightarrow> word_ok f \<and> word_ok p \<and> word_ok c"

text \<open>What may follow a word, and what may follow a blank.\<close>

definition ends :: "rstr \<Rightarrow> bool" where
  "ends r \<longleftrightarrow> r = [] \<or> hd r = 32"

definition starts :: "rstr \<Rightarrow> bool" where
  "starts r \<longleftrightarrow> r \<noteq> [] \<and> \<not> is_space (hd r)"

lemma ends_simps [simp]: "ends []" "ends (32 # r)"
  by (simp_all add: ends_def)

lemma char_kinds [simp]:
  "is_sepolicy_char c \<Longrightarrow> \<not> is_space c" "is_sepolicy_char c \<Longrightarrow> \<not> is_whitespace c"
  "\<not> is_sepolicy_char 32" "\<not> is_sepolicy_char 123" "\<not> is_sepolicy_char 125" "\<not> is_sepolicy_char 42"
  "is_whitespace 32" "\<not> is_whitespace 125" "is_space 32" "\<not> is_space 123" "\<not> is_space 42"
proof -
  have lo: "45 \<le> c \<and> c < 123" if "is_sepolicy_char c" using sepolicy_char_ascii [OF that] .
  show "\<not> is_space c" if "is_sepolicy_char c" using lo [OF that] by (auto simp: is_space_def)
  show "\<not> is_whitespace c" if "is_sepolicy_char c"
    using lo [OF that] by (auto simp: is_whitespace_def word_le_nat_alt word_less_nat_alt word_unat_eq_iff)
qed (simp_all add: is_sepolicy_char_def is_whitespace_def is_space_def)

lemma parse_word_print:
  assumes "word_ok w" "ends r"
  shows "take_while1 is_sepolicy_char (w @ r) = Some (w, r)"
proof -
  have "\<forall>c\<in>set w. is_sepolicy_char c" using assms(1) by (simp add: word_ok_def list_all_iff)
  moreover have "takeWhile is_sepolicy_char r = []" "dropWhile is_sepolicy_char r = r"
    using assms(2) by (cases r; simp add: ends_def)+
  ultimately show ?thesis using assms(1) by (simp add: take_while1_def word_ok_def)
qed

lemma starts_word [simp]: "word_ok w \<Longrightarrow> starts (w @ r)"
  by (cases w) (auto simp: word_ok_def starts_def)

lemma starts_word' [simp]: "word_ok w \<Longrightarrow> starts w"
  using starts_word [of w "[]"] by simp

lemma space1_print [simp]: "starts r \<Longrightarrow> space1 (32 # r) = Some ([32], r)"
  by (cases r) (auto simp: starts_def space1_def take_while1_def)

lemma split_on_append:
  "\<forall>c\<in>set w. \<not> P c \<Longrightarrow> P d \<Longrightarrow> split_on P (w @ d # s) = w # split_on P s"
  by (induction w) auto

lemma split_on_none: "\<forall>c\<in>set w. \<not> P c \<Longrightarrow> split_on P w = [w]"
  by (induction w) auto

lemma split_join:
  assumes "ws \<noteq> []" "list_all word_ok ws"
  shows "split_whitespace (join_words ws) = ws"
  using assms
proof (induction ws rule: join_words.induct)
  case (2 w)
  then have "\<forall>c\<in>set w. \<not> is_whitespace c" by (auto simp: word_ok_def list_all_iff)
  then show ?case using 2 by (simp add: split_whitespace_def split_on_none word_ok_def)
next
  case (3 w v ws)
  then have "\<forall>c\<in>set w. \<not> is_whitespace c" by (auto simp: word_ok_def list_all_iff)
  then show ?case using 3 by (simp add: split_whitespace_def split_on_append word_ok_def)
qed simp

lemma join_chars: "list_all word_ok ws \<Longrightarrow> c \<in> set (join_words ws) \<Longrightarrow> is_sepolicy_char c \<or> c = 32"
  by (induction ws rule: join_words.induct) (auto simp: word_ok_def list_all_iff)

lemma join_nonempty: "ws \<noteq> [] \<Longrightarrow> list_all word_ok ws \<Longrightarrow> join_words ws \<noteq> []"
  by (induction ws rule: join_words.induct) (auto simp: word_ok_def)

lemma bracket_eqs: "rs ''{'' = [123]" "rs ''}'' = [125]"
  by code_simp+

lemma parse_bracket_print:
  assumes "ws \<noteq> []" "list_all word_ok ws" "length (join_words ws) \<le> 100"
  shows "parse_bracket_objs (123 # join_words ws @ 125 # r) = Some (ws, r)"
proof -
  let ?P = "\<lambda>c. is_sepolicy_char c \<or> is_whitespace c"
  have all: "\<forall>c\<in>set (join_words ws). ?P c" using join_chars [OF assms(2)] char_kinds(7) by metis
  have "takeWhile ?P (take 100 (join_words ws @ 125 # r)) = join_words ws"
    using all assms(3) by (cases "100 - length (join_words ws)") (auto simp: take_Cons')
  then show ?thesis using join_nonempty [OF assms(1,2)] split_join [OF assms(1,2)] assms(1)
    by (cases "join_words ws") (simp_all add: parse_bracket_objs_def bracket_eqs tag_def take_while_m_n_def Let_def)
qed

lemma print_objs_cases:
  assumes "objs_wf ws"
  obtains w where "ws = [w]" "word_ok w" "print_objs ws = w"
  | "ws \<noteq> []" "list_all word_ok ws" "length (join_words ws) \<le> 100" "print_objs ws = 123 # join_words ws @ [125]"
  using assms by (cases ws rule: join_words.cases) (auto simp: objs_wf_def print_objs_def)

lemma parse_no_star_print [simp]:
  assumes "objs_wf ws" "ends r"
  shows "parse_seobj_no_star (print_objs ws @ r) = Some (ws, r)"
  using assms(1)
proof (cases rule: print_objs_cases)
  case (1 w)
  then show ?thesis using assms(2) by (simp add: parse_seobj_no_star_def parse_single_obj_def parse_word_print)
next
  case 2
  then show ?thesis
    by (simp add: parse_seobj_no_star_def parse_single_obj_def parse_bracket_print take_while1_def)
qed

lemma parse_star_print [simp]:
  assumes "objs_star_wf ws" "ends r"
  shows "parse_seobj (print_objs ws @ r) = Some (ws, r)"
proof (cases "ws = [rs ''*'']")
  case True
  have "take_while1 is_sepolicy_char (42 # r) = None" by (simp add: take_while1_def)
  moreover have "parse_bracket_objs (42 # r) = None" by (simp add: parse_bracket_objs_def bracket_eqs tag_def)
  ultimately show ?thesis
    by (simp add: True parse_seobj_def parse_single_obj_def parse_star_def print_objs_def star_eq tag_def)
next
  case False
  then have "objs_wf ws" using assms(1) by (simp add: objs_star_wf_def)
  from parse_no_star_print [OF this assms(2)] show ?thesis
    by (auto simp: parse_seobj_def parse_seobj_no_star_def split: option.splits)
qed

lemma starts_objs [simp]: "objs_wf ws \<Longrightarrow> starts (print_objs ws @ r)"
  by (erule print_objs_cases) (simp_all add: starts_def [of "123 # _"])

lemma starts_objs_star [simp]: "objs_star_wf ws \<Longrightarrow> starts (print_objs ws @ r)"
  unfolding objs_star_wf_def by (erule disjE, erule starts_objs, simp add: print_objs_def star_eq starts_def)

lemma parse_single_word_print [simp]: "word_ok w \<Longrightarrow> ends r \<Longrightarrow> parse_single_word (w @ r) = Some (w, r)"
  by (simp add: parse_single_word_def parse_word_print)

text \<open>The same at the end of the text.\<close>

lemmas print_at_end [simp] = parse_no_star_print [where r = "[]", simplified] parse_star_print [where r = "[]", simplified]
  starts_objs [where r = "[]", simplified] starts_objs_star [where r = "[]", simplified] parse_single_word_print [where r = "[]", simplified]

lemma rule_keywords:
  "rs ''allow'' = [97, 108, 108, 111, 119]" "rs ''deny'' = [100, 101, 110, 121]"
  "rs ''auditallow'' = [97, 117, 100, 105, 116, 97, 108, 108, 111, 119]"
  "rs ''dontaudit'' = [100, 111, 110, 116, 97, 117, 100, 105, 116]"
  "rs ''allowxperm'' = [97, 108, 108, 111, 119, 120, 112, 101, 114, 109]"
  "rs ''auditallowxperm'' = [97, 117, 100, 105, 116, 97, 108, 108, 111, 119, 120, 112, 101, 114, 109]"
  "rs ''dontauditxperm'' = [100, 111, 110, 116, 97, 117, 100, 105, 116, 120, 112, 101, 114, 109]"
  "rs ''permissive'' = [112, 101, 114, 109, 105, 115, 115, 105, 118, 101]" "rs ''enforce'' = [101, 110, 102, 111, 114, 99, 101]"
  "rs ''type'' = [116, 121, 112, 101]" "rs ''typeattribute'' = [116, 121, 112, 101, 97, 116, 116, 114, 105, 98, 117, 116, 101]"
  "rs ''attradd'' = [97, 116, 116, 114, 97, 100, 100]" "rs ''attribute'' = [97, 116, 116, 114, 105, 98, 117, 116, 101]"
  "rs ''type_transition'' = [116, 121, 112, 101, 95, 116, 114, 97, 110, 115, 105, 116, 105, 111, 110]"
  "rs ''name_transition'' = [110, 97, 109, 101, 95, 116, 114, 97, 110, 115, 105, 116, 105, 111, 110]"
  "rs ''type_change'' = [116, 121, 112, 101, 95, 99, 104, 97, 110, 103, 101]"
  "rs ''type_member'' = [116, 121, 112, 101, 95, 109, 101, 109, 98, 101, 114]"
  "rs ''genfscon'' = [103, 101, 110, 102, 115, 99, 111, 110]"
  by code_simp+

text \<open>After a keyword that is only the beginning of the word the blank is missing.\<close>

lemma space1_missing [simp]: "is_sepolicy_char c \<Longrightarrow> space1 (c # r) = None"
  by (simp add: space1_def take_while1_def)

lemma keyword_chars [simp]: "is_sepolicy_char 120" "is_sepolicy_char 97" "is_sepolicy_char 95"
  by (simp_all add: is_sepolicy_char_def)

lemmas parsers = NormalPerm_parse_def XPerm_parse_def TypeState_parse_def TypeDecl_parse_def TypeAttr_parse_def Attr_parse_def
  TypeTransition_parse_def TypeChange_parse_def GenFsCon_parse_def

definition statement_alts :: "policy_statement parser list" where
  "statement_alts = [NormalPerm_parse, XPerm_parse, TypeState_parse, TypeDecl_parse, TypeAttr_parse, Attr_parse,
     TypeTransition_parse, TypeChange_parse, GenFsCon_parse]"

lemma alts_NormalPerm:
  assumes "statement_wf (NormalPerm op s t c p)"
  shows "alt statement_alts (statement_text (NormalPerm op s t c p)) = Some (NormalPerm op s t c p, [])"
proof -
  have wf: "objs_star_wf s" "objs_star_wf t" "objs_star_wf c" "objs_star_wf p" using assms by simp_all
  consider "op = rs ''allow''" | "op = rs ''deny''" | "op = rs ''auditallow''" | "op = rs ''dontaudit''" using assms by auto
  then show ?thesis by cases (simp_all add: wf statement_alts_def NormalPerm_parse_def rule_keywords tag_def)
qed

lemma alts_XPerm:
  assumes "statement_wf (XPerm op s t c x p)"
  shows "alt statement_alts (statement_text (XPerm op s t c x p)) = Some (XPerm op s t c x p, [])"
proof -
  have wf: "objs_star_wf s" "objs_star_wf t" "objs_star_wf c" "objs_star_wf p" "word_ok x" using assms by simp_all
  consider "op = rs ''allowxperm''" | "op = rs ''auditallowxperm''" | "op = rs ''dontauditxperm''" using assms by auto
  then show ?thesis by cases (simp_all add: wf statement_alts_def NormalPerm_parse_def XPerm_parse_def rule_keywords tag_def)
qed

lemma alts_TypeState:
  assumes "statement_wf (TypeState op t)"
  shows "alt statement_alts (statement_text (TypeState op t)) = Some (TypeState op t, [])"
proof -
  have wf: "objs_wf t" using assms by simp
  consider "op = rs ''permissive''" | "op = rs ''enforce''" using assms by auto
  then show ?thesis
    by cases (simp_all add: wf statement_alts_def NormalPerm_parse_def XPerm_parse_def TypeState_parse_def rule_keywords tag_def)
qed

lemma alts_type_words:
  "statement_wf (TypeDecl n a) \<Longrightarrow> alt statement_alts (statement_text (TypeDecl n a)) = Some (TypeDecl n a, [])"
  "statement_wf (TypeAttr ts a) \<Longrightarrow> alt statement_alts (statement_text (TypeAttr ts a)) = Some (TypeAttr ts a, [])"
  "statement_wf (Attr n) \<Longrightarrow> alt statement_alts (statement_text (Attr n)) = Some (Attr n, [])"
  by (simp_all add: statement_alts_def NormalPerm_parse_def XPerm_parse_def TypeState_parse_def TypeDecl_parse_def TypeAttr_parse_def
      Attr_parse_def rule_keywords tag_def)

lemma alts_TypeTransition:
  assumes "statement_wf (TypeTransition s t c d obj)"
  shows "alt statement_alts (statement_text (TypeTransition s t c d obj)) = Some (TypeTransition s t c d obj, [])"
  using assms by (cases obj) (simp_all add: statement_alts_def parsers rule_keywords tag_def)

lemma alts_TypeChange:
  assumes "statement_wf (TypeChange op s t c d)"
  shows "alt statement_alts (statement_text (TypeChange op s t c d)) = Some (TypeChange op s t c d, [])"
proof -
  have wf: "word_ok s" "word_ok t" "word_ok c" "word_ok d" using assms by simp_all
  consider "op = rs ''type_change''" | "op = rs ''type_member''" using assms by auto
  then show ?thesis by cases (simp_all add: wf statement_alts_def parsers rule_keywords tag_def)
qed

lemma alts_GenFsCon:
  "statement_wf (GenFsCon f p c) \<Longrightarrow> alt statement_alts (statement_text (GenFsCon f p c)) = Some (GenFsCon f p c, [])"
  by (simp add: statement_alts_def parsers rule_keywords tag_def)

lemma alts_print: "statement_wf st \<Longrightarrow> alt statement_alts (statement_text st) = Some (st, [])"
  by (cases st) (simp_all only: alts_NormalPerm alts_XPerm alts_TypeState alts_type_words alts_TypeTransition alts_TypeChange alts_GenFsCon)

section \<open>Lemmas: a whole text\<close>

text \<open>The first and last characters of a printed statement are not blanks, and none ends a line.\<close>

definition line_char :: "u32 \<Rightarrow> bool" where
  "line_char c \<longleftrightarrow> is_sepolicy_char c \<or> c \<in> {32, 42, 123, 125}"

definition solid :: "rstr \<Rightarrow> bool" where
  "solid s \<longleftrightarrow> s \<noteq> [] \<and> \<not> is_whitespace (hd s) \<and> \<not> is_whitespace (last s) \<and> hd s \<noteq> 35 \<and> list_all line_char s"

lemma trim_solid: "solid s \<Longrightarrow> trim s = s"
proof -
  assume "solid s"
  then have "dropWhile is_whitespace s = s" "dropWhile is_whitespace (rev s) = rev s"
    by (simp_all add: solid_def dropWhile_eq_self_iff hd_rev)
  then show ?thesis by (simp add: trim_def)
qed

lemma line_char_end: "line_char c \<Longrightarrow> c \<noteq> 10 \<and> c \<noteq> 59"
  unfolding line_char_def by (auto simp: is_sepolicy_char_def)

lemma solid_word: "word_ok w \<Longrightarrow> solid w"
proof -
  assume w: "word_ok w"
  then have "hd w \<in> set w" "last w \<in> set w" by (simp_all add: word_ok_def)
  then have "is_sepolicy_char (hd w)" "is_sepolicy_char (last w)" using w by (auto simp: word_ok_def list_all_iff)
  moreover have "\<not> is_sepolicy_char 35" by (simp add: is_sepolicy_char_def)
  ultimately have "\<not> is_whitespace (hd w)" "\<not> is_whitespace (last w)" "hd w \<noteq> 35" by (simp_all, metis)
  then show ?thesis using w by (auto simp: solid_def word_ok_def line_char_def list_all_iff)
qed

lemma solid_append: "solid s \<Longrightarrow> solid r \<Longrightarrow> solid (s @ 32 # r)"
  by (auto simp: solid_def line_char_def)

lemma solid_objs:
  assumes "objs_wf ws"
  shows "solid (print_objs ws)"
  using assms
proof (cases rule: print_objs_cases)
  case (1 w)
  then show ?thesis by (simp add: solid_word)
next
  case 2
  then have "\<forall>c\<in>set (join_words ws). line_char c" using join_chars unfolding line_char_def by blast
  then show ?thesis unfolding 2(4) by (simp add: solid_def list_all_iff line_char_def [of 123] line_char_def [of 125] is_whitespace_def [of 123])
qed

lemma solid_objs_star: "objs_star_wf ws \<Longrightarrow> solid (print_objs ws)"
  unfolding objs_star_wf_def
  by (erule disjE, erule solid_objs, simp add: print_objs_def star_eq solid_def line_char_def is_whitespace_def)

lemma word_ok_keywords [simp]:
  "word_ok (rs ''allow'')" "word_ok (rs ''deny'')" "word_ok (rs ''auditallow'')" "word_ok (rs ''dontaudit'')"
  "word_ok (rs ''allowxperm'')" "word_ok (rs ''auditallowxperm'')" "word_ok (rs ''dontauditxperm'')" "word_ok (rs ''permissive'')"
  "word_ok (rs ''enforce'')" "word_ok (rs ''type'')" "word_ok (rs ''typeattribute'')" "word_ok (rs ''attribute'')"
  "word_ok (rs ''type_transition'')" "word_ok (rs ''type_change'')" "word_ok (rs ''type_member'')" "word_ok (rs ''genfscon'')"
  by code_simp+

lemma solid_statement: "statement_wf st \<Longrightarrow> solid (statement_text st)"
proof (cases st)
  case (TypeTransition a b c d obj)
  assume "statement_wf st"
  then show ?thesis unfolding TypeTransition by (cases obj) (simp_all add: solid_append solid_word)
qed (auto simp: solid_append solid_word solid_objs solid_objs_star)

lemma PolicyStatement_print:
  assumes "statement_wf st"
  shows "PolicyStatement_parse (statement_text st) = Some (st, [])"
proof -
  have s: "solid (statement_text st)" by (rule solid_statement [OF assms])
  have "\<not> is_space (hd (statement_text st))" using s by (auto simp: solid_def is_space_def is_whitespace_def)
  then have "space0 (statement_text st) = Some ([], statement_text st)"
    using s by (cases "statement_text st") (simp_all add: space0_def take_while_def solid_def)
  then show ?thesis using alts_print [OF assms]
    by (simp add: PolicyStatement_parse_def statement_alts_def [symmetric] space0_def take_while_def)
qed

fun policy_text :: "policy_statement list \<Rightarrow> rstr" where
  "policy_text [] = []"
| "policy_text (st # sts) = statement_text st @ 10 # policy_text sts"

lemma parse_line_print:
  assumes "statement_wf st"
  shows "parse_lines strict (statement_text st # ls) = map_option ((#) st) (parse_lines strict ls)"
proof -
  have s: "solid (statement_text st)" by (rule solid_statement [OF assms])
  then have "statement_text st \<noteq> []" "take 1 (statement_text st) \<noteq> rs ''#''"
    by (cases "statement_text st"; simp add: solid_def rs_def chars_def)+
  then show ?thesis using trim_solid [OF s] PolicyStatement_print [OF assms] by (simp add: Let_def)
qed

lemma parse_text_print:
  assumes "list_all statement_wf sts"
  shows "parse_sepolicy (policy_text sts) strict = Some sts"
  using assms unfolding parse_sepolicy_def
proof (induction sts)
  case Nil
  show ?case by (simp add: trim_def)
next
  case (Cons st sts)
  have "solid (statement_text st)" using Cons.prems by (simp add: solid_statement)
  then have "\<forall>c\<in>set (statement_text st). \<not> (c = 10 \<or> c = 59)" using line_char_end by (auto simp: solid_def list_all_iff)
  then have "split_on (\<lambda>c. c = 10 \<or> c = 59) (policy_text (st # sts)) = statement_text st # split_on (\<lambda>c. c = 10 \<or> c = 59) (policy_text sts)"
    by (simp add: split_on_append)
  then show ?case using Cons by (simp add: parse_line_print del: parse_lines.simps)
qed

text \<open>(C40) The rule language reads back. Every list of well-formed statements, written one per line, is parsed, strictly
  or not, to exactly that list; the keywords that begin other keywords do not get in the way. A set in braces is
  well formed when it has at most 100 characters, the limit of the parser.\<close>

theorem sepolicy_text_roundtrip:
  assumes "list_all statement_wf sts"
  shows "parse_sepolicy (policy_text sts) strict = Some sts"
  by (rule parse_text_print [OF assms])

definition demo_rules :: "policy_statement list" where
  "demo_rules = [NormalPerm (rs ''allow'') [rs ''ksu''] [rs ''*''] [rs ''file''] [rs ''read'', rs ''write''],
     XPerm (rs ''allowxperm'') [rs ''ksu''] [rs ''dev''] [rs ''file''] (rs ''ioctl'') [rs ''0x1234''],
     TypeTransition (rs ''a'') (rs ''b'') (rs ''c'') (rs ''d'') None]"

theorem sepolicy_text_roundtrip_witness:
  "policy_text (take 1 demo_rules) = rs ''allow ksu * file {read write}'' @ [10] \<and>
   parse_sepolicy (policy_text demo_rules) True = Some demo_rules"
proof
  show "policy_text (take 1 demo_rules) = rs ''allow ksu * file {read write}'' @ [10]" by code_simp
  have "list_all statement_wf demo_rules" by code_simp
  then show "parse_sepolicy (policy_text demo_rules) True = Some demo_rules" by (rule sepolicy_text_roundtrip)
qed

text \<open>What the parser does not notice: the rest of a line after a complete statement is dropped, in the strict mode too,
  and the path of a \<open>genfscon\<close> rule cannot begin with a slash.\<close>

lemma strict_ignores_rest:
  "parse_sepolicy (rs ''type_transition a b c d x.y'') True =
     Some [TypeTransition (rs ''a'') (rs ''b'') (rs ''c'') (rs ''d'') (Some (rs ''x''))]"
  by code_simp

lemma genfscon_path_refused: "parse_sepolicy (rs ''genfscon proc /version u'') True = None"
  by code_simp

section \<open>A daemon that makes a domain permissive\<close>

definition root_world :: sc_world where
  "root_world = set_k ((sc_k scw0)\<lparr>kw_esc := (kw_esc (sc_k scw0))\<lparr>xs_tasks := (\<lambda>_. task0)\<rparr>\<rparr>) scw0"

definition root_env :: sc_env where
  "root_env = sce0\<lparr>ce_pol := penv1\<rparr>"

definition call0 :: ioctl_call where
  "call0 = \<lparr>ic_filp = Some 0, ic_argp = 0x1000, ic_payload = 0x2000\<rparr>"

definition permissive_atomic :: atomic_statement where
  "permissive_atomic = \<lparr>as_cmd = 3, as_subcmd = 1, as_sepols = ObjOne (chars ''ksu'') # replicate 6 ObjNone\<rparr>"

theorem live_patch_reaches_policy_witness:
  "\<exists>w'. live_patch call0 (rs ''permissive ksu'') root_env root_world = Some (True, w') \<and>
     map_option (\<lambda>p. pd_permissive (sp_db p)) (ss_policy (sc_selinux w')) = Some {1}"
proof -
  have uid: "current_uid root_world = 0" by (simp add: current_uid_def root_world_def set_k_def task0_def)
  have ptr: "ic_payload call0 \<noteq> 0" by (simp add: call0_def)
  have parse: "parse_sepolicy (trim (rs ''permissive ksu'')) False = Some [TypeState (rs ''permissive'') [rs ''ksu'']]" by code_simp
  have flat: "flatten_atomic_statements [TypeState (rs ''permissive'') [rs ''ksu'']] = Some [permissive_atomic]" by code_simp
  obtain payload where ser: "serialize_atomic_statements [permissive_atomic] = Some payload" "length payload \<le> 0x800000"
    by (simp add: serialize_atomic_statements_def append_atomic_statement_def encode_policy_object_def cmd_expected_argc_def
        permissive_atomic_def chars_def)
  define p where "p = ce_pol (daemon_memory call0 payload root_env)"
  have p: "p = penv1\<lparr>pe_user := (pe_user penv1)(0x2000 := (\<lambda>n. Some (take n payload)))\<rparr>"
    by (simp add: p_def daemon_memory_def root_env_def call0_def)
  let ?old = "\<lparr>sp_db = pdb0, sp_latest_granting = 1\<rparr>" and ?pol = "\<lparr>sp_db = pdb0\<lparr>pd_len := 0\<rparr>, sp_latest_granting = 1\<rparr>"
  have old: "ss_policy (sc_selinux root_world) = Some ?old" by (simp add: root_world_def set_k_def scw0_def sst0_def)
  have alloc: "pe_payload_alloc (ce_pol root_env)" by (simp add: root_env_def penv1_def penv0_def)
  have dup: "ksu_dup_sepolicy p ?old = Inr ?pol" by (simp add: p ksu_dup_sepolicy_def penv1_def penv0_def fix_config_def)
  have cmd: "atomic_cmd permissive_atomic = (\<lparr>sd_cmd = 3, sd_subcmd = 1\<rparr>, [Some (chars ''ksu'')])" by code_simp
  have run: "run_cmd p (atomic_cmd permissive_atomic) (pdb0\<lparr>pd_len := 0\<rparr>, 0) = (pdb0\<lparr>pd_len := 0, pd_permissive := {1}\<rparr>, 1)"
    unfolding cmd by (simp add: run_cmd_def apply_one_sepolicy_cmd_def code_of_def ksu_permissive_def set_type_state_def
        set_permissive_def ebitmap_set_def all_given_def sepol_require_not_all_def p penv1_def penv0_def Let_def pdb0_def su_type_def)
  obtain sts as where a: "parse_sepolicy (trim (rs ''permissive ksu'')) False = Some sts" "flatten_atomic_statements sts = Some as"
    and all: "\<And>payload old pol p. as \<noteq> [] \<and> serialize_atomic_statements as = Some payload \<and> length payload \<le> 0x800000 \<and>
       ss_policy (sc_selinux root_world) = Some old \<and> pe_payload_alloc (ce_pol root_env) \<and>
       p = ce_pol (daemon_memory call0 payload root_env) \<and> ksu_dup_sepolicy p old = Inr pol \<Longrightarrow>
       live_patch call0 (rs ''permissive ksu'') root_env root_world =
         Some (True, root_world\<lparr>sc_selinux := publish p pol (fst (fold (run_cmd p) (map atomic_cmd as) (sp_db pol, 0))) (sc_selinux root_world)\<rparr>)"
    using live_patch_reaches_policy [OF uid ptr, of "rs ''permissive ksu''" root_env] by blast
  have as: "as = [permissive_atomic]" using a flat unfolding parse by simp
  have "live_patch call0 (rs ''permissive ksu'') root_env root_world =
      Some (True, root_world\<lparr>sc_selinux := publish p ?pol (pdb0\<lparr>pd_len := 0, pd_permissive := {1}\<rparr>) (sc_selinux root_world)\<rparr>)"
    using all [of payload ?old p ?pol] ser old alloc p_def dup run unfolding as by simp
  moreover have "pd_permissive (snd (ksu_policydb_fixup_len p db)) = pd_permissive db" for db by (subst fixup_len_frame) simp
  ultimately show ?thesis by (simp add: publish_def reset_avc_cache_def)
qed

end
