(* ===== verification/Spec2Isabelle.thy ===== *)
theory Spec2Isabelle
  imports KSU_AllowStore KSU_Sulog KSU_Escape KSU_ApkSign KSU_Throne KSU_SyscallHook KSU_Mark KSU_Sucompat KSU_Runtime KSU_Supercall KSU_KsudSepolicy
begin

text \<open>
  A verification of KernelSU-Next: the kernel module (\<open>src/kernel\<close>, with the interface headers in \<open>src/uapi\<close>) and parts
  of the daemon (\<open>src/userspace/ksud/src\<close>).

  \<^bold>\<open>The program.\<close> The module gives root to chosen apps. It finds its manager app by the signature of the APK, keeps a
  list of profiles by uid, watches system calls through a dispatcher put into the syscall table and a tracepoint, turns
  an execution of \<open>su\<close> by an allowed app into an execution of the daemon with the credentials of the profile, unmounts
  module mounts for other apps, adds its lines to init.rc, edits the SELinux policy, records every use of root in a
  queue, and is driven by ioctls on a descriptor that the reboot system call hands out. The daemon prepares what the
  ioctls carry.

  \<^bold>\<open>The theories\<close> and the code they model.
  \<^item> \<open>KSU_Prelude\<close>: machine integers, errno values, C strings and little-endian layout.
  \<^item> \<open>KSU_Profile\<close>: \<open>uapi/app_profile.h\<close> and the profile part of \<open>policy/allowlist.c\<close>: the structures, their bytes,
    validity, migration.
  \<^item> \<open>KSU_Cred\<close>: credentials, tasks, \<open>selinux/selinux.c\<close>, \<open>manager/manager_identity.h\<close>, \<open>policy/allowlist.h\<close>,
    \<open>feature/shell_su_adb_only.c\<close>.
  \<^item> \<open>KSU_Allowlist\<close> and \<open>KSU_AllowStore\<close>: the hash table, reference counts, queries and the file of
    \<open>policy/allowlist.c\<close>. The locale \<open>profile_store\<close> is the contract of a store of profiles, interpreted on the hash
    table; loading, saving and pruning are proved from the contract.
  \<^item> \<open>KSU_Feature\<close>: \<open>policy/feature.c\<close>. \<open>KSU_EventQueue\<close>: \<open>infra/event_queue.c\<close>, every interleaving of writers and
    the reader as a step relation. \<open>KSU_Sulog\<close>: \<open>sulog/event.c\<close>, \<open>sulog/fd.c\<close>, \<open>feature/sulog.c\<close>.
  \<^item> \<open>KSU_Escape\<close>: \<open>policy/app_profile.c\<close>, \<open>infra/su_mount_ns.c\<close>, \<open>infra/seccomp_cache.c\<close>.
  \<^item> \<open>KSU_ApkSign\<close> and \<open>KSU_Throne\<close>: \<open>manager/apk_sign.c\<close>, \<open>manager/throne_tracker.c\<close>, \<open>manager/pkg_observer.c\<close>.
  \<^item> \<open>KSU_SyscallHook\<close>: \<open>hook/arm64/syscall_hook.c\<close>, \<open>hook/arm64/patch_memory.c\<close>, \<open>hook/syscall_hook_manager.c\<close>; the
    rendezvous of the processors is a step relation. \<open>KSU_Mark\<close>: \<open>hook/tp_marker.c\<close>, \<open>hook/setuid_hook.c\<close>,
    \<open>feature/kernel_umount.c\<close>. \<open>KSU_Sucompat\<close>: \<open>feature/sucompat.c\<close>, \<open>hook/syscall_event_bridge.c\<close>,
    \<open>feature/adb_root.c\<close>.
  \<^item> \<open>KSU_Runtime\<close>: \<open>runtime/ksud_integration.c\<close>, \<open>runtime/boot_event.c\<close>; the locale \<open>byte_stream\<close> is what a reader of
    init.rc relies on, interpreted on the read proxy.
  \<^item> \<open>KSU_Symbols\<close>: \<open>infra/symbol_resolver.c\<close>. \<open>KSU_Sepolicy\<close>: \<open>selinux/sepolicy.c\<close>, \<open>selinux/rules.c\<close>.
    \<open>KSU_FileWrapper\<close>: \<open>infra/file_wrapper.c\<close>.
  \<^item> \<open>KSU_Supercall\<close>: \<open>supercall/dispatch.c\<close>, \<open>supercall/perm.c\<close>, \<open>supercall/supercall.c\<close>: all of the above behind the
    ioctls and the reboot call; what a task may do is a step relation.
  \<^item> \<open>KSU_RustText\<close>: strings of the daemon and UTF-8. \<open>KSU_KsudSepolicy\<close>: \<open>ksud/src/sepolicy.rs\<close> and the calls of
    \<open>ksud/src/ksucalls.rs\<close> it uses.

  \<^bold>\<open>How the model follows the code.\<close> A structure is a record, an enumeration a datatype, an integer a word of its
  width, a buffer a list of bytes. An operation takes the state and returns it updated, with the return code of the
  code (negative errno values) and what it writes to user memory. Kernel functions the module calls (SHA-256, path
  lookup, credentials allocation, the symbol table, memory) are arguments or fields of environment records; what is
  assumed of them is a hypothesis of the property that needs it, and the witness of that property discharges it at a
  concrete environment.

  \<^bold>\<open>What the properties show.\<close> Safety of the grant: who is allowed (\<open>is_allow_uid_iff\<close>), that only a signed app becomes
  manager, that an unprivileged task changes nothing by any sequence of calls, and that \<open>su\<close> gives exactly the profile.
  Integrity of state: the allowlist refines a map and survives saving and loading, the event queue accounts for every
  event, the syscall table is restored, boot work is done once, policy batches are all or nothing. Transparency: the
  dispatcher, the path redirection and the init.rc stream give everybody else what the kernel would have given.

  \<^bold>\<open>Loops and bounds.\<close> Loops over lists recurse on the list; loops over a file or a table recurse on what is left, with a
  termination proof. Walks that may not end (the ancestors of a task, a hash chain of the seccomp cache, the directory
  search) have the bound of the code (\<open>MAX_ANCESTOR_DEPTH\<close>, the depth of the search) or return nothing, and the
  properties state that they return. Waiting of processors for each other is a step relation with a measure.

  \<^bold>\<open>Not modelled.\<close> The hook variants for x86_64 and riscv64 (\<open>kernel/hook/x86_64\<close>, \<open>kernel/hook/riscv64\<close>) repeat the
  arm64 one for other instruction sets. Page table walks, cache maintenance, kprobe and tracepoint registration are
  kernel and hardware access. \<open>kernel/susfs\<close> and \<open>kernel/feature/selinux_hide.c\<close> replace functions and fields inside
  the kernel's own structures, whose layout and meaning is not in the repository. \<open>kernel/preinit\<close> is a freestanding
  program with its own C library; \<open>kernel/core/init.c\<close> is the order of initialisers. Of the daemon, installation of
  modules, boot image patching and the command line consist of calls to external programs and crates. The manager app
  is a user interface.
\<close>

end
